(* ===== verification/Prelude.thy ===== *)
theory Prelude
  imports Main "HOL-Library.Word" "HOL-Library.Monad_Syntax"
begin

text \<open>
  The shared base of the development: the machine integer types of the sources
  (\<^verbatim>\<open>uint8_t\<close> to \<^verbatim>\<open>uint64_t\<close>), the C idiom of testing a flag by masking,
  byte buffers with checked accesses, and the lemmas on bits and lists that the component
  theories share.

  A byte array of the C++ sources is a \<open>u8 list\<close>. An access outside it is undefined
  behaviour there, so every access goes through \<open>rd8\<close>, \<open>wr8\<close>, \<open>rdn\<close> or \<open>wrn\<close>, which
  return \<open>None\<close> when the access leaves the array. A function whose result is an
  \<open>option\<close> is undefined in C++ exactly where the model returns \<open>None\<close>.
\<close>

unbundle bit_operations_syntax

section \<open>Machine integers and flags\<close>

type_synonym u8 = "8 word"
type_synonym u16 = "16 word"
type_synonym u32 = "32 word"
type_synonym u64 = "64 word"

named_theorems flag_bits \<open>rewriting of mask tests and word equations to single bits\<close>
named_theorems frame \<open>what an operation leaves unchanged\<close>

text \<open>\<open>has w m\<close> is the C condition \<^verbatim>\<open>w & m\<close>.\<close>

definition has :: "'a::len word \<Rightarrow> 'a word \<Rightarrow> bool" where
  "has w m \<longleftrightarrow> w AND m \<noteq> 0"

lemma u16_eq_iff_bits:
  "(a :: u16) = b \<longleftrightarrow>
     bit a 0 = bit b 0 \<and> bit a 1 = bit b 1 \<and> bit a 2 = bit b 2 \<and> bit a 3 = bit b 3 \<and>
     bit a 4 = bit b 4 \<and> bit a 5 = bit b 5 \<and> bit a 6 = bit b 6 \<and> bit a 7 = bit b 7 \<and>
     bit a 8 = bit b 8 \<and> bit a 9 = bit b 9 \<and> bit a 10 = bit b 10 \<and> bit a 11 = bit b 11 \<and>
     bit a 12 = bit b 12 \<and> bit a 13 = bit b 13 \<and> bit a 14 = bit b 14 \<and> bit a 15 = bit b 15"
    (is "_ \<longleftrightarrow> ?R")
proof
  assume R: ?R
  show "a = b"
  proof (rule bit_word_eqI)
    fix n
    assume "n < LENGTH(16)"
    then have "n \<in> {0, 1, 2, 3, 4, 5, 6, 7, 8, 9, 10, 11, 12, 13, 14, 15}"
      by (auto simp: eval_nat_numeral less_Suc_eq)
    with R show "bit a n = bit b n"
      by auto
  qed
qed simp

lemmas has_u16_bits = has_def [where 'a = 16]

lemmas [flag_bits] = has_u16_bits u16_eq_iff_bits bit_and_iff bit_or_iff bit_not_iff

lemma u8_less: "unat b < 256" for b :: u8
  using unsigned_less [of b, where 'a = nat] by simp

text \<open>A big-endian pair of bytes as a number.\<close>

lemma be_unat: "unat (push_bit 8 (ucast h) OR ucast l :: u32) = 256 * unat h + unat l" for h l :: u8
proof -
  have "push_bit 8 (ucast h) AND ucast l = (0 :: u32)"
    by (rule bit_word_eqI) (auto simp: bit_simps dest: bit_imp_le_length)
  then have "push_bit 8 (ucast h) OR ucast l = (push_bit 8 (ucast h) + ucast l :: u32)"
    by (simp only: disjunctive_add_eq_or)
  moreover have "unat h < 256" "unat l < 256"
    by (rule u8_less)+
  then have "unat (push_bit 8 (ucast h) + ucast l :: u32) = 256 * unat h + unat l"
    by (simp add: push_bit_eq_mult unat_word_ariths unsigned_ucast_eq take_bit_eq_mod)
  ultimately show ?thesis by simp
qed

section \<open>Byte buffers\<close>

text \<open>\<^verbatim>\<open>b[i]\<close>, \<^verbatim>\<open>b[i] = v\<close>, and the \<^verbatim>\<open>n\<close> bytes that \<^verbatim>\<open>memcmp\<close> and
  \<^verbatim>\<open>memcpy\<close> read or write at \<^verbatim>\<open>b + i\<close>.\<close>

definition rd8 :: "u8 list \<Rightarrow> nat \<Rightarrow> u8 option" where
  "rd8 b i = (if i < length b then Some (b ! i) else None)"

definition wr8 :: "u8 list \<Rightarrow> nat \<Rightarrow> u8 \<Rightarrow> u8 list option" where
  "wr8 b i v = (if i < length b then Some (b[i := v]) else None)"

definition rdn :: "u8 list \<Rightarrow> nat \<Rightarrow> nat \<Rightarrow> u8 list option" where
  "rdn b i n = (if i + n \<le> length b then Some (take n (drop i b)) else None)"

definition wrn :: "u8 list \<Rightarrow> nat \<Rightarrow> u8 list \<Rightarrow> u8 list option" where
  "wrn b i xs = (if i + length xs \<le> length b then Some (take i b @ xs @ drop (i + length xs) b) else None)"

lemma rd8_eq [simp]: "i < length b \<Longrightarrow> rd8 b i = Some (b ! i)"
  by (simp add: rd8_def)

lemma wr8_eq [simp]: "i < length b \<Longrightarrow> wr8 b i v = Some (b[i := v])"
  by (simp add: wr8_def)

lemma rdn_eq [simp]: "i + n \<le> length b \<Longrightarrow> rdn b i n = Some (take n (drop i b))"
  by (simp add: rdn_def)

lemma wr8_length: "wr8 b i v = Some b' \<Longrightarrow> length b' = length b"
  by (auto simp: wr8_def split: if_splits)

lemma wrn_length: "wrn b i xs = Some b' \<Longrightarrow> length b' = length b"
  by (auto simp: wrn_def split: if_splits)

lemma rdn_length: "rdn b i n = Some xs \<Longrightarrow> length xs = n"
  by (auto simp: rdn_def split: if_splits)

text \<open>Replacing a segment of a list, and reading segments back.\<close>

definition put_seg :: "'a list \<Rightarrow> nat \<Rightarrow> 'a list \<Rightarrow> 'a list" where
  "put_seg b i xs = take i b @ xs @ drop (i + length xs) b"

lemma wrn_eq [simp]: "i + length xs \<le> length b \<Longrightarrow> wrn b i xs = Some (put_seg b i xs)"
  by (simp add: wrn_def put_seg_def)

lemma length_put_seg [simp]: "i + length xs \<le> length b \<Longrightarrow> length (put_seg b i xs) = length b"
  by (simp add: put_seg_def)

lemma take_put_seg [simp]: "n \<le> i \<Longrightarrow> i \<le> length b \<Longrightarrow> take n (put_seg b i xs) = take n b"
  by (simp add: put_seg_def)

lemma nth_put_seg:
  "i + length xs \<le> length b \<Longrightarrow> j < length b \<Longrightarrow>
   put_seg b i xs ! j = (if i \<le> j \<and> j < i + length xs then xs ! (j - i) else b ! j)"
  by (auto simp: put_seg_def nth_append min_def)

lemma segment_put_seg_same [simp]:
  "i + length xs \<le> length b \<Longrightarrow> take (length xs) (drop i (put_seg b i xs)) = xs"
  by (simp add: put_seg_def)

lemma segment_put_seg_other:
  assumes "i + length xs \<le> length b" and "j + n \<le> length b" and "j + n \<le> i \<or> i + length xs \<le> j"
  shows "take n (drop j (put_seg b i xs)) = take n (drop j b)"
  using assms by (intro nth_equalityI) (auto simp: nth_put_seg)

lemma put_seg_segment_id: "i + n \<le> length b \<Longrightarrow> put_seg b i (take n (drop i b)) = b"
  by (intro nth_equalityI) (auto simp: nth_put_seg)

lemma put_seg_put_seg_same:
  "i + length xs \<le> length b \<Longrightarrow> length ys = length xs \<Longrightarrow> put_seg (put_seg b i xs) i ys = put_seg b i ys"
  by (intro nth_equalityI) (auto simp: nth_put_seg)

lemma put_seg_commute:
  assumes "i + length xs \<le> length b" and "j + length ys \<le> length b"
    and "j + length ys \<le> i \<or> i + length xs \<le> j"
  shows "put_seg (put_seg b i xs) j ys = put_seg (put_seg b j ys) i xs"
  using assms by (intro nth_equalityI) (auto simp: nth_put_seg)

section \<open>Results that may be missing\<close>

text \<open>\<open>holds Q x\<close> says that a value, if there is one, satisfies \<open>Q\<close>.\<close>

definition holds :: "('a \<Rightarrow> bool) \<Rightarrow> 'a option \<Rightarrow> bool" where
  "holds Q x \<longleftrightarrow> (case x of None \<Rightarrow> True | Some v \<Rightarrow> Q v)"

lemma holds_simps [simp]: "holds Q None" "holds Q (Some v) = Q v"
  by (simp_all add: holds_def)

lemma holds_iff: "holds Q x \<longleftrightarrow> (\<forall>v. x = Some v \<longrightarrow> Q v)"
  by (cases x) simp_all

lemma holds_bind: "holds A x \<Longrightarrow> (\<And>a. A a \<Longrightarrow> holds Q (f a)) \<Longrightarrow> holds Q (Option.bind x f)"
  by (cases x) simp_all

lemma holds_pure: "(\<And>a. holds Q (f a)) \<Longrightarrow> holds Q (Option.bind x f)"
  by (cases x) simp_all

lemma holds_if: "(b \<Longrightarrow> holds Q x) \<Longrightarrow> (\<not> b \<Longrightarrow> holds Q y) \<Longrightarrow> holds Q (if b then x else y)"
  by simp

lemma holds_bind_pair: "holds (\<lambda>(_, s). P s) x \<Longrightarrow> (\<And>r s. P s \<Longrightarrow> holds Q (f (r, s))) \<Longrightarrow> holds Q (Option.bind x f)"
  by (cases x) auto

lemma holds_mono: "holds P x \<Longrightarrow> (\<And>v. P v \<Longrightarrow> Q v) \<Longrightarrow> holds Q x"
  by (cases x) simp_all

end
