(* ===== verification/Window.thy ===== *)
theory Window
  imports Prelude
begin

text \<open>
  The shared-memory window that the daemons obtain from \<^verbatim>\<open>mmap\<close>: bytes at offsets from
  the mapped base, and the \<^verbatim>\<open>boardram\<close> pointer of \<^verbatim>\<open>registers.cpp\<close> as an offset into the
  same window. The 64-bit mailbox slots are read and written by \<^verbatim>\<open>rd64\<close> and \<^verbatim>\<open>wr64\<close>
  (\<^verbatim>\<open>memcpy\<close> of eight bytes, little-endian on the ARM). The lemmas give the slot round
  trip and say when two slots do not overlap.
\<close>

unbundle bit_operations_syntax

record window =
  map_w :: "u32 \<Rightarrow> u8"
  boardram :: u32

definition rd64 :: "'a window_scheme \<Rightarrow> u32 \<Rightarrow> u64" where
  "rd64 s off =
     ucast (map_w s off) OR
     push_bit 8 (ucast (map_w s (off + 1))) OR
     push_bit 16 (ucast (map_w s (off + 2))) OR
     push_bit 24 (ucast (map_w s (off + 3))) OR
     push_bit 32 (ucast (map_w s (off + 4))) OR
     push_bit 40 (ucast (map_w s (off + 5))) OR
     push_bit 48 (ucast (map_w s (off + 6))) OR
     push_bit 56 (ucast (map_w s (off + 7)))"

definition wr64 :: "'a window_scheme \<Rightarrow> u32 \<Rightarrow> u64 \<Rightarrow> 'a window_scheme" where
  "wr64 s off v = s\<lparr>map_w := (map_w s)(
     off := ucast v,
     off + 1 := ucast (drop_bit 8 v),
     off + 2 := ucast (drop_bit 16 v),
     off + 3 := ucast (drop_bit 24 v),
     off + 4 := ucast (drop_bit 32 v),
     off + 5 := ucast (drop_bit 40 v),
     off + 6 := ucast (drop_bit 48 v),
     off + 7 := ucast (drop_bit 56 v))\<rparr>"

lemma bit_byte_lane:
  "k \<le> 56 \<Longrightarrow> bit (push_bit k (ucast (ucast (drop_bit k v) :: u8)) :: u64) n \<longleftrightarrow> k \<le> n \<and> n < k + 8 \<and> bit v n"
  for v :: u64
  by (auto simp: bit_simps)

lemma bit_low_lane:
  "bit (ucast (ucast v :: u8) :: u64) n \<longleftrightarrow> n < 8 \<and> bit v n" for v :: u64
  by (auto simp: bit_simps)

lemma u64_bytes:
  "ucast (ucast v :: u8) OR
     push_bit 8 (ucast (ucast (drop_bit 8 v) :: u8)) OR
     push_bit 16 (ucast (ucast (drop_bit 16 v) :: u8)) OR
     push_bit 24 (ucast (ucast (drop_bit 24 v) :: u8)) OR
     push_bit 32 (ucast (ucast (drop_bit 32 v) :: u8)) OR
     push_bit 40 (ucast (ucast (drop_bit 40 v) :: u8)) OR
     push_bit 48 (ucast (ucast (drop_bit 48 v) :: u8)) OR
     push_bit 56 (ucast (ucast (drop_bit 56 v) :: u8)) = (v :: u64)" (is "?l = v")
proof (rule bit_word_eqI)
  fix n
  assume "n < LENGTH(64)"
  then have "n < 8 \<or> 8 \<le> n \<and> n < 16 \<or> 16 \<le> n \<and> n < 24 \<or> 24 \<le> n \<and> n < 32 \<or> 32 \<le> n \<and> n < 40 \<or>
      40 \<le> n \<and> n < 48 \<or> 48 \<le> n \<and> n < 56 \<or> 56 \<le> n \<and> n < 64"
    by simp linarith
  moreover have "bit ?l n \<longleftrightarrow> (n < 8 \<or> 8 \<le> n \<and> n < 16 \<or> 16 \<le> n \<and> n < 24 \<or> 24 \<le> n \<and> n < 32 \<or> 32 \<le> n \<and> n < 40 \<or>
      40 \<le> n \<and> n < 48 \<or> 48 \<le> n \<and> n < 56 \<or> 56 \<le> n \<and> n < 64) \<and> bit v n"
    by (simp only: bit_or_iff bit_byte_lane bit_low_lane) auto
  ultimately show "bit ?l n = bit v n"
    by blast
qed

lemma rd64_wr64_same [simp]: "rd64 (wr64 s off v) off = v"
  by (simp add: rd64_def wr64_def u64_bytes)

lemma wr64_map_w_other: "8 \<le> a - off \<Longrightarrow> map_w (wr64 s off v) a = map_w s a"
  by (auto simp: wr64_def word_le_nat_alt)

lemma wr64_boardram [simp]: "boardram (wr64 s off v) = boardram s"
  by (simp add: wr64_def)

lemma wr64_wr64_same: "wr64 (wr64 s off u) off v = wr64 s off v"
  by (simp add: wr64_def fun_upd_twist)

text \<open>Two eight-byte slots that do not overlap, in either direction around the address space.\<close>

definition apart :: "u32 \<Rightarrow> u32 \<Rightarrow> bool" where
  "apart a b \<longleftrightarrow> 8 \<le> a - b \<and> 8 \<le> b - a"

lemma apart_byte:
  assumes "apart off off'" and "j < 8"
  shows "8 \<le> off' + j - off"
proof -
  define d where "d = off' - off"
  have "8 \<le> d" and m: "8 \<le> 0 - d"
    using assms(1) by (simp_all add: apart_def d_def)
  then have "8 \<le> unat d" and "8 \<le> unat (0 - d)"
    by (simp_all add: word_le_nat_alt)
  then have "8 \<le> unat d" and "unat d + 8 \<le> 2 ^ 32"
    by (simp_all only: unat_sub_if_size [of 0 d]) (simp_all add: word_size)
  moreover have "unat j < 8"
    using assms(2) by (simp add: word_less_nat_alt)
  ultimately have "8 \<le> d + j"
    by (simp add: word_le_nat_alt unat_word_ariths)
  then show ?thesis
    by (simp add: d_def algebra_simps)
qed

lemma rd64_wr64_apart [simp]: "apart off off' \<Longrightarrow> rd64 (wr64 s off v) off' = rd64 s off'"
  using apart_byte [of off off' 0] apart_byte [of off off' 1] apart_byte [of off off' 2]
    apart_byte [of off off' 3] apart_byte [of off off' 4] apart_byte [of off off' 5]
    apart_byte [of off off' 6] apart_byte [of off off' 7]
  by (simp add: rd64_def wr64_map_w_other)

end
