(* ===== verification/Boardram.thy ===== *)
theory Boardram
  imports Window
begin

text \<open>
  The board RAM accessors of \<^verbatim>\<open>include/boardram_access.h\<close> (the flat DDR3 build). The 68k
  writes big-endian words; the FPGA stores each word little-endian in its lane, so a 68k byte
  at \<^verbatim>\<open>off\<close> lives at \<^verbatim>\<open>off ^ 1\<close>, and every index is masked to the 32 KB window.
  \<open>ram_view\<close> is the abstraction: the same bytes in 68k order, indexed by a 15-bit address.
  The locales \<open>byte_ram\<close>, \<open>word_ram\<close> and \<open>block_ram\<close> state what the ring walker and the
  register file rely on; they are interpreted on the accessors of the source.
\<close>

unbundle bit_operations_syntax

abbreviation RAM_MASK :: u32 where "RAM_MASK \<equiv> 0x7FFF"

type_synonym ram_addr = "15 word"

definition get_ram_byte :: "'a window_scheme \<Rightarrow> u32 \<Rightarrow> u8" where
  "get_ram_byte s off = map_w s (boardram s + ((off XOR 1) AND RAM_MASK))"

definition get_ram_word :: "'a window_scheme \<Rightarrow> u32 \<Rightarrow> u16" where
  "get_ram_word s off = push_bit 8 (ucast (get_ram_byte s off)) OR ucast (get_ram_byte s (off + 1))"

definition put_ram_byte :: "'a window_scheme \<Rightarrow> u32 \<Rightarrow> u8 \<Rightarrow> 'a window_scheme" where
  "put_ram_byte s off v = s\<lparr>map_w := (map_w s)(boardram s + ((off XOR 1) AND RAM_MASK) := v)\<rparr>"

definition put_ram_word :: "'a window_scheme \<Rightarrow> u32 \<Rightarrow> u16 \<Rightarrow> 'a window_scheme" where
  "put_ram_word s off v = put_ram_byte (put_ram_byte s off (ucast (drop_bit 8 v))) (off + 1) (ucast v)"

definition ram_read_block :: "'a window_scheme \<Rightarrow> u32 \<Rightarrow> nat \<Rightarrow> u8 list" where
  "ram_read_block s off len =
     map (\<lambda>i. map_w s (boardram s + (((off + of_nat i) XOR 1) AND RAM_MASK))) [0..<len]"

primrec ram_write_block :: "'a window_scheme \<Rightarrow> u32 \<Rightarrow> u8 list \<Rightarrow> 'a window_scheme" where
  "ram_write_block s off [] = s"
| "ram_write_block s off (b # bs) =
     ram_write_block (s\<lparr>map_w := (map_w s)(boardram s + ((off XOR 1) AND RAM_MASK) := b)\<rparr>) (off + 1) bs"

section \<open>The 68k view of the board RAM\<close>

definition ram_view :: "'a window_scheme \<Rightarrow> ram_addr \<Rightarrow> u8" where
  "ram_view s a = map_w s (boardram s + ((ucast a XOR 1) AND RAM_MASK))"

lemma RAM_MASK_mask: "RAM_MASK = mask 15"
  by (simp add: mask_eq_exp_minus_1)

lemma swizzle_ucast: "((ucast (ucast off :: ram_addr) :: u32) XOR 1) AND RAM_MASK = (off XOR 1) AND RAM_MASK"
  unfolding RAM_MASK_mask by (rule bit_word_eqI) (auto simp: bit_simps)

lemma swizzle_inj:
  "((off XOR 1) AND RAM_MASK = (off' XOR 1) AND RAM_MASK) \<longleftrightarrow> (ucast off :: ram_addr) = ucast off'"
proof
  assume eq: "(off XOR 1) AND RAM_MASK = (off' XOR 1) AND RAM_MASK"
  show "(ucast off :: ram_addr) = ucast off'"
  proof (rule bit_word_eqI)
    fix n
    assume n: "n < LENGTH(15)"
    from eq have "bit ((off XOR 1) AND RAM_MASK) n = bit ((off' XOR 1) AND RAM_MASK) n"
      by simp
    with n show "bit (ucast off :: ram_addr) n = bit (ucast off' :: ram_addr) n"
      unfolding RAM_MASK_mask by (auto simp: bit_simps)
  qed
next
  assume "(ucast off :: ram_addr) = ucast off'"
  then have "((ucast (ucast off :: ram_addr) :: u32) XOR 1) AND RAM_MASK
      = ((ucast (ucast off' :: ram_addr) :: u32) XOR 1) AND RAM_MASK"
    by (simp only:)
  then show "(off XOR 1) AND RAM_MASK = (off' XOR 1) AND RAM_MASK"
    by (simp only: swizzle_ucast)
qed

lemma ucast_ram_ucast [simp]: "(ucast (ucast a :: u32) :: ram_addr) = a" for a :: ram_addr
  by (rule bit_word_eqI) (auto simp: bit_simps)

lemma ucast_ram_add [simp]: "(ucast (a + b) :: ram_addr) = ucast a + ucast b" for a b :: u32
proof -
  have "unat (ucast (a + b) :: ram_addr) = unat (ucast a + ucast b :: ram_addr)"
    by (simp add: unsigned_ucast_eq take_bit_eq_mod unat_word_ariths mod_simps mod_mod_cancel)
  then show ?thesis by (simp only: word_unat_eq_iff)
qed

lemma ucast_ram_of_nat [simp]: "(ucast (of_nat n :: u32) :: ram_addr) = of_nat n"
proof -
  have "unat (ucast (of_nat n :: u32) :: ram_addr) = unat (of_nat n :: ram_addr)"
    by (simp add: unsigned_ucast_eq take_bit_eq_mod unat_of_nat mod_mod_cancel)
  then show ?thesis by (simp only: word_unat_eq_iff)
qed

lemma get_ram_byte_view: "get_ram_byte s off = ram_view s (ucast off)"
  by (simp add: get_ram_byte_def ram_view_def swizzle_ucast)

lemma ram_view_put_byte: "ram_view (put_ram_byte s off v) = (ram_view s)(ucast off := v)"
  by (rule ext) (auto simp: ram_view_def put_ram_byte_def swizzle_inj swizzle_ucast)

section \<open>What a board RAM promises\<close>

definition word_at :: "(ram_addr \<Rightarrow> u8) \<Rightarrow> ram_addr \<Rightarrow> u16" where
  "word_at f a = push_bit 8 (ucast (f a)) OR ucast (f (a + 1))"

definition set_word :: "(ram_addr \<Rightarrow> u8) \<Rightarrow> ram_addr \<Rightarrow> u16 \<Rightarrow> (ram_addr \<Rightarrow> u8)" where
  "set_word f a v = f(a := ucast (drop_bit 8 v), a + 1 := ucast v)"

text \<open>A block of bytes written upwards from \<open>a\<close>, wrapping at the end of the RAM.\<close>

primrec set_block :: "(ram_addr \<Rightarrow> u8) \<Rightarrow> ram_addr \<Rightarrow> u8 list \<Rightarrow> (ram_addr \<Rightarrow> u8)" where
  "set_block f a [] = f"
| "set_block f a (b # bs) = set_block (f(a := b)) (a + 1) bs"

definition block_at :: "(ram_addr \<Rightarrow> u8) \<Rightarrow> ram_addr \<Rightarrow> nat \<Rightarrow> u8 list" where
  "block_at f a n = map (\<lambda>i. f (a + of_nat i)) [0..<n]"

lemma u16_halves: "push_bit 8 (ucast (ucast (drop_bit 8 v) :: u8)) OR ucast (ucast v :: u8) = (v :: u16)"
  by (rule bit_word_eqI) (auto simp: bit_simps)

lemma word_at_set_word [simp]: "word_at (set_word f a v) a = v"
  by (simp add: word_at_def set_word_def u16_halves)

lemma length_block_at [simp]: "length (block_at f a n) = n"
  by (simp add: block_at_def)

lemma block_at_Suc: "block_at f a (Suc n) = f a # block_at f (a + 1) n"
  by (simp add: block_at_def upt_conv_Cons map_Suc_upt [symmetric] algebra_simps del: upt_Suc)

text \<open>Which addresses a block of \<open>n\<close> bytes at \<open>a\<close> covers.\<close>

definition in_block :: "ram_addr \<Rightarrow> nat \<Rightarrow> ram_addr \<Rightarrow> bool" where
  "in_block a n x \<longleftrightarrow> unat (x - a) < n"

lemma unat_minus_Suc: "x \<noteq> a \<Longrightarrow> unat (x - (a + 1)) = unat (x - a) - 1" for x a :: ram_addr
  by (metis diff_diff_add right_minus_eq unat_minus_one)

lemma set_block_apply:
  assumes "length bs \<le> 2 ^ 15"
  shows "set_block f a bs x = (if in_block a (length bs) x then bs ! unat (x - a) else f x)"
  using assms
proof (induction bs arbitrary: f a)
  case Nil
  then show ?case by (simp add: in_block_def)
next
  case (Cons b bs)
  then have len: "length bs < 2 ^ 15" by simp
  have IH: "set_block (f(a := b)) (a + 1) bs x
      = (if in_block (a + 1) (length bs) x then bs ! unat (x - (a + 1)) else (f(a := b)) x)"
    by (rule Cons.IH) (use len in simp)
  show ?case
  proof (cases "x = a")
    case True
    have "unat (x - (a + 1)) = 2 ^ 15 - 1"
      by (simp add: True unsigned_minus_1_eq_mask mask_eq_exp_minus_1)
    with True len IH show ?thesis
      by (simp add: in_block_def)
  next
    case False
    then have "0 < unat (x - a)"
      by (simp add: unat_gt_0)
    with False len IH show ?thesis
      by (auto simp: in_block_def unat_minus_Suc nth_Cons')
  qed
qed

lemma block_at_set_block [simp]:
  assumes "length bs \<le> 2 ^ 15"
  shows "block_at (set_block f a bs) a (length bs) = bs"
proof (rule nth_equalityI)
  fix i
  assume "i < length (block_at (set_block f a bs) a (length bs))"
  then have i: "i < length bs" by simp
  with assms have "unat (of_nat i :: ram_addr) = i"
    by (simp add: unat_of_nat)
  with i assms show "block_at (set_block f a bs) a (length bs) ! i = bs ! i"
    by (simp add: block_at_def set_block_apply in_block_def)
qed simp

lemma set_block_outside: "length bs \<le> 2 ^ 15 \<Longrightarrow> \<not> in_block a (length bs) x \<Longrightarrow> set_block f a bs x = f x"
  by (simp add: set_block_apply)

locale byte_ram =
  fixes get_b :: "'s \<Rightarrow> u32 \<Rightarrow> u8"
    and put_b :: "'s \<Rightarrow> u32 \<Rightarrow> u8 \<Rightarrow> 's"
    and view :: "'s \<Rightarrow> ram_addr \<Rightarrow> u8"
  assumes get_view: "get_b s off = view s (ucast off)"
    and put_view: "view (put_b s off v) = (view s)(ucast off := v)"
begin

lemma byte_round_trip: "get_b (put_b s off v) off = v"
  by (simp add: get_view put_view)

lemma byte_frame: "(ucast off :: ram_addr) \<noteq> ucast off' \<Longrightarrow> get_b (put_b s off v) off' = get_b s off'"
  by (simp add: get_view put_view)

lemma byte_wrap: "get_b (put_b s off v) (off + 0x8000) = v"
  by (simp add: get_view put_view)

end

text \<open>Word accesses, at the offsets \<open>ok\<close> where the implementation supports them.\<close>

locale word_ram = byte_ram +
  fixes get_w :: "'s \<Rightarrow> u32 \<Rightarrow> u16"
    and put_w :: "'s \<Rightarrow> u32 \<Rightarrow> u16 \<Rightarrow> 's"
    and ok :: "u32 \<Rightarrow> bool"
  assumes get_w_view: "ok off \<Longrightarrow> get_w s off = word_at (view s) (ucast off)"
    and put_w_view: "ok off \<Longrightarrow> view (put_w s off v) = set_word (view s) (ucast off) v"
begin

lemma word_round_trip: "ok off \<Longrightarrow> get_w (put_w s off v) off = v"
  by (simp add: get_w_view put_w_view)

lemma word_big_endian:
  "ok off \<Longrightarrow> get_b (put_w s off v) off = ucast (drop_bit 8 v) \<and> get_b (put_w s off v) (off + 1) = ucast v"
  by (simp add: get_view put_w_view set_word_def)

lemma bytes_make_word:
  "ok off \<Longrightarrow> get_w (put_b (put_b s off h) (off + 1) l) off = push_bit 8 (ucast h) OR ucast l"
  by (simp add: get_w_view put_view word_at_def)

end

locale block_ram = byte_ram +
  fixes read_block :: "'s \<Rightarrow> u32 \<Rightarrow> nat \<Rightarrow> u8 list"
    and write_block :: "'s \<Rightarrow> u32 \<Rightarrow> u8 list \<Rightarrow> 's"
  assumes read_block_view: "read_block s off n = block_at (view s) (ucast off) n"
    and write_block_view: "view (write_block s off bs) = set_block (view s) (ucast off) bs"
begin

lemma block_round_trip: "length bs \<le> 2 ^ 15 \<Longrightarrow> read_block (write_block s off bs) off (length bs) = bs"
  by (simp add: read_block_view write_block_view)

lemma block_frame:
  "length bs \<le> 2 ^ 15 \<Longrightarrow> \<not> in_block (ucast off) (length bs) (ucast off') \<Longrightarrow>
   get_b (write_block s off bs) off' = get_b s off'"
  by (simp add: get_view write_block_view set_block_outside)

end

lemma ram_view_write_block: "ram_view (ram_write_block s off bs) = set_block (ram_view s) (ucast off) bs"
proof (induction bs arbitrary: s off)
  case (Cons b bs)
  then show ?case
    by (simp add: ram_view_put_byte [unfolded put_ram_byte_def] del: fun_upd_apply)
qed simp

interpretation flat: byte_ram get_ram_byte put_ram_byte ram_view
  by unfold_locales (simp_all add: get_ram_byte_view ram_view_put_byte)

interpretation flat: word_ram get_ram_byte put_ram_byte ram_view get_ram_word put_ram_word "\<lambda>_. True"
  by unfold_locales
    (simp_all add: get_ram_word_def put_ram_word_def word_at_def set_word_def get_ram_byte_view ram_view_put_byte)

interpretation flat: block_ram get_ram_byte put_ram_byte ram_view ram_read_block ram_write_block
  by unfold_locales
    (simp_all add: ram_read_block_def block_at_def ram_view_write_block
      get_ram_byte_view [unfolded get_ram_byte_def])

text \<open>The writes change the window and nothing else.\<close>

lemma put_ram_byte_map_w: "put_ram_byte s off v = s\<lparr>map_w := map_w (put_ram_byte s off v)\<rparr>"
  by (simp add: put_ram_byte_def)

lemma put_ram_word_map_w: "put_ram_word s off v = s\<lparr>map_w := map_w (put_ram_word s off v)\<rparr>"
  by (simp add: put_ram_word_def put_ram_byte_def)

lemma ram_write_block_map_w: "ram_write_block s off bs = s\<lparr>map_w := map_w (ram_write_block s off bs)\<rparr>"
proof (induction bs arbitrary: s off)
  case (Cons b bs)
  show ?case
    using Cons.IH [of "s\<lparr>map_w := (map_w s)(boardram s + ((off XOR 1) AND RAM_MASK) := b)\<rparr>" "off + 1"] by simp
qed simp

lemma ram_writes_boardram [simp]:
  "boardram (put_ram_byte s off v) = boardram s" "boardram (put_ram_word s off w) = boardram s"
  "boardram (ram_write_block s off bs) = boardram s"
  by (metis put_ram_byte_map_w window.select_convs(2) window.surjective window.update_convs(1))
    (metis put_ram_word_map_w window.select_convs(2) window.surjective window.update_convs(1),
     metis ram_write_block_map_w window.select_convs(2) window.surjective window.update_convs(1))

section \<open>Properties of the flat board RAM\<close>

text \<open>C36: the accesses of the daemon implement the RAM as the 68k sees it: words and blocks are big-endian in that
  view although the window stores the two bytes of every word swapped, and addresses wrap at 32 KB.\<close>

theorem flat_ram_refines:
  "get_ram_byte s off = ram_view s (ucast off) \<and>
   get_ram_word s off = word_at (ram_view s) (ucast off) \<and>
   ram_read_block s off n = block_at (ram_view s) (ucast off) n \<and>
   ram_view (put_ram_byte s off b) = (ram_view s)(ucast off := b) \<and>
   ram_view (put_ram_word s off w) = set_word (ram_view s) (ucast off) w \<and>
   ram_view (ram_write_block s off bs) = set_block (ram_view s) (ucast off) bs"
  by (simp add: flat.get_view flat.get_w_view flat.read_block_view flat.put_view flat.put_w_view flat.write_block_view)

text \<open>A block written to the board RAM, of any length up to the whole RAM and also across its end, reads back
  as it was written, and no byte outside it changes.\<close>

theorem flat_block_round_trip:
  assumes "length bs \<le> 2 ^ 15"
  shows "ram_read_block (ram_write_block s off bs) off (length bs) = bs \<and>
    (\<forall>off'. \<not> in_block (ucast off) (length bs) (ucast off') \<longrightarrow> get_ram_byte (ram_write_block s off bs) off' = get_ram_byte s off')"
  using flat.block_round_trip [OF assms] flat.block_frame [OF assms] by blast

theorem flat_block_round_trip_witness:
  "ram_read_block (ram_write_block \<lparr>map_w = \<lambda>_. 0, boardram = 0\<rparr> 0x7FFF [1, 2, 3]) 0x7FFF (length [1 :: u8, 2, 3]) = [1, 2, 3]"
  using flat_block_round_trip [of "[1, 2, 3]" "\<lparr>map_w = \<lambda>_. 0, boardram = 0\<rparr>" "0x7FFF"] by simp

end
