(* ===== verification/Crc32.thy ===== *)
theory Crc32
  imports Prelude
begin

text \<open>
  \<^verbatim>\<open>src/arm/src/crc32.cpp\<close>: the table-driven Ethernet CRC-32 with its lazily built table.
  The reference definitions are the bit-serial shift register of IEEE 802.3 (reflected
  polynomial \<^verbatim>\<open>0xEDB88320\<close>), one message bit at a time. The lemmas show that the table
  routine computes the same value from any state of the module, and what a receiver that
  runs the CRC over a frame followed by its check sequence obtains.
\<close>

unbundle bit_operations_syntax

section \<open>The module\<close>

record crc32_unit =
  crc32_table :: "u32 list"
  table_built :: bool

text \<open>The body of the inner loop of \<^verbatim>\<open>build_table\<close>.\<close>

definition crc_bit :: "u32 \<Rightarrow> u32" where
  "crc_bit c = (if has c 1 then 0xEDB88320 XOR drop_bit 1 c else drop_bit 1 c)"

definition build_table :: "crc32_unit \<Rightarrow> crc32_unit" where
  "build_table st = st\<lparr>crc32_table := map (\<lambda>i. (crc_bit ^^ 8) (of_nat i)) [0..<256], table_built := True\<rparr>"

definition crc_step :: "u32 list \<Rightarrow> u32 \<Rightarrow> u8 \<Rightarrow> u32" where
  "crc_step tab crc b = tab ! unat ((crc XOR ucast b) AND 0xFF) XOR drop_bit 8 crc"

definition crc32_compute :: "crc32_unit \<Rightarrow> u8 list \<Rightarrow> u32 \<times> crc32_unit" where
  "crc32_compute st data =
     (let st' = (if table_built st then st else build_table st)
      in (NOT (foldl (crc_step (crc32_table st')) 0xFFFFFFFF data), st'))"

text \<open>The static initial state: an empty table that is not built. Once built, the table
  holds the entries of \<^verbatim>\<open>build_table\<close>.\<close>

definition crc_unit0 :: crc32_unit where
  "crc_unit0 = \<lparr>crc32_table = replicate 256 0, table_built = False\<rparr>"

definition crc_inv :: "crc32_unit \<Rightarrow> bool" where
  "crc_inv st \<longleftrightarrow> (table_built st \<longrightarrow> crc32_table st = map (\<lambda>i. (crc_bit ^^ 8) (of_nat i)) [0..<256])"

section \<open>Reference: the bit-serial register\<close>

definition lfsr_step :: "u32 \<Rightarrow> bool \<Rightarrow> u32" where
  "lfsr_step c m = drop_bit 1 c XOR (if bit c 0 \<noteq> m then 0xEDB88320 else 0)"

text \<open>Message bits of a byte in transmission order, least significant first.\<close>

definition byte_bits :: "u8 \<Rightarrow> bool list" where
  "byte_bits b = map (bit b) [0..<8]"

definition crc32_ref :: "u8 list \<Rightarrow> u32" where
  "crc32_ref bs = NOT (foldl lfsr_step 0xFFFFFFFF (concat (map byte_bits bs)))"

section \<open>Linearity\<close>

lemma crc_bit_alt: "crc_bit c = drop_bit 1 c XOR (if bit c 0 then 0xEDB88320 else 0)"
  by (simp add: crc_bit_def has_def and_one_eq bit_0 mod_2_eq_odd xor.commute)

lemma crc_bit_xor: "crc_bit (x XOR y) = crc_bit x XOR crc_bit y"
  by (auto simp: crc_bit_alt bit_xor_iff drop_bit_xor ac_simps)

lemma crc_bit_pow_xor: "(crc_bit ^^ n) (x XOR y) = (crc_bit ^^ n) x XOR (crc_bit ^^ n) y"
  by (induction n arbitrary: x y) (simp_all add: crc_bit_xor)

lemma crc_bit_shift: "\<not> bit x 0 \<Longrightarrow> crc_bit x = drop_bit 1 x"
  by (simp add: crc_bit_alt)

lemma crc_bit_pow_shift: "(\<And>i. i < n \<Longrightarrow> \<not> bit x i) \<Longrightarrow> (crc_bit ^^ n) x = drop_bit n x"
proof (induction n arbitrary: x)
  case (Suc n)
  have "(crc_bit ^^ Suc n) x = (crc_bit ^^ n) (crc_bit x)"
    by (simp add: funpow_Suc_right del: funpow.simps)
  also have "crc_bit x = drop_bit 1 x"
    using Suc.prems by (simp add: crc_bit_shift)
  also have "(crc_bit ^^ n) (drop_bit 1 x) = drop_bit n (drop_bit 1 x)"
    using Suc.prems by (intro Suc.IH) (simp add: bit_drop_bit_eq)
  finally show ?case by simp
qed simp

lemma crc_bit_pow_split: "(crc_bit ^^ n) (x XOR y) = (crc_bit ^^ n) (x XOR take_bit n y) XOR drop_bit n y"
proof -
  have y: "y = take_bit n y XOR push_bit n (drop_bit n y)"
    by (rule bit_word_eqI) (auto simp: bit_simps)
  have "(crc_bit ^^ n) (x XOR y) = (crc_bit ^^ n) ((x XOR take_bit n y) XOR push_bit n (drop_bit n y))"
    by (subst (1) y) (simp add: ac_simps)
  also have "\<dots> = (crc_bit ^^ n) (x XOR take_bit n y) XOR (crc_bit ^^ n) (push_bit n (drop_bit n y))"
    by (rule crc_bit_pow_xor)
  also have "(crc_bit ^^ n) (push_bit n (drop_bit n y)) = drop_bit n (push_bit n (drop_bit n y))"
    by (rule crc_bit_pow_shift) (simp add: bit_simps)
  also have "\<dots> = drop_bit n y"
    by (rule bit_word_eqI) (auto simp: bit_simps dest: bit_imp_le_length)
  finally show ?thesis .
qed

section \<open>The table routine computes the reference\<close>

text \<open>One byte through the register, bit by bit.\<close>

lemma lfsr_step_crc_bit: "lfsr_step c m = crc_bit (c XOR of_bool m)"
  by (cases m) (auto simp: lfsr_step_def crc_bit_alt bit_xor_iff drop_bit_xor bit_1_iff)

lemma take_bit_split: "take_bit (m + n) y = take_bit m y XOR push_bit m (take_bit n (drop_bit m y))" for y :: u32
  by (rule bit_word_eqI) (auto simp: bit_simps dest: bit_imp_le_length)

lemma drop_push_split: "drop_bit m (push_bit m (take_bit n (drop_bit m y))) = take_bit n (drop_bit m y)" for y :: u32
  by (rule bit_word_eqI) (auto simp: bit_simps dest: bit_imp_le_length)

lemma unat_take_bit_8: "unat (take_bit 8 z) < 256" for z :: u32
  using take_bit_nat_less_exp [of 8 "unat z"] by (simp add: unsigned_take_bit_eq)

lemma lfsr_bits:
  "foldl lfsr_step c (map (bit x) [k..<k + n]) = (crc_bit ^^ n) (c XOR take_bit n (drop_bit k x))" for x :: u32
proof (induction n arbitrary: c k)
  case (Suc n)
  let ?y = "take_bit (Suc n) (drop_bit k x)"
  let ?r = "take_bit n (drop_bit (Suc k) x)"
  have split: "?y = of_bool (bit x k) XOR push_bit 1 ?r"
    using take_bit_split [of 1 n "drop_bit k x"] by (simp add: bit_iff_odd_drop_bit mod_2_eq_odd)
  have half: "drop_bit 1 (push_bit 1 ?r) = ?r"
    using drop_push_split [of 1 n "drop_bit k x"] by simp
  have "foldl lfsr_step c (map (bit x) [k..<k + Suc n])
      = foldl lfsr_step (lfsr_step c (bit x k)) (map (bit x) [Suc k..<Suc k + n])"
    by (simp add: upt_conv_Cons del: upt_Suc)
  also have "\<dots> = (crc_bit ^^ n) (lfsr_step c (bit x k) XOR take_bit n (drop_bit (Suc k) x))"
    by (rule Suc.IH)
  also have "lfsr_step c (bit x k) XOR take_bit n (drop_bit (Suc k) x) = crc_bit (c XOR ?y)"
  proof -
    have "crc_bit (push_bit 1 ?r) = ?r"
      by (subst crc_bit_shift) (simp_all only: half bit_push_bit_iff, simp)
    then show ?thesis
      by (simp only: split lfsr_step_crc_bit xor.assoc [symmetric] crc_bit_xor [of "c XOR of_bool (bit x k)"])
  qed
  finally show ?case
    by (simp add: funpow_Suc_right del: funpow.simps)
qed simp

lemma lfsr_byte: "foldl lfsr_step c (byte_bits b) = (crc_bit ^^ 8) (c XOR ucast b)"
proof -
  have bits: "byte_bits b = map (bit (ucast b :: u32)) [0..<0 + 8]"
    by (auto simp: byte_bits_def bit_simps)
  have "take_bit 8 (drop_bit 0 (ucast b :: u32)) = ucast b"
    by (rule bit_word_eqI) (auto simp: bit_simps dest: bit_imp_le_length)
  then show ?thesis
    by (simp only: bits lfsr_bits)
qed

lemma crc_step_table:
  assumes "tab = map (\<lambda>i. (crc_bit ^^ 8) (of_nat i)) [0..<256]"
  shows "crc_step tab c b = (crc_bit ^^ 8) (c XOR ucast b)"
proof -
  let ?x = "c XOR ucast b"
  have low: "?x AND 0xFF = take_bit 8 ?x"
    by (simp add: take_bit_eq_mask mask_eq_exp_minus_1)
  have entry: "tab ! unat (?x AND 0xFF) = (crc_bit ^^ 8) (take_bit 8 ?x)"
    unfolding low assms by (subst nth_map) (use unat_take_bit_8 [of ?x] in simp_all)
  have high: "drop_bit 8 ?x = drop_bit 8 c"
    by (rule bit_word_eqI) (auto simp: bit_simps dest: bit_imp_le_length)
  have "(crc_bit ^^ 8) ?x = (crc_bit ^^ 8) (0 XOR take_bit 8 ?x) XOR drop_bit 8 ?x"
    using crc_bit_pow_split [of 8 0 ?x] by (simp only: xor.left_neutral)
  then show ?thesis
    by (simp only: crc_step_def entry high xor.left_neutral)
qed

lemma foldl_crc_step:
  assumes "tab = map (\<lambda>i. (crc_bit ^^ 8) (of_nat i)) [0..<256]"
  shows "foldl (crc_step tab) c bs = foldl lfsr_step c (concat (map byte_bits bs))"
  by (induction bs arbitrary: c) (simp_all add: crc_step_table [OF assms] lfsr_byte)

lemma crc_inv_unit0 [simp]: "crc_inv crc_unit0"
  by (simp add: crc_inv_def crc_unit0_def)

lemma crc32_compute_inv: "crc_inv st \<Longrightarrow> crc_inv (snd (crc32_compute st bs))"
  by (auto simp: crc32_compute_def crc_inv_def build_table_def)

lemma crc32_compute_ref: "crc_inv st \<Longrightarrow> fst (crc32_compute st bs) = crc32_ref bs"
  by (auto simp: crc32_compute_def crc_inv_def build_table_def crc32_ref_def Let_def
      intro!: foldl_crc_step)

section \<open>The check sequence\<close>

text \<open>The four bytes of a CRC, least significant first: the order of the bytes on the wire.\<close>

definition fcs_wire :: "u32 \<Rightarrow> u8 list" where
  "fcs_wire c = [ucast c, ucast (drop_bit 8 c), ucast (drop_bit 16 c), ucast (drop_bit 24 c)]"

lemma crc_feed_low:
  "(crc_bit ^^ 8) (c XOR ucast (ucast w :: u8)) XOR drop_bit 8 w = (crc_bit ^^ 8) (c XOR w)" for w :: u32
proof -
  have "take_bit 8 w = ucast (ucast w :: u8)"
    by (rule bit_word_eqI) (auto simp: bit_simps dest: bit_imp_le_length)
  then show ?thesis
    using crc_bit_pow_split [of 8 c w] by simp
qed

lemma crc_feed_fcs:
  "foldl lfsr_step c (concat (map byte_bits (fcs_wire w))) = (crc_bit ^^ 32) (c XOR w)"
proof -
  let ?f = "crc_bit ^^ 8"
  let ?x1 = "?f (c XOR ucast (ucast w :: u8))"
  let ?x2 = "?f (?x1 XOR ucast (ucast (drop_bit 8 w) :: u8))"
  let ?x3 = "?f (?x2 XOR ucast (ucast (drop_bit 16 w) :: u8))"
  let ?x4 = "?f (?x3 XOR ucast (ucast (drop_bit 24 w) :: u8))"
  have s1: "?x1 XOR drop_bit 8 w = ?f (c XOR w)"
    by (rule crc_feed_low)
  have s2: "?x2 XOR drop_bit 16 w = ?f (?x1 XOR drop_bit 8 w)"
    using crc_feed_low [of ?x1 "drop_bit 8 w"] by (simp add: drop_bit_drop_bit)
  have s3: "?x3 XOR drop_bit 24 w = ?f (?x2 XOR drop_bit 16 w)"
    using crc_feed_low [of ?x2 "drop_bit 16 w"] by (simp add: drop_bit_drop_bit)
  have "drop_bit 32 w = 0"
    by (rule bit_word_eqI) (auto simp: bit_simps dest: bit_imp_le_length)
  then have s4: "?x4 = ?f (?x3 XOR drop_bit 24 w)"
    using crc_feed_low [of ?x3 "drop_bit 24 w"] by (simp add: drop_bit_drop_bit)
  have "?x4 = ?f (?f (?f (?f (c XOR w))))"
    by (simp only: s1 s2 s3 s4)
  moreover have "(crc_bit ^^ 32) z = ?f (?f (?f (?f z)))" for z
    using funpow_add [of 8 24 crc_bit] funpow_add [of 8 16 crc_bit] funpow_add [of 8 8 crc_bit]
    by simp
  moreover have "foldl lfsr_step c (concat (map byte_bits (fcs_wire w))) = ?x4"
    by (simp add: fcs_wire_def lfsr_byte)
  ultimately show ?thesis by simp
qed

lemma funpow_8: "(f ^^ 8) x = f (f (f (f (f (f (f (f x)))))))"
  by (simp add: numeral_eq_Suc)

lemmas crc_eval = funpow_8 crc_bit_def has_def

lemma crc_residue: "(crc_bit ^^ 32) 0xFFFFFFFF = 0xDEBB20E3"
proof -
  have "(crc_bit ^^ 32) z = (crc_bit ^^ 8) ((crc_bit ^^ 8) ((crc_bit ^^ 8) ((crc_bit ^^ 8) z)))" for z
    using funpow_add [of 8 24 crc_bit] funpow_add [of 8 16 crc_bit] funpow_add [of 8 8 crc_bit]
    by simp
  moreover have "(crc_bit ^^ 8) 0xFFFFFFFF = 0x2DFD1072"
    and "(crc_bit ^^ 8) 0x2DFD1072 = 0xBE26ED00"
    and "(crc_bit ^^ 8) 0xBE26ED00 = 0x00BE26ED"
    and "(crc_bit ^^ 8) 0x00BE26ED = 0xDEBB20E3"
    by (simp_all add: crc_eval)
  ultimately show ?thesis by simp
qed

text \<open>C15: the table-driven checksum of \<^verbatim>\<open>crc32_compute\<close> is the bit-serial CRC-32 of the Ethernet
  standard, for every input and from every state the module reaches, and it leaves the module in
  such a state.\<close>

theorem crc32_compute_bit_serial:
  assumes "crc_inv st"
  shows "fst (crc32_compute st data) = crc32_ref data \<and> crc_inv (snd (crc32_compute st data))"
  using assms by (simp add: crc32_compute_ref crc32_compute_inv)

theorem crc32_compute_bit_serial_witness:
  "fst (crc32_compute crc_unit0 [0x31, 0x32]) = crc32_ref [0x31, 0x32]"
  using crc32_compute_bit_serial [OF crc_inv_unit0, of "[0x31, 0x32]"] by blast

text \<open>Running the checksum over a frame followed by its check sequence in wire order (least
  significant byte first) gives the fixed residue that a receiver compares with.\<close>

theorem crc32_fcs_residue:
  assumes "crc_inv st"
  shows "fst (crc32_compute st (data @ fcs_wire (fst (crc32_compute st data)))) = 0x2144DF1C"
proof -
  let ?c = "foldl lfsr_step 0xFFFFFFFF (concat (map byte_bits data))"
  have "fst (crc32_compute st (data @ fcs_wire (fst (crc32_compute st data))))
      = NOT (foldl lfsr_step ?c (concat (map byte_bits (fcs_wire (NOT ?c)))))"
    by (simp add: crc32_compute_ref [OF assms] crc32_ref_def)
  also have "\<dots> = NOT ((crc_bit ^^ 32) (- 1))"
    by (simp add: crc_feed_fcs)
  also have "(- 1 :: u32) = 0xFFFFFFFF"
    by simp
  finally show ?thesis
    by (simp add: crc_residue)
qed

theorem crc32_fcs_residue_witness:
  "fst (crc32_compute crc_unit0 ([0xAB] @ fcs_wire (fst (crc32_compute crc_unit0 [0xAB])))) = 0x2144DF1C"
  using crc32_fcs_residue [OF crc_inv_unit0, of "[0xAB]"] .

end
