(* ===== verification/Mac.thy ===== *)
theory Mac
  imports Prelude
begin

text \<open>
  \<^verbatim>\<open>src/arm/src/mac.cpp\<close>: translation between the station address the Amiga uses
  (\<^verbatim>\<open>fakemac\<close>) and the address on the wire (\<^verbatim>\<open>realmac\<close>), in the Ethernet header, in ARP
  and in the DHCP hardware address, with the UDP checksum recomputed in the last case.
  A packet is the whole array the caller passes (4096 bytes in the daemon), the frame being
  its first \<^verbatim>\<open>len\<close> bytes: the sources read fields without comparing them with
  \<^verbatim>\<open>len\<close>, so what follows the frame in the array matters and is modelled.
\<close>

unbundle bit_operations_syntax

section \<open>The module\<close>

type_synonym mac_addr = "u8 list"

record mac_unit =
  mac_fakemac :: mac_addr
  mac_realmac :: mac_addr

definition mac_set_addresses :: "mac_addr \<Rightarrow> mac_addr \<Rightarrow> mac_unit \<Rightarrow> mac_unit" where
  "mac_set_addresses fake real m = m\<lparr>mac_fakemac := fake, mac_realmac := real\<rparr>"

definition mac_set_fakemac :: "mac_addr \<Rightarrow> mac_unit \<Rightarrow> mac_unit" where
  "mac_set_fakemac fake m = m\<lparr>mac_fakemac := fake\<rparr>"

definition dofakemac :: "mac_unit \<Rightarrow> u8 list \<Rightarrow> nat \<Rightarrow> (bool \<times> u8 list) option" where
  "dofakemac m packet k =
     (if mac_fakemac m = mac_realmac m then Some (True, packet)
      else do {
        a \<leftarrow> rdn packet k 6;
        if a = mac_fakemac m then do { p \<leftarrow> wrn packet k (mac_realmac m); Some (True, p) }
        else if a = mac_realmac m then do { p \<leftarrow> wrn packet k (mac_fakemac m); Some (True, p) }
        else Some (False, packet)
      })"

text \<open>\<^verbatim>\<open>(b[i] << 8) | b[i + 1]\<close>\<close>

definition be16 :: "u8 list \<Rightarrow> nat \<Rightarrow> u32 option" where
  "be16 b i = do { h \<leftarrow> rd8 b i; l \<leftarrow> rd8 b (i + 1); Some (push_bit 8 (ucast h) OR ucast l) }"

text \<open>The checksum loop \<^verbatim>\<open>for (i = 0; i < bound; i += 2)\<close> and the carry loop
  \<^verbatim>\<open>while (sum >> 16)\<close>.\<close>

function udp_sum :: "u8 list \<Rightarrow> nat \<Rightarrow> nat \<Rightarrow> nat \<Rightarrow> u32 \<Rightarrow> u32 option" where
  "udp_sum p data i bound sm =
     (if i < bound then do { w \<leftarrow> be16 p (data + i); udp_sum p data (i + 2) bound (sm + w) }
      else Some sm)"
  by pat_completeness auto
termination
  by (relation "measure (\<lambda>(p, data, i, bound, sm). bound - i)") auto

declare udp_sum.simps [simp del]

lemma unat_low16: "unat (s AND 0xFFFF) = unat s mod 65536" for s :: u32
proof -
  have "s AND 0xFFFF = take_bit 16 s" by (simp add: take_bit_eq_mask mask_eq_exp_minus_1)
  then show ?thesis by (simp add: take_bit_eq_mod unat_mod)
qed

lemma unat_high16: "unat (drop_bit 16 s) = unat s div 65536" for s :: u32
  by (simp add: drop_bit_eq_div unat_div)

lemma csum_carry: "unat ((s AND 0xFFFF) + drop_bit 16 s) = unat s mod 65536 + unat s div 65536" for s :: u32
proof -
  have "unat s < 2 ^ 32" using unsigned_less [of s] by simp
  then have "unat s mod 65536 + unat s div 65536 < 2 ^ 32"
    by simp
  then show ?thesis by (simp add: unat_word_ariths unat_low16 unat_high16)
qed

lemma high16_nonzero: "drop_bit 16 s \<noteq> 0 \<longleftrightarrow> 65536 \<le> unat s" for s :: u32
proof -
  have "drop_bit 16 s \<noteq> 0 \<longleftrightarrow> unat s div 65536 \<noteq> 0"
    by (metis unat_high16 unat_0_iff)
  then show ?thesis by (simp add: div_eq_0_iff not_less)
qed

lemma csum_carry_less: "drop_bit 16 s \<noteq> 0 \<Longrightarrow> unat ((s AND 0xFFFF) + drop_bit 16 s) < unat s" for s :: u32
proof -
  assume "drop_bit 16 s \<noteq> 0"
  then have "1 \<le> unat s div 65536"
    by (simp only: high16_nonzero)
  moreover have "unat s = 65536 * (unat s div 65536) + unat s mod 65536"
    by simp
  ultimately have "unat s mod 65536 + unat s div 65536 < unat s"
    by linarith
  then show ?thesis by (simp only: csum_carry)
qed

function csum_fold :: "u32 \<Rightarrow> u32" where
  "csum_fold sm = (if drop_bit 16 sm \<noteq> 0 then csum_fold ((sm AND 0xFFFF) + drop_bit 16 sm) else sm)"
  by pat_completeness auto
termination
  by (relation "measure unat") (simp_all only: wf_measure in_measure csum_carry_less not_False_eq_True)

declare csum_fold.simps [simp del]

text \<open>Recomputing the checksum (lines 98 to 120), with \<^verbatim>\<open>ipv4\<close> and \<^verbatim>\<open>data\<close> the
  offsets of the two headers in the packet.\<close>

definition udp_checksum_fix :: "u8 list \<Rightarrow> nat \<Rightarrow> nat \<Rightarrow> nat \<Rightarrow> u8 list option" where
  "udp_checksum_fix packet ipv4 data len2 = do {
     p \<leftarrow> wr8 packet (data + 7) 0;
     p \<leftarrow> wr8 p (data + 6) 0;
     p \<leftarrow> wr8 p (data + len2) 0;
     s0 \<leftarrow> udp_sum p data 0 (2 * ((len2 + 1) div 2)) 0;
     s1 \<leftarrow> be16 p (ipv4 + 12);
     s2 \<leftarrow> be16 p (ipv4 + 14);
     s3 \<leftarrow> be16 p (ipv4 + 16);
     s4 \<leftarrow> be16 p (ipv4 + 18);
     let sm = NOT (csum_fold (s0 + s1 + s2 + s3 + s4 + 17 + of_nat len2));
     let sm = (if sm = 0 then 0xffff else sm);
     p \<leftarrow> wr8 p (data + 6) (ucast (drop_bit 8 sm));
     wr8 p (data + 7) (ucast sm)
   }"

definition munge_arp :: "mac_unit \<Rightarrow> u8 list \<Rightarrow> u8 list option" where
  "munge_arp m packet = do {
     hw \<leftarrow> be16 packet 14;
     hl \<leftarrow> (if hw = 1 then rd8 packet 18 else Some 0);
     if hw = 1 \<and> hl = 6 then do {
       (_, p) \<leftarrow> dofakemac m packet (14 + 8);
       (_, p) \<leftarrow> dofakemac m p (14 + 8 + 6 + 4);
       Some p
     } else Some packet
   }"

definition munge_udp :: "mac_unit \<Rightarrow> u8 list \<Rightarrow> nat \<Rightarrow> nat \<Rightarrow> u8 list option" where
  "munge_udp m packet ipv4 data = do {
     sp \<leftarrow> be16 packet data;
     dp \<leftarrow> be16 packet (data + 2);
     len2 \<leftarrow> be16 packet (data + 4);
     (udpcrc, p) \<leftarrow> (if sp = 67 \<or> sp = 68 \<or> dp = 67 \<or> dp = 68
       then dofakemac m packet (data + 8 + 28) else Some (False, packet));
     if udpcrc then do {
       c \<leftarrow> be16 p (data + 6);
       if c \<noteq> 0 then udp_checksum_fix p ipv4 data (unat len2) else Some p
     } else Some p
   }"

definition munge_ipv4 :: "mac_unit \<Rightarrow> u8 list \<Rightarrow> u8 list option" where
  "munge_ipv4 m packet = do {
     proto \<leftarrow> rd8 packet (14 + 9);
     vihl \<leftarrow> rd8 packet 14;
     let ihl = unat (vihl AND 0x0f);
     if proto = 17 then munge_udp m packet 14 (14 + ihl * 4) else Some packet
   }"

definition mungepacket :: "mac_unit \<Rightarrow> u8 list \<Rightarrow> nat \<Rightarrow> (u8 list \<times> nat) option" where
  "mungepacket m packet len =
     (if len < 20 then Some (packet, 0)
      else if mac_fakemac m = mac_realmac m then Some (packet, len)
      else do {
        type \<leftarrow> be16 packet 12;
        (_, p) \<leftarrow> dofakemac m packet 0;
        (_, p) \<leftarrow> dofakemac m p 6;
        p \<leftarrow> (if type = 0x0806 then munge_arp m p
              else if type = 0x0800 then munge_ipv4 m p
              else Some p);
        Some (p, len)
      })"

section \<open>Address translation\<close>

definition mac_wf :: "mac_unit \<Rightarrow> bool" where
  "mac_wf m \<longleftrightarrow> length (mac_fakemac m) = 6 \<and> length (mac_realmac m) = 6"

text \<open>What the translation means for one address, and the bytes \<open>k\<close> to \<open>k + 5\<close> of a packet.\<close>

definition swap_mac :: "mac_unit \<Rightarrow> mac_addr \<Rightarrow> mac_addr" where
  "swap_mac m a = (if a = mac_fakemac m then mac_realmac m
                   else if a = mac_realmac m then mac_fakemac m else a)"

abbreviation mac_at :: "u8 list \<Rightarrow> nat \<Rightarrow> mac_addr" where
  "mac_at p k \<equiv> take 6 (drop k p)"

lemma swap_mac_swap_mac [simp]: "swap_mac m (swap_mac m a) = a"
  by (simp add: swap_mac_def)

lemma length_swap_mac [simp]: "mac_wf m \<Longrightarrow> length a = 6 \<Longrightarrow> length (swap_mac m a) = 6"
  by (simp add: swap_mac_def mac_wf_def)

lemma length_mac_at [simp]: "k + 6 \<le> length p \<Longrightarrow> length (mac_at p k) = 6"
  by simp

lemma dofakemac_eq:
  assumes "mac_wf m" and "mac_fakemac m \<noteq> mac_realmac m" and "k + 6 \<le> length p"
  shows "dofakemac m p k =
    Some (mac_at p k = mac_fakemac m \<or> mac_at p k = mac_realmac m, put_seg p k (swap_mac m (mac_at p k)))"
  using assms put_seg_segment_id [of k 6 p]
  by (auto simp: dofakemac_def swap_mac_def mac_wf_def)

lemma dofakemac_same: "mac_fakemac m = mac_realmac m \<Longrightarrow> dofakemac m p k = Some (True, p)"
  by (simp add: dofakemac_def)

lemma be16_eq [simp]:
  "Suc i < length b \<Longrightarrow> be16 b i = Some (push_bit 8 (ucast (b ! i)) OR ucast (b ! Suc i))"
  by (simp add: be16_def)

lemma be16_cong:
  "length b = length b' \<Longrightarrow> Suc i < length b \<Longrightarrow> b ! i = b' ! i \<Longrightarrow> b ! Suc i = b' ! Suc i \<Longrightarrow> be16 b i = be16 b' i"
  by simp

text \<open>Which bytes each part may change: the frame conditions of the translation.\<close>

definition same_below :: "nat \<Rightarrow> u8 list \<Rightarrow> u8 list \<Rightarrow> bool" where
  "same_below n p p' \<longleftrightarrow> length p' = length p \<and> take n p' = take n p"

lemma same_below_refl [simp]: "same_below n p p"
  by (simp add: same_below_def)

lemma same_below_trans: "same_below n p q \<Longrightarrow> same_below n q r \<Longrightarrow> same_below n p r"
  by (simp add: same_below_def)

lemma wr8_same_below: "wr8 p i v = Some p' \<Longrightarrow> n \<le> i \<Longrightarrow> same_below n p p'"
  by (auto simp: wr8_def same_below_def split: if_splits)

text \<open>The packet with the address at \<open>k\<close> translated.\<close>

definition sw :: "mac_unit \<Rightarrow> nat \<Rightarrow> u8 list \<Rightarrow> u8 list" where
  "sw m k p = put_seg p k (swap_mac m (mac_at p k))"

lemma length_sw [simp]: "mac_wf m \<Longrightarrow> k + 6 \<le> length p \<Longrightarrow> length (sw m k p) = length p"
  by (simp add: sw_def)

lemma nth_sw: "mac_wf m \<Longrightarrow> k + 6 \<le> length p \<Longrightarrow> j < length p \<Longrightarrow> j < k \<or> k + 6 \<le> j \<Longrightarrow> sw m k p ! j = p ! j"
  by (auto simp: sw_def nth_put_seg)

lemma mac_at_sw [simp]: "mac_wf m \<Longrightarrow> k + 6 \<le> length p \<Longrightarrow> mac_at (sw m k p) k = swap_mac m (mac_at p k)"
  using segment_put_seg_same [of k "swap_mac m (mac_at p k)" p] by (simp add: sw_def)

lemma mac_at_sw_other:
  "mac_wf m \<Longrightarrow> k + 6 \<le> length p \<Longrightarrow> j + 6 \<le> length p \<Longrightarrow> j + 6 \<le> k \<or> k + 6 \<le> j \<Longrightarrow> mac_at (sw m k p) j = mac_at p j"
  by (simp add: sw_def segment_put_seg_other)

lemma sw_sw [simp]: "mac_wf m \<Longrightarrow> k + 6 \<le> length p \<Longrightarrow> sw m k (sw m k p) = p"
  by (simp add: sw_def [of m k "sw m k p"]) (simp add: sw_def put_seg_put_seg_same put_seg_segment_id)

lemma sw_commute:
  assumes "mac_wf m" and "k + 6 \<le> length p" and "j + 6 \<le> length p" and "j + 6 \<le> k \<or> k + 6 \<le> j"
  shows "sw m j (sw m k p) = sw m k (sw m j p)"
proof -
  have "mac_at (sw m j p) k = mac_at p k" and "mac_at (sw m k p) j = mac_at p j"
    using assms by (auto intro!: mac_at_sw_other)
  then show ?thesis
    using assms by (simp add: sw_def [of m j "sw m k p"] sw_def [of m k "sw m j p"])
      (simp add: sw_def put_seg_commute)
qed

lemma dofakemac_sw:
  assumes "mac_wf m" and "mac_fakemac m \<noteq> mac_realmac m" and "k + 6 \<le> length p"
  shows "dofakemac m p k = Some (mac_at p k = mac_fakemac m \<or> mac_at p k = mac_realmac m, sw m k p)"
  using dofakemac_eq [OF assms] by (simp add: sw_def)

lemma dofakemac_bound:
  "dofakemac m p k = Some (r, p') \<Longrightarrow> mac_fakemac m \<noteq> mac_realmac m \<Longrightarrow> k + 6 \<le> length p"
  by (auto simp: dofakemac_def rdn_def split: if_splits)

lemma sw_same_below: "mac_wf m \<Longrightarrow> k + 6 \<le> length p \<Longrightarrow> n \<le> k \<Longrightarrow> same_below n p (sw m k p)"
  by (simp add: same_below_def) (simp add: sw_def)

lemma dofakemac_same_below:
  assumes "mac_wf m" and "dofakemac m p k = Some (r, p')" and "n \<le> k"
  shows "same_below n p p'"
proof (cases "mac_fakemac m = mac_realmac m")
  case True
  with assms show ?thesis by (simp add: dofakemac_same)
next
  case False
  then have "k + 6 \<le> length p"
    using dofakemac_bound assms(2) by blast
  with assms False show ?thesis
    by (auto simp: dofakemac_sw intro: sw_same_below)
qed

lemma udp_checksum_fix_same_below:
  assumes "udp_checksum_fix p ipv4 data len2 = Some p'" and "n \<le> data"
  shows "same_below n p p'"
  using assms
  by (auto simp: udp_checksum_fix_def Let_def bind_eq_Some_conv
      elim!: same_below_trans [OF wr8_same_below] wr8_same_below)

lemma munge_udp_same_below:
  assumes "mac_wf m" and "munge_udp m p ipv4 data = Some p'" and "n \<le> data"
  shows "same_below n p p'"
proof -
  from assms(2) obtain r q where q: "dofakemac m p (data + 8 + 28) = Some (r, q) \<or> q = p"
    and p': "p' = q \<or> (\<exists>l. udp_checksum_fix q ipv4 data l = Some p')"
    by (fastforce simp: munge_udp_def bind_eq_Some_conv split: if_splits)
  from q have "same_below n p q"
    using dofakemac_same_below [OF assms(1)] assms(3) by force
  moreover from p' have "same_below n q p'"
    using udp_checksum_fix_same_below assms(3) by force
  ultimately show ?thesis by (rule same_below_trans)
qed

lemma munge_ipv4_same_below:
  "mac_wf m \<Longrightarrow> munge_ipv4 m p = Some p' \<Longrightarrow> same_below 14 p p'"
  by (auto simp: munge_ipv4_def bind_eq_Some_conv Let_def intro: munge_udp_same_below split: if_splits)

lemma munge_arp_same_below:
  assumes "mac_wf m" and "munge_arp m p = Some p'"
  shows "same_below 14 p p'"
  using assms(2)
  by (auto simp: munge_arp_def bind_eq_Some_conv split: if_splits
      dest!: dofakemac_same_below [OF assms(1), where n = 14] intro: same_below_trans)

section \<open>Frames\<close>

definition ether_type :: "u8 list \<Rightarrow> u32" where
  "ether_type p = push_bit 8 (ucast (p ! 12)) OR ucast (p ! 13)"

definition is_udp :: "u8 list \<Rightarrow> bool" where
  "is_udp p \<longleftrightarrow> ether_type p = 0x0800 \<and> p ! 23 = 17"

lemma mungepacket_unfold:
  assumes "mac_wf m" and "mac_fakemac m \<noteq> mac_realmac m" and "20 \<le> len" and "14 \<le> length p"
  shows "mungepacket m p len = map_option (\<lambda>q. (q, len))
    (if ether_type p = 0x0806 then munge_arp m (sw m 6 (sw m 0 p))
     else if ether_type p = 0x0800 then munge_ipv4 m (sw m 6 (sw m 0 p)) else Some (sw m 6 (sw m 0 p)))"
  using assms by (simp add: mungepacket_def dofakemac_sw ether_type_def map_option_case split: option.splits)

lemma mungepacket_bound: "mungepacket m p len = Some r \<Longrightarrow> 20 \<le> len \<Longrightarrow> mac_fakemac m \<noteq> mac_realmac m \<Longrightarrow> 14 \<le> length p"
  by (auto simp: mungepacket_def be16_def rd8_def bind_eq_Some_conv split: if_splits)

lemma mungepacket_headers_same_below:
  assumes "mac_wf m" and "mac_fakemac m \<noteq> mac_realmac m" and "20 \<le> len" and "mungepacket m p len = Some (p', r)"
  shows "r = len \<and> same_below 14 (sw m 6 (sw m 0 p)) p'"
proof -
  have "14 \<le> length p"
    using mungepacket_bound assms by blast
  with assms show ?thesis
    by (auto simp: mungepacket_unfold intro: munge_ipv4_same_below munge_arp_same_below split: if_splits)
qed

lemma mungepacket_length:
  assumes "mac_wf m" and "mungepacket m p len = Some (p', r)"
  shows "length p' = length p" and "mac_fakemac m = mac_realmac m \<Longrightarrow> p' = p"
proof -
  show "mac_fakemac m = mac_realmac m \<Longrightarrow> p' = p"
    using assms(2) by (simp add: mungepacket_def split: if_splits)
  show "length p' = length p"
  proof (cases "20 \<le> len \<and> mac_fakemac m \<noteq> mac_realmac m")
    case True
    then show ?thesis
      using mungepacket_headers_same_below [OF assms(1) _ _ assms(2)] mungepacket_bound [OF assms(2)] assms(1)
      by (simp add: same_below_def)
  next
    case False
    then show ?thesis using assms(2) by (auto simp: mungepacket_def split: if_splits)
  qed
qed

lemma same_below_mac_at: "same_below n p p' \<Longrightarrow> k + 6 \<le> n \<Longrightarrow> mac_at p' k = mac_at p k"
proof -
  assume "same_below n p p'" and n: "k + 6 \<le> n"
  then have "mac_at (take n p') k = mac_at (take n p) k"
    by (simp only: same_below_def)
  with n show ?thesis
    by (simp add: drop_take)
qed

text \<open>C34: the translation swaps the Amiga-side and the wire-side address in both header fields, keeps
  every other address, the type field, the length and the size of the array.\<close>

theorem mungepacket_headers:
  assumes "mac_wf m" and "mac_fakemac m \<noteq> mac_realmac m" and "20 \<le> len" and "mungepacket m p len = Some (p', r)"
  shows "r = len \<and> length p' = length p \<and>
    mac_at p' 0 = swap_mac m (mac_at p 0) \<and> mac_at p' 6 = swap_mac m (mac_at p 6) \<and>
    ether_type p' = ether_type p"
proof -
  have len: "14 \<le> length p"
    using mungepacket_bound assms by blast
  let ?q = "sw m 6 (sw m 0 p)"
  have r: "r = len" and q: "same_below 14 ?q p'"
    using mungepacket_headers_same_below [OF assms] by simp_all
  have "mac_at ?q 0 = swap_mac m (mac_at p 0)" "mac_at ?q 6 = swap_mac m (mac_at p 6)"
    using len assms(1) by (simp_all add: mac_at_sw_other del: drop0)
  moreover have "p' ! i = ?q ! i" if "i < 14" for i
    using q that unfolding same_below_def by (metis nth_take)
  then have "ether_type p' = ether_type p"
    using len assms(1) by (simp add: ether_type_def nth_sw)
  moreover have "length ?q = length p"
    using len assms(1) by simp
  ultimately show ?thesis
    using r q same_below_mac_at [OF q, of 0] same_below_mac_at [OF q, of 6] by (simp add: same_below_def)
qed

lemma be16_is_1: "push_bit 8 (ucast h) OR ucast l = (1 :: u32) \<longleftrightarrow> h = 0 \<and> l = 1" for h l :: u8
proof -
  have "push_bit 8 (ucast h) OR ucast l = (1 :: u32) \<longleftrightarrow> 256 * unat h + unat l = 1"
    unfolding word_unat_eq_iff be_unat by simp
  also have "\<dots> \<longleftrightarrow> unat h = 0 \<and> unat l = 1"
    by presburger
  finally show ?thesis by (simp add: word_unat_eq_iff)
qed

lemma munge_arp_unfold:
  assumes "mac_wf m" and "mac_fakemac m \<noteq> mac_realmac m" and "38 \<le> length p"
  shows "munge_arp m p =
    Some (if p ! 14 = 0 \<and> p ! 15 = 1 \<and> p ! 18 = 6 then sw m 32 (sw m 22 p) else p)"
  using assms by (simp add: munge_arp_def dofakemac_sw be16_is_1)

text \<open>The effect on a frame that is not UDP.\<close>

definition is_arp :: "u8 list \<Rightarrow> bool" where
  "is_arp p \<longleftrightarrow> ether_type p = 0x0806 \<and> p ! 14 = 0 \<and> p ! 15 = 1 \<and> p ! 18 = 6"

definition munge_plain :: "mac_unit \<Rightarrow> u8 list \<Rightarrow> u8 list" where
  "munge_plain m p =
     (if is_arp p then sw m 32 (sw m 22 (sw m 6 (sw m 0 p))) else sw m 6 (sw m 0 p))"

lemma mungepacket_plain:
  assumes "mac_wf m" and "mac_fakemac m \<noteq> mac_realmac m" and "38 \<le> length p" and "\<not> is_udp p"
  shows "mungepacket m p len = Some (if len < 20 then (p, 0) else (munge_plain m p, len))"
proof (cases "len < 20")
  case True
  then show ?thesis by (simp add: mungepacket_def)
next
  case False
  have "munge_ipv4 m (sw m 6 (sw m 0 p)) = Some (sw m 6 (sw m 0 p))" if "ether_type p = 0x0800"
    using that assms by (simp add: is_udp_def munge_ipv4_def nth_sw)
  with False assms show ?thesis
    by (simp add: mungepacket_unfold munge_arp_unfold munge_plain_def is_arp_def nth_sw)
qed

lemma munge_plain_facts:
  assumes "mac_wf m" and "38 \<le> length p"
  shows "length (munge_plain m p) = length p" and "ether_type (munge_plain m p) = ether_type p"
    and "is_arp (munge_plain m p) = is_arp p"
    and "ether_type p \<noteq> 0x0806 \<Longrightarrow> munge_plain m p ! 23 = p ! 23"
  using assms by (simp_all add: munge_plain_def is_arp_def ether_type_def nth_sw)

lemma munge_plain_involution:
  assumes "mac_wf m" and "38 \<le> length p"
  shows "munge_plain m (munge_plain m p) = p"
proof (cases "is_arp p")
  case True
  let ?q = "sw m 6 (sw m 0 p)"
  have "munge_plain m (munge_plain m p) = sw m 32 (sw m 22 (sw m 6 (sw m 0 (sw m 32 (sw m 22 ?q)))))"
    using munge_plain_facts(3) [OF assms] True by (simp add: munge_plain_def)
  also have "\<dots> = sw m 32 (sw m 22 (sw m 32 (sw m 22 (sw m 6 (sw m 0 ?q)))))"
    using assms by (simp add: sw_commute [of m 32 _ 0] sw_commute [of m 22 _ 0] sw_commute [of m 32 _ 6] sw_commute [of m 22 _ 6])
  also have "\<dots> = sw m 6 (sw m 0 ?q)"
    using assms by (simp add: sw_commute [of m 32 _ 22])
  also have "\<dots> = p"
    using assms by (simp add: sw_commute [of m 6 _ 0])
  finally show ?thesis .
next
  case False
  have "munge_plain m (munge_plain m p) = sw m 6 (sw m 0 (sw m 6 (sw m 0 p)))"
    using munge_plain_facts(3) [OF assms] False by (simp add: munge_plain_def)
  also have "\<dots> = p"
    using assms by (simp add: sw_commute [of m 6 _ 0])
  finally show ?thesis .
qed

text \<open>Translating a frame twice gives the frame back, for every frame that is not UDP over IPv4
  (for those the checksum is recomputed): what is sent can be received.\<close>

theorem mungepacket_involution:
  assumes "mac_wf m" and "mac_fakemac m \<noteq> mac_realmac m" and "38 \<le> length p" and "\<not> is_udp p" and "20 \<le> len"
  shows "\<exists>p'. mungepacket m p len = Some (p', len) \<and> mungepacket m p' len = Some (p, len)"
proof -
  let ?q = "munge_plain m p"
  have "\<not> is_udp ?q"
    using assms munge_plain_facts [OF assms(1,3)] by (auto simp: is_udp_def)
  then have "mungepacket m ?q len = Some (p, len)"
    using assms by (simp add: mungepacket_plain munge_plain_facts munge_plain_involution)
  moreover have "mungepacket m p len = Some (?q, len)"
    using assms by (simp add: mungepacket_plain)
  ultimately show ?thesis by blast
qed

section \<open>The UDP checksum\<close>

definition w16 :: "u8 list \<Rightarrow> nat \<Rightarrow> nat" where
  "w16 p i = 256 * unat (p ! i) + unat (p ! Suc i)"

lemma w16_bound: "w16 p i \<le> 65535"
  using u8_less [of "p ! i"] u8_less [of "p ! Suc i"] unfolding w16_def by linarith

lemma be16_w16: "Suc i < length p \<Longrightarrow> be16 p i = Some (of_nat (w16 p i))"
  by (simp add: w16_def flip: be_unat)

lemma udp_sum_eq:
  assumes "data + 2 * k \<le> length p" and "j \<le> k"
  shows "udp_sum p data (2 * j) (2 * k) s = Some (s + of_nat (\<Sum>i = j..<k. w16 p (data + 2 * i)))"
  using assms(2)
proof (induction arbitrary: s rule: inc_induct)
  case base
  then show ?case by (simp add: udp_sum.simps)
next
  case (step n)
  then have "be16 p (data + 2 * n) = Some (of_nat (w16 p (data + 2 * n)))"
    using assms(1) by (intro be16_w16) simp
  moreover have "udp_sum p data (2 * Suc n) (2 * k) (s + of_nat (w16 p (data + 2 * n)))
      = Some (s + of_nat (w16 p (data + 2 * n)) + of_nat (\<Sum>i = Suc n..<k. w16 p (data + 2 * i)))"
    by (rule step.IH)
  ultimately show ?case
    using step.hyps by (subst udp_sum.simps) (simp add: sum.atLeast_Suc_lessThan)
qed

lemma csum_fold_nat: "unat (csum_fold s) = (if s = 0 then 0 else (unat s - 1) mod 65535 + 1)"
proof (induction s rule: csum_fold.induct)
  case (1 s)
  show ?case
  proof (cases "drop_bit 16 s = 0")
    case True
    then have "unat s < 65536"
      using high16_nonzero [of s] by linarith
    moreover have "0 < unat s" if "s \<noteq> 0"
      using that by (simp add: unat_gt_0)
    ultimately show ?thesis
      using True by (subst csum_fold.simps) auto
  next
    case False
    let ?t = "(s AND 0xFFFF) + drop_bit 16 s"
    have s: "65536 \<le> unat s"
      using False high16_nonzero by blast
    have t: "unat ?t = unat s mod 65536 + unat s div 65536"
      by (rule csum_carry)
    have split: "unat s = 65536 * (unat s div 65536) + unat s mod 65536"
      by simp
    have pos: "0 < unat s div 65536"
      using s by simp
    have "unat s - 1 = (unat ?t - 1) + 65535 * (unat s div 65536)"
      using split pos t by linarith
    then have "(unat s - 1) mod 65535 = (unat ?t - 1) mod 65535"
      by simp
    moreover have "?t \<noteq> 0"
      using t pos by (metis add_is_0 less_numeral_extra(3) unat_0)
    moreover have "s \<noteq> 0"
      using s by auto
    moreover have "csum_fold s = csum_fold ?t"
      using False by (subst csum_fold.simps) simp
    ultimately show ?thesis
      using "1.IH" [OF False] by simp
  qed
qed

lemma csum_fold_le: "unat (csum_fold s) \<le> 65535"
proof -
  have "(unat s - 1) mod 65535 < 65535" by simp
  moreover have "unat (csum_fold s) \<le> (unat s - 1) mod 65535 + 1"
    by (simp add: csum_fold_nat)
  ultimately show ?thesis by linarith
qed

lemma not_csum_fold_nonzero: "NOT (csum_fold s) \<noteq> 0"
proof
  assume "NOT (csum_fold s) = 0"
  then have "csum_fold s = - 1" by (metis bit.double_compl bit.compl_zero)
  then have "unat (csum_fold s) = 2 ^ 32 - 1" by (simp add: unsigned_minus_1_eq_mask mask_eq_exp_minus_1)
  then show False using csum_fold_le [of s] by simp
qed

lemma unat_not_u32: "unat (NOT s) = 2 ^ 32 - 1 - unat s" for s :: u32
proof -
  have "NOT s = - 1 - s"
    by (simp add: not_eq_complement)
  then show ?thesis
    by (simp add: unat_sub unsigned_minus_1_eq_mask mask_eq_exp_minus_1)
qed

lemma stored_checksum:
  fixes s :: u32
  assumes "unat s \<le> 65535"
  shows "256 * unat (ucast (drop_bit 8 (NOT s)) :: u8) + unat (ucast (NOT s) :: u8) = 65535 - unat s"
proof -
  have "unat (ucast (drop_bit 8 (NOT s)) :: u8) = (unat (NOT s) div 256) mod 256"
    by (simp add: unsigned_ucast_eq take_bit_eq_mod drop_bit_eq_div unat_div)
  moreover have "unat (ucast (NOT s) :: u8) = unat (NOT s) mod 256"
    by (simp add: unsigned_ucast_eq take_bit_eq_mod)
  moreover have "unat (NOT s) = 65535 - unat s + 65535 * 65536"
    using assms by (simp add: unat_not_u32)
  moreover have "(c + 65535 * 65536) div 256 mod 256 = c div 256" and "(c + 65535 * 65536) mod 256 = c mod 256"
    if "c \<le> 65535" for c :: nat
  proof -
    have N: "c + 65535 * 65536 = c + (256 * 65535) * 256"
      by simp
    have "(c + 65535 * 65536) div 256 = c div 256 + 256 * 65535"
      unfolding N by (rule div_mult_self1 [THEN trans]) simp_all
    moreover have "c div 256 < 256" using that by simp
    moreover have "(d + 256 * 65535) mod 256 = d" if "d < 256" for d :: nat
      using that mod_mult_self2 [of d 256 65535] by simp
    ultimately show "(c + 65535 * 65536) div 256 mod 256 = c div 256"
      by (simp only:)
    show "(c + 65535 * 65536) mod 256 = c mod 256"
      unfolding N by (rule mod_mult_self1)
  qed
  ultimately have "256 * unat (ucast (drop_bit 8 (NOT s)) :: u8) + unat (ucast (NOT s) :: u8)
      = 256 * ((65535 - unat s) div 256) + (65535 - unat s) mod 256"
    by simp
  also have "\<dots> = 65535 - unat s"
    by (rule mult_div_mod_eq)
  finally show ?thesis .
qed

text \<open>The one's complement sum over the pseudo header and the datagram, as a receiver folds it.\<close>

definition udp_total :: "u8 list \<Rightarrow> nat \<Rightarrow> nat \<Rightarrow> nat \<Rightarrow> nat" where
  "udp_total p ipv4 data len2 =
     (\<Sum>i = 0..<(len2 + 1) div 2. w16 p (data + 2 * i)) +
     w16 p (ipv4 + 12) + w16 p (ipv4 + 14) + w16 p (ipv4 + 16) + w16 p (ipv4 + 18) + 17 + len2"

definition udp_verify :: "u8 list \<Rightarrow> nat \<Rightarrow> nat \<Rightarrow> nat \<Rightarrow> u32 option" where
  "udp_verify p ipv4 data len2 = do {
     s0 \<leftarrow> udp_sum p data 0 (2 * ((len2 + 1) div 2)) 0;
     s1 \<leftarrow> be16 p (ipv4 + 12);
     s2 \<leftarrow> be16 p (ipv4 + 14);
     s3 \<leftarrow> be16 p (ipv4 + 16);
     s4 \<leftarrow> be16 p (ipv4 + 18);
     Some (csum_fold (s0 + s1 + s2 + s3 + s4 + 17 + of_nat len2))
   }"

lemma udp_total_bound:
  assumes "len2 \<le> 65535"
  shows "udp_total p ipv4 data len2 + 65535 < 2 ^ 32"
proof -
  have "(\<Sum>i = 0..<(len2 + 1) div 2. w16 p (data + 2 * i)) \<le> (\<Sum>i = 0..<(len2 + 1) div 2. 65535)"
    by (rule sum_mono) (rule w16_bound)
  also have "\<dots> = 65535 * ((len2 + 1) div 2)"
    by simp
  also have "\<dots> \<le> 65535 * 32768"
    using assms by simp
  finally show ?thesis
    using w16_bound [of p "ipv4 + 12"] w16_bound [of p "ipv4 + 14"] w16_bound [of p "ipv4 + 16"]
      w16_bound [of p "ipv4 + 18"] assms
    unfolding udp_total_def by simp
qed

lemma udp_sums:
  assumes "ipv4 + 20 \<le> data" and "data + len2 < length p"
  shows "udp_sum p data 0 (2 * ((len2 + 1) div 2)) 0 = Some (of_nat (\<Sum>i = 0..<(len2 + 1) div 2. w16 p (data + 2 * i)))"
    and "be16 p (ipv4 + 12) = Some (of_nat (w16 p (ipv4 + 12)))"
    and "be16 p (ipv4 + 14) = Some (of_nat (w16 p (ipv4 + 14)))"
    and "be16 p (ipv4 + 16) = Some (of_nat (w16 p (ipv4 + 16)))"
    and "be16 p (ipv4 + 18) = Some (of_nat (w16 p (ipv4 + 18)))"
proof -
  have "data + 2 * ((len2 + 1) div 2) \<le> length p"
    using assms(2) by linarith
  then show "udp_sum p data 0 (2 * ((len2 + 1) div 2)) 0 = Some (of_nat (\<Sum>i = 0..<(len2 + 1) div 2. w16 p (data + 2 * i)))"
    using udp_sum_eq [of data "(len2 + 1) div 2" p 0 0] by simp
qed (rule be16_w16, use assms in simp)+

lemma udp_verify_eq:
  assumes "ipv4 + 20 \<le> data" and "data + len2 < length p"
  shows "udp_verify p ipv4 data len2 = Some (csum_fold (of_nat (udp_total p ipv4 data len2)))"
  unfolding udp_verify_def udp_sums [OF assms] by (simp add: udp_total_def)

text \<open>The packet after the three stores that precede the loop.\<close>

definition udp_cleared :: "u8 list \<Rightarrow> nat \<Rightarrow> nat \<Rightarrow> u8 list" where
  "udp_cleared p data len2 = p[data + 7 := 0, data + 6 := 0, data + len2 := 0]"

lemma udp_checksum_fix_eq:
  assumes "ipv4 + 20 \<le> data" and "8 \<le> len2" and "data + len2 < length p"
  shows "udp_checksum_fix p ipv4 data len2 =
    (let q = udp_cleared p data len2; c = NOT (csum_fold (of_nat (udp_total q ipv4 data len2)))
     in Some (q[data + 6 := ucast (drop_bit 8 c), data + 7 := ucast c]))"
proof -
  let ?q = "udp_cleared p data len2"
  have q: "data + len2 < length ?q"
    using assms by (simp add: udp_cleared_def)
  have "wr8 p (data + 7) 0 \<bind> (\<lambda>p. wr8 p (data + 6) 0 \<bind> (\<lambda>p. wr8 p (data + len2) 0)) = Some ?q"
    using assms by (simp add: udp_cleared_def)
  then have "udp_checksum_fix p ipv4 data len2 = do {
     s0 \<leftarrow> udp_sum ?q data 0 (2 * ((len2 + 1) div 2)) 0;
     s1 \<leftarrow> be16 ?q (ipv4 + 12);
     s2 \<leftarrow> be16 ?q (ipv4 + 14);
     s3 \<leftarrow> be16 ?q (ipv4 + 16);
     s4 \<leftarrow> be16 ?q (ipv4 + 18);
     let sm = NOT (csum_fold (s0 + s1 + s2 + s3 + s4 + 17 + of_nat len2));
     let sm = (if sm = 0 then 0xffff else sm);
     r \<leftarrow> wr8 ?q (data + 6) (ucast (drop_bit 8 sm));
     wr8 r (data + 7) (ucast sm) }"
    using assms by (simp add: udp_checksum_fix_def udp_cleared_def)
  also have "\<dots> = (let c = NOT (csum_fold (of_nat (udp_total ?q ipv4 data len2)))
     in Some (?q[data + 6 := ucast (drop_bit 8 c), data + 7 := ucast c]))"
    unfolding udp_sums [OF assms(1) q] using q assms(2)
    by (simp add: udp_total_def not_csum_fold_nonzero Let_def)
  finally show ?thesis by (simp add: Let_def)
qed

lemma udp_total_stored:
  assumes "ipv4 + 20 \<le> data" and "8 \<le> len2" and "data + len2 < length q" and "w16 q (data + 6) = 0"
  shows "udp_total (q[data + 6 := h, data + 7 := l]) ipv4 data len2
    = udp_total q ipv4 data len2 + 256 * unat h + unat l"
proof -
  let ?r = "q[data + 6 := h, data + 7 := l]" and ?k = "(len2 + 1) div 2"
  have other: "w16 ?r j = w16 q j" if "j \<noteq> data + 5" "j \<noteq> data + 6" "j \<noteq> data + 7" for j
    using that by (simp add: w16_def)
  have k: "3 \<in> {0..<?k}"
    using assms(2) by auto
  have "(\<Sum>i = 0..<?k. w16 ?r (data + 2 * i))
      = w16 ?r (data + 2 * 3) + (\<Sum>i \<in> {0..<?k} - {3}. w16 ?r (data + 2 * i))"
    using k by (intro sum.remove) simp_all
  also have "(\<Sum>i \<in> {0..<?k} - {3}. w16 ?r (data + 2 * i)) = (\<Sum>i \<in> {0..<?k} - {3}. w16 q (data + 2 * i))"
  proof (rule sum.cong [OF refl])
    fix i
    assume "i \<in> {0..<?k} - {3}"
    then have "i \<noteq> 3" by simp
    then have "2 * i \<noteq> 5" and "2 * i \<noteq> 6" and "2 * i \<noteq> 7" by presburger+
    then show "w16 ?r (data + 2 * i) = w16 q (data + 2 * i)"
      by (intro other) simp_all
  qed
  also have "w16 ?r (data + 2 * 3) = 256 * unat h + unat l"
  proof -
    have "data + 2 * 3 = data + 6" and "Suc (data + 6) = data + 7"
      by simp_all
    with assms(2,3) show ?thesis
      by (simp only: w16_def) simp
  qed
  also have "(\<Sum>i \<in> {0..<?k} - {3}. w16 q (data + 2 * i)) = (\<Sum>i = 0..<?k. w16 q (data + 2 * i))"
    using sum.remove [of "{0..<?k}" 3 "\<lambda>i. w16 q (data + 2 * i)"] k assms(4) by simp
  finally show ?thesis
    using assms(1) by (simp add: udp_total_def other)
qed

lemma complement_sum:
  assumes "0 < t" and "t + 65535 < 2 ^ 32" and "s = unat (csum_fold (of_nat t))"
  shows "csum_fold (of_nat (t + (65535 - s))) = 0xFFFF"
proof -
  have t: "unat (of_nat t :: u32) = t"
    using assms(2) by (simp add: unat_of_nat)
  then have "(of_nat t :: u32) \<noteq> 0"
    using assms(1) by auto
  with t have s: "s = (t - 1) mod 65535 + 1"
    using assms(3) by (simp add: csum_fold_nat)
  let ?u = "t + (65535 - s)"
  have "?u < 2 ^ 32"
    using assms(2) by linarith
  then have u: "unat (of_nat ?u :: u32) = ?u"
    by (simp only: unat_of_nat) simp
  have "(t - 1) mod 65535 < 65535" by simp
  moreover have "t - 1 = 65535 * ((t - 1) div 65535) + (t - 1) mod 65535" by simp
  ultimately have "?u - 1 = 65534 + 65535 * ((t - 1) div 65535)"
    using s assms(1) by linarith
  then have "(?u - 1) mod 65535 = 65534"
    by (simp only: mod_mult_self2) simp
  moreover have "(of_nat ?u :: u32) \<noteq> 0"
    using u assms(1) by auto
  ultimately have "unat (csum_fold (of_nat ?u)) = 65535"
    by (simp only: csum_fold_nat u if_False)
  then show ?thesis
    by (simp add: word_unat_eq_iff)
qed


section \<open>Memory safety\<close>

definition udp_off :: "u8 list \<Rightarrow> nat" where
  "udp_off p = 14 + unat (p ! 14 AND 0x0f) * 4"

definition udp_len :: "u8 list \<Rightarrow> nat" where
  "udp_len p = w16 p (udp_off p + 4)"

definition dhcp_ports :: "u8 list \<Rightarrow> bool" where
  "dhcp_ports p \<longleftrightarrow> w16 p (udp_off p) \<in> {67, 68} \<or> w16 p (udp_off p + 2) \<in> {67, 68}"

lemma unat_nibble: "unat (b AND 0x0f) \<le> 15" for b :: u8
proof -
  have "b AND 0x0f \<le> 0x0f" by (rule word_and_le1)
  then show ?thesis by (simp add: word_le_nat_alt)
qed

lemma udp_off_bound: "14 \<le> udp_off p" "udp_off p \<le> 74"
  using unat_nibble [of "p ! 14"] by (simp_all add: udp_off_def)

lemma w16_eq_iff: "(of_nat (w16 p i) :: u32) = of_nat n \<longleftrightarrow> w16 p i = n" if "n < 65536"
proof -
  have "unat (of_nat (w16 p i) :: u32) = w16 p i" "unat (of_nat n :: u32) = n"
    using w16_bound [of p i] that by (simp_all add: unat_of_nat)
  then show ?thesis by metis
qed

lemma unat_w16 [simp]: "unat (of_nat (w16 p i) :: u32) = w16 p i"
  using w16_bound [of p i] by (simp add: unat_of_nat)

lemma munge_udp_eq:
  assumes "mac_wf m" and "mac_fakemac m \<noteq> mac_realmac m" and "data + 42 \<le> length p"
  shows "munge_udp m p ipv4 data =
    (if w16 p data \<in> {67, 68} \<or> w16 p (data + 2) \<in> {67, 68} then
       (if (mac_at p (data + 36) = mac_fakemac m \<or> mac_at p (data + 36) = mac_realmac m) \<and> w16 p (data + 6) \<noteq> 0
        then udp_checksum_fix (sw m (data + 36) p) ipv4 data (w16 p (data + 4))
        else Some (sw m (data + 36) p))
     else Some p)"
proof -
  have ports: "(of_nat (w16 p i) :: u32) = 67 \<longleftrightarrow> w16 p i = 67" "(of_nat (w16 p i) :: u32) = 68 \<longleftrightarrow> w16 p i = 68" for i
    using w16_eq_iff [of 67 p i] w16_eq_iff [of 68 p i] by simp_all
  have c: "(of_nat (w16 p (data + 6)) :: u32) = 0 \<longleftrightarrow> w16 p (data + 6) = 0"
    using w16_eq_iff [of 0 p "data + 6"] by simp
  have fields: "be16 p data = Some (of_nat (w16 p data))" "be16 p (data + 2) = Some (of_nat (w16 p (data + 2)))"
    "be16 p (data + 4) = Some (of_nat (w16 p (data + 4)))" "be16 p (data + 6) = Some (of_nat (w16 p (data + 6)))"
    using assms(3) by (intro be16_w16, simp)+
  have sw6: "be16 (sw m (data + 36) p) (data + 6) = Some (of_nat (w16 p (data + 6)))"
    using assms by (subst be16_w16) (simp_all add: w16_def nth_sw)
  have chaddr: "data + 8 + 28 = data + 36"
    by simp
  have "dofakemac m p (data + 36)
      = Some (mac_at p (data + 36) = mac_fakemac m \<or> mac_at p (data + 36) = mac_realmac m, sw m (data + 36) p)"
    using assms by (simp add: dofakemac_sw)
  then show ?thesis
    by (simp add: munge_udp_def chaddr fields sw6 ports c del: be16_eq add_2_eq_Suc')
qed

lemma udp_checksum_fix_safe:
  assumes "data + 7 < length p" and "ipv4 + 19 < length p" and "data + len2 < length p"
  shows "\<exists>p'. udp_checksum_fix p ipv4 data len2 = Some p' \<and> length p' = length p"
proof -
  have "data + 2 * ((len2 + 1) div 2) \<le> length p"
    using assms(3) by linarith
  then show ?thesis
    using assms udp_sum_eq [of data "(len2 + 1) div 2" "udp_cleared p data len2" 0 0]
    by (simp add: udp_checksum_fix_def udp_cleared_def Let_def)
qed

lemma munge_ipv4_eq:
  assumes "mac_wf m" and "mac_fakemac m \<noteq> mac_realmac m" and "116 \<le> length p"
  shows "munge_ipv4 m (sw m 6 (sw m 0 p)) =
    (if p ! 23 = 17 then munge_udp m (sw m 6 (sw m 0 p)) 14 (udp_off p) else Some (sw m 6 (sw m 0 p)))"
  using assms by (simp add: munge_ipv4_def nth_sw udp_off_def Let_def)

text \<open>The header swap leaves everything after the addresses alone.\<close>

lemma sw_headers:
  assumes "mac_wf m" and "14 \<le> length p"
  defines "q \<equiv> sw m 6 (sw m 0 p)"
  shows "length q = length p"
    and "14 \<le> i \<Longrightarrow> Suc i < length p \<Longrightarrow> w16 q i = w16 p i"
    and "14 \<le> k \<Longrightarrow> k + 6 \<le> length p \<Longrightarrow> mac_at q k = mac_at p k"
  using assms(1,2) by (simp_all add: q_def w16_def nth_sw mac_at_sw_other)

text \<open>The translation stays inside the array, and keeps its size, whenever the array has 116 bytes
  and the length field of a UDP datagram does not point past its end.\<close>

theorem mungepacket_safe:
  assumes "mac_wf m" and "116 \<le> length p" and "is_udp p \<Longrightarrow> udp_off p + udp_len p < length p"
  shows "\<exists>p'. mungepacket m p len = Some (p', if len < 20 then 0 else len) \<and> length p' = length p"
proof (cases "len < 20 \<or> mac_fakemac m = mac_realmac m")
  case True
  then show ?thesis by (auto simp: mungepacket_def)
next
  case False
  then have ne: "mac_fakemac m \<noteq> mac_realmac m" by simp
  show ?thesis
  proof (cases "is_udp p")
    case False
    with \<open>\<not> (len < 20 \<or> mac_fakemac m = mac_realmac m)\<close> assms show ?thesis
      by (auto simp: mungepacket_plain munge_plain_facts)
  next
    case True
    let ?q = "sw m 6 (sw m 0 p)" and ?d = "udp_off p"
    have d: "?d + 42 \<le> length ?q" and q: "length ?q = length p"
      using assms(1,2) udp_off_bound [of p] by simp_all
    have "w16 ?q (?d + 4) = udp_len p"
      using assms(1,2) udp_off_bound [of p] by (simp add: udp_len_def sw_headers)
    with assms True d have "\<exists>r. munge_udp m ?q 14 ?d = Some r \<and> length r = length p"
      using udp_checksum_fix_safe [of ?d "sw m (?d + 36) ?q" 14 "udp_len p"] udp_off_bound [of p]
      by (auto simp: munge_udp_eq [OF assms(1) ne])
    then show ?thesis
      using True False assms ne by (auto simp: mungepacket_unfold munge_ipv4_eq is_udp_def)
  qed
qed

text \<open>A DHCP frame whose UDP length field reaches past the array makes the translation write outside
  it: the field is used without a check.\<close>

theorem mungepacket_udp_length_oob:
  assumes "mac_wf m" and "mac_fakemac m \<noteq> mac_realmac m" and "20 \<le> len" and "116 \<le> length p"
    and "is_udp p" and "dhcp_ports p"
    and "mac_at p (udp_off p + 36) = mac_realmac m" and "w16 p (udp_off p + 6) \<noteq> 0"
    and "length p \<le> udp_off p + udp_len p"
  shows "mungepacket m p len = None"
proof -
  let ?q = "sw m 6 (sw m 0 p)" and ?d = "udp_off p"
  note off = udp_off_bound [of p]
  have w: "w16 ?q (?d + j) = w16 p (?d + j)" if "j < 8" for j
    using assms(1,4) off that by (simp add: sw_headers)
  have a: "mac_at ?q (?d + 36) = mac_at p (?d + 36)"
    using assms(1,4) off by (simp add: sw_headers)
  have "udp_checksum_fix r 14 ?d (udp_len p) = None" if "length r = length p" for r
    using that assms(4,9) off by (simp add: udp_checksum_fix_def wr8_def)
  then have "munge_udp m ?q 14 ?d = None"
    using assms off w [of 0] w [of 2] w [of 4] w [of 6] a
    by (simp add: munge_udp_eq dhcp_ports_def udp_len_def)
  then show ?thesis
    using assms by (simp add: mungepacket_unfold munge_ipv4_eq is_udp_def)
qed

text \<open>The test for a zero checksum before it is stored never succeeds: the folded sum is complemented
  as a 32-bit value, whose upper half is then all ones.\<close>

theorem udp_zero_test_dead:
  "(if NOT (csum_fold s) = 0 then 0xffff else NOT (csum_fold s)) = NOT (csum_fold s)"
  using not_csum_fold_nonzero [of s] by simp

section \<open>Concrete frames\<close>

definition sample_mac :: mac_unit where
  "sample_mac = \<lparr>mac_fakemac = [0x00, 0x80, 0x10, 0x00, 0x00, 0x01], mac_realmac = [0x00, 0x80, 0x10, 0x0a, 0x0b, 0x0c]\<rparr>"

text \<open>A broadcast ARP request from the Amiga, and a DHCP request with a chosen UDP length.\<close>

definition sample_arp :: "u8 list" where
  "sample_arp = [0xff, 0xff, 0xff, 0xff, 0xff, 0xff] @ [0x00, 0x80, 0x10, 0x00, 0x00, 0x01] @ [0x08, 0x06] @
     [0x00, 0x01, 0x08, 0x00, 0x06, 0x04, 0x00, 0x01] @ [0x00, 0x80, 0x10, 0x00, 0x00, 0x01] @ replicate 32 0"

definition sample_dhcp :: "u8 \<Rightarrow> u8 \<Rightarrow> u8 list" where
  "sample_dhcp hi lo = [0xff, 0xff, 0xff, 0xff, 0xff, 0xff] @ [0x00, 0x80, 0x10, 0x00, 0x00, 0x01] @ [0x08, 0x00] @
     [0x45] @ replicate 8 0 @ [17] @ replicate 10 0 @ [0, 68, 0, 67, hi, lo, 0x12, 0x34] @ replicate 28 0 @
     [0x00, 0x80, 0x10, 0x0a, 0x0b, 0x0c] @ replicate 4020 0"

lemma sample_mac_wf: "mac_wf sample_mac" "mac_fakemac sample_mac \<noteq> mac_realmac sample_mac"
  by (simp_all add: sample_mac_def mac_wf_def)

lemma sample_arp_facts: "length sample_arp = 60" "\<not> is_udp sample_arp"
  by (simp_all add: sample_arp_def is_udp_def ether_type_def nth_append)

lemma sample_dhcp_facts:
  "length (sample_dhcp hi lo) = 4096" "is_udp (sample_dhcp hi lo)" "udp_off (sample_dhcp hi lo) = 34"
  by (simp_all add: sample_dhcp_def is_udp_def ether_type_def udp_off_def nth_append)

lemma sample_dhcp_fields:
  "udp_len (sample_dhcp hi lo) = 256 * unat hi + unat lo" "dhcp_ports (sample_dhcp hi lo)"
  "mac_at (sample_dhcp hi lo) 70 = mac_realmac sample_mac" "w16 (sample_dhcp hi lo) 40 \<noteq> 0"
  by (simp_all add: udp_len_def dhcp_ports_def sample_dhcp_facts)
    (simp_all add: sample_dhcp_def w16_def nth_append sample_mac_def)

theorem mungepacket_headers_witness:
  "\<exists>p'. mungepacket sample_mac sample_arp 60 = Some (p', 60) \<and>
     mac_at p' 6 = [0x00, 0x80, 0x10, 0x0a, 0x0b, 0x0c] \<and> mac_at p' 0 = [0xff, 0xff, 0xff, 0xff, 0xff, 0xff]"
proof -
  have "mungepacket sample_mac sample_arp 60 = Some (munge_plain sample_mac sample_arp, 60)"
    using sample_mac_wf sample_arp_facts by (simp add: mungepacket_plain)
  moreover have "swap_mac sample_mac (mac_at sample_arp 0) = [0xff, 0xff, 0xff, 0xff, 0xff, 0xff]"
    by (simp add: sample_arp_def sample_mac_def swap_mac_def)
  moreover have "swap_mac sample_mac (mac_at sample_arp 6) = [0x00, 0x80, 0x10, 0x0a, 0x0b, 0x0c]"
    by (simp add: sample_arp_def sample_mac_def swap_mac_def)
  ultimately show ?thesis
    using mungepacket_headers [OF sample_mac_wf, of 60 sample_arp "munge_plain sample_mac sample_arp" 60] by auto
qed

theorem mungepacket_involution_witness:
  "\<exists>p'. mungepacket sample_mac sample_arp 60 = Some (p', 60) \<and> mungepacket sample_mac p' 60 = Some (sample_arp, 60)"
  using mungepacket_involution [OF sample_mac_wf, of sample_arp 60] sample_arp_facts by simp


theorem mungepacket_safe_witness:
  "\<exists>p'. mungepacket sample_mac (sample_dhcp 1 0) 342 = Some (p', 342) \<and> length p' = 4096"
  using mungepacket_safe [OF sample_mac_wf(1), of "sample_dhcp 1 0" 342]
  by (simp add: sample_dhcp_facts sample_dhcp_fields)

theorem mungepacket_udp_length_oob_witness:
  "mungepacket sample_mac (sample_dhcp 0xff 0xff) 342 = None"
  using mungepacket_udp_length_oob [OF sample_mac_wf, of 342 "sample_dhcp 0xff 0xff"]
  by (simp add: sample_dhcp_facts sample_dhcp_fields)

end
