(* ===== verification/Chip_State.thy ===== *)
theory Chip_State
  imports Boardram Crc32 Mac
begin

text \<open>
  The state of the daemon: the file-scope variables of \<^verbatim>\<open>registers.cpp\<close>, \<^verbatim>\<open>rings.cpp\<close>,
  \<^verbatim>\<open>mac.cpp\<close>, \<^verbatim>\<open>crc32.cpp\<close> and \<^verbatim>\<open>ethernet.cpp\<close> as one record on top of the memory window,
  the masks of \<^verbatim>\<open>a2065_types.h\<close>, the accessors of \<^verbatim>\<open>registers.cpp\<close>, and the contract of
  the interrupt callback. The record is extensible: a daemon that keeps more variables
  extends it. \<open>sent\<close> is the sequence of frames handed to \<^verbatim>\<open>send(2)\<close>, oldest first.

  \<^verbatim>\<open>am_initialized\<close> is 0 or 1 in the source and a \<open>bool\<close> here. The ring offsets
  are \<^verbatim>\<open>int\<close> in the source and \<open>nat\<close> here: they start at 0 and are only incremented
  and reduced modulo the ring length. \<^verbatim>\<open>reg_lock\<close> is not part of the state: an operation
  of this model is what runs while the lock is held.
\<close>

unbundle bit_operations_syntax

section \<open>Masks of \<^verbatim>\<open>a2065_types.h\<close>\<close>

abbreviation CSR0_ERR :: u16 where "CSR0_ERR \<equiv> 0x8000"
abbreviation CSR0_BABL :: u16 where "CSR0_BABL \<equiv> 0x4000"
abbreviation CSR0_CERR :: u16 where "CSR0_CERR \<equiv> 0x2000"
abbreviation CSR0_MISS :: u16 where "CSR0_MISS \<equiv> 0x1000"
abbreviation CSR0_MERR :: u16 where "CSR0_MERR \<equiv> 0x0800"
abbreviation CSR0_RINT :: u16 where "CSR0_RINT \<equiv> 0x0400"
abbreviation CSR0_TINT :: u16 where "CSR0_TINT \<equiv> 0x0200"
abbreviation CSR0_IDON :: u16 where "CSR0_IDON \<equiv> 0x0100"
abbreviation CSR0_INTR :: u16 where "CSR0_INTR \<equiv> 0x0080"
abbreviation CSR0_INEA :: u16 where "CSR0_INEA \<equiv> 0x0040"
abbreviation CSR0_RXON :: u16 where "CSR0_RXON \<equiv> 0x0020"
abbreviation CSR0_TXON :: u16 where "CSR0_TXON \<equiv> 0x0010"
abbreviation CSR0_TDMD :: u16 where "CSR0_TDMD \<equiv> 0x0008"
abbreviation CSR0_STOP :: u16 where "CSR0_STOP \<equiv> 0x0004"
abbreviation CSR0_STRT :: u16 where "CSR0_STRT \<equiv> 0x0002"
abbreviation CSR0_INIT :: u16 where "CSR0_INIT \<equiv> 0x0001"

abbreviation MODE_PROM :: u16 where "MODE_PROM \<equiv> 0x8000"
abbreviation MODE_COLL :: u16 where "MODE_COLL \<equiv> 0x0010"
abbreviation MODE_DTCR :: u16 where "MODE_DTCR \<equiv> 0x0008"
abbreviation MODE_LOOP :: u16 where "MODE_LOOP \<equiv> 0x0004"
abbreviation MODE_DTX :: u16 where "MODE_DTX \<equiv> 0x0002"
abbreviation MODE_DRX :: u16 where "MODE_DRX \<equiv> 0x0001"

abbreviation TX_OWN :: u16 where "TX_OWN \<equiv> 0x8000"
abbreviation TX_ERR :: u16 where "TX_ERR \<equiv> 0x4000"
abbreviation TX_ADD_FCS :: u16 where "TX_ADD_FCS \<equiv> 0x2000"
abbreviation TX_STP :: u16 where "TX_STP \<equiv> 0x0200"
abbreviation TX_ENP :: u16 where "TX_ENP \<equiv> 0x0100"
abbreviation TX_BUFF :: u16 where "TX_BUFF \<equiv> 0x8000"
abbreviation TX_UFLO :: u16 where "TX_UFLO \<equiv> 0x4000"
abbreviation TX_RTRY :: u16 where "TX_RTRY \<equiv> 0x0400"

abbreviation RX_OWN :: u16 where "RX_OWN \<equiv> 0x8000"
abbreviation RX_OFLO :: u16 where "RX_OFLO \<equiv> 0x1000"
abbreviation RX_BUFF :: u16 where "RX_BUFF \<equiv> 0x0400"
abbreviation RX_STP :: u16 where "RX_STP \<equiv> 0x0200"
abbreviation RX_ENP :: u16 where "RX_ENP \<equiv> 0x0100"

abbreviation RAP_SIZE :: u8 where "RAP_SIZE \<equiv> 128"
abbreviation MAX_PACKET_SIZE :: nat where "MAX_PACKET_SIZE \<equiv> 4096"
abbreviation A2065_RDP_OFF :: u8 where "A2065_RDP_OFF \<equiv> 0x00"
abbreviation A2065_RAP_OFF :: u8 where "A2065_RAP_OFF \<equiv> 0x02"

definition BROADCAST_MAC :: mac_addr where
  "BROADCAST_MAC = [0xff, 0xff, 0xff, 0xff, 0xff, 0xff]"

section \<open>State\<close>

record a2065 = window +
  csr :: "nat \<Rightarrow> u16"
  rap :: u8
  am_initialized :: bool
  am_mode :: u16
  am_ladrf :: u64
  am_rdr_rlen :: u32
  am_rdr_rdra :: u32
  am_tdr_tlen :: u32
  am_tdr_tdra :: u32
  tdr_offset :: nat
  rdr_offset :: nat
  fakemac :: mac_addr
  mac :: mac_unit
  crc :: crc32_unit
  transmitbuffer :: "u8 list"
  transmitlen :: nat
  loopback_iter :: nat
  sock_fd :: int
  host_mac :: mac_addr
  sent :: "u8 list list"

section \<open>Accessors of \<^verbatim>\<open>registers.cpp\<close>\<close>

definition set_csr :: "nat \<Rightarrow> u16 \<Rightarrow> 'a a2065_scheme \<Rightarrow> 'a a2065_scheme" where
  "set_csr n v s = s\<lparr>csr := (csr s)(n := v)\<rparr>"

definition registers_csr0 :: "'a a2065_scheme \<Rightarrow> u16" where
  "registers_csr0 s = csr s 0"

definition registers_csr :: "int \<Rightarrow> 'a a2065_scheme \<Rightarrow> u16" where
  "registers_csr n s = (if 0 \<le> n \<and> n < 128 then csr s (nat n) else 0)"

definition registers_csr0_set :: "u16 \<Rightarrow> 'a a2065_scheme \<Rightarrow> 'a a2065_scheme" where
  "registers_csr0_set v s = set_csr 0 (csr s 0 OR v) s"

definition registers_csr0_clr :: "u16 \<Rightarrow> 'a a2065_scheme \<Rightarrow> 'a a2065_scheme" where
  "registers_csr0_clr v s = set_csr 0 (csr s 0 AND NOT v) s"

definition registers_prom :: "'a a2065_scheme \<Rightarrow> bool" where
  "registers_prom s \<longleftrightarrow> has (am_mode s) MODE_PROM"

definition registers_set_boardram :: "u32 \<Rightarrow> 'a a2065_scheme \<Rightarrow> 'a a2065_scheme" where
  "registers_set_boardram ram s = s\<lparr>boardram := ram\<rparr>"

definition registers_set_fakemac :: "mac_addr \<Rightarrow> 'a a2065_scheme \<Rightarrow> 'a a2065_scheme" where
  "registers_set_fakemac m s = s\<lparr>fakemac := m\<rparr>"

section \<open>Board RAM writes and the chip\<close>

lemma put_ram_byte_chip [simp]:
  "csr (put_ram_byte s off v) = csr s"
  "rap (put_ram_byte s off v) = rap s"
  "am_initialized (put_ram_byte s off v) = am_initialized s"
  "am_mode (put_ram_byte s off v) = am_mode s"
  "am_ladrf (put_ram_byte s off v) = am_ladrf s"
  "am_rdr_rlen (put_ram_byte s off v) = am_rdr_rlen s"
  "am_rdr_rdra (put_ram_byte s off v) = am_rdr_rdra s"
  "am_tdr_tlen (put_ram_byte s off v) = am_tdr_tlen s"
  "am_tdr_tdra (put_ram_byte s off v) = am_tdr_tdra s"
  "tdr_offset (put_ram_byte s off v) = tdr_offset s"
  "rdr_offset (put_ram_byte s off v) = rdr_offset s"
  "fakemac (put_ram_byte s off v) = fakemac s"
  "mac (put_ram_byte s off v) = mac s"
  "crc (put_ram_byte s off v) = crc s"
  "transmitbuffer (put_ram_byte s off v) = transmitbuffer s"
  "transmitlen (put_ram_byte s off v) = transmitlen s"
  "loopback_iter (put_ram_byte s off v) = loopback_iter s"
  "sock_fd (put_ram_byte s off v) = sock_fd s"
  "host_mac (put_ram_byte s off v) = host_mac s"
  "sent (put_ram_byte s off v) = sent s"
  by (subst put_ram_byte_map_w, simp)+

lemma put_ram_word_chip [simp]:
  "csr (put_ram_word s off w) = csr s"
  "rap (put_ram_word s off w) = rap s"
  "am_initialized (put_ram_word s off w) = am_initialized s"
  "am_mode (put_ram_word s off w) = am_mode s"
  "am_ladrf (put_ram_word s off w) = am_ladrf s"
  "am_rdr_rlen (put_ram_word s off w) = am_rdr_rlen s"
  "am_rdr_rdra (put_ram_word s off w) = am_rdr_rdra s"
  "am_tdr_tlen (put_ram_word s off w) = am_tdr_tlen s"
  "am_tdr_tdra (put_ram_word s off w) = am_tdr_tdra s"
  "tdr_offset (put_ram_word s off w) = tdr_offset s"
  "rdr_offset (put_ram_word s off w) = rdr_offset s"
  "fakemac (put_ram_word s off w) = fakemac s"
  "mac (put_ram_word s off w) = mac s"
  "crc (put_ram_word s off w) = crc s"
  "transmitbuffer (put_ram_word s off w) = transmitbuffer s"
  "transmitlen (put_ram_word s off w) = transmitlen s"
  "loopback_iter (put_ram_word s off w) = loopback_iter s"
  "sock_fd (put_ram_word s off w) = sock_fd s"
  "host_mac (put_ram_word s off w) = host_mac s"
  "sent (put_ram_word s off w) = sent s"
  by (subst put_ram_word_map_w, simp)+

lemma ram_write_block_chip [simp]:
  "csr (ram_write_block s off bs) = csr s"
  "rap (ram_write_block s off bs) = rap s"
  "am_initialized (ram_write_block s off bs) = am_initialized s"
  "am_mode (ram_write_block s off bs) = am_mode s"
  "am_ladrf (ram_write_block s off bs) = am_ladrf s"
  "am_rdr_rlen (ram_write_block s off bs) = am_rdr_rlen s"
  "am_rdr_rdra (ram_write_block s off bs) = am_rdr_rdra s"
  "am_tdr_tlen (ram_write_block s off bs) = am_tdr_tlen s"
  "am_tdr_tdra (ram_write_block s off bs) = am_tdr_tdra s"
  "tdr_offset (ram_write_block s off bs) = tdr_offset s"
  "rdr_offset (ram_write_block s off bs) = rdr_offset s"
  "fakemac (ram_write_block s off bs) = fakemac s"
  "mac (ram_write_block s off bs) = mac s"
  "crc (ram_write_block s off bs) = crc s"
  "transmitbuffer (ram_write_block s off bs) = transmitbuffer s"
  "transmitlen (ram_write_block s off bs) = transmitlen s"
  "loopback_iter (ram_write_block s off bs) = loopback_iter s"
  "sock_fd (ram_write_block s off bs) = sock_fd s"
  "host_mac (ram_write_block s off bs) = host_mac s"
  "sent (ram_write_block s off bs) = sent s"
  by (subst ram_write_block_map_w, simp)+

lemma wr64_chip [simp]:
  "csr (wr64 s off q) = csr s"
  "rap (wr64 s off q) = rap s"
  "am_initialized (wr64 s off q) = am_initialized s"
  "am_mode (wr64 s off q) = am_mode s"
  "am_ladrf (wr64 s off q) = am_ladrf s"
  "am_rdr_rlen (wr64 s off q) = am_rdr_rlen s"
  "am_rdr_rdra (wr64 s off q) = am_rdr_rdra s"
  "am_tdr_tlen (wr64 s off q) = am_tdr_tlen s"
  "am_tdr_tdra (wr64 s off q) = am_tdr_tdra s"
  "tdr_offset (wr64 s off q) = tdr_offset s"
  "rdr_offset (wr64 s off q) = rdr_offset s"
  "fakemac (wr64 s off q) = fakemac s"
  "mac (wr64 s off q) = mac s"
  "crc (wr64 s off q) = crc s"
  "transmitbuffer (wr64 s off q) = transmitbuffer s"
  "transmitlen (wr64 s off q) = transmitlen s"
  "loopback_iter (wr64 s off q) = loopback_iter s"
  "sock_fd (wr64 s off q) = sock_fd s"
  "host_mac (wr64 s off q) = host_mac s"
  "sent (wr64 s off q) = sent s"
  by (simp_all add: wr64_def)

text \<open>Reads of the board RAM see the window and nothing else.\<close>

lemma ram_reads_chip [simp]:
  "get_ram_word (s\<lparr>tdr_offset := n\<rparr>) off = get_ram_word s off"
  "get_ram_word (s\<lparr>rdr_offset := n\<rparr>) off = get_ram_word s off"
  "get_ram_word (s\<lparr>transmitbuffer := b\<rparr>) off = get_ram_word s off"
  "get_ram_word (s\<lparr>transmitlen := n\<rparr>) off = get_ram_word s off"
  "get_ram_word (s\<lparr>crc := cu\<rparr>) off = get_ram_word s off"
  "get_ram_word (s\<lparr>loopback_iter := n\<rparr>) off = get_ram_word s off"
  "get_ram_word (s\<lparr>sent := fs\<rparr>) off = get_ram_word s off"
  "get_ram_word (set_csr k v s) off = get_ram_word s off"
  "get_ram_word (registers_csr0_set v s) off = get_ram_word s off"
  "get_ram_word (registers_csr0_clr v s) off = get_ram_word s off"
  "ram_read_block (s\<lparr>tdr_offset := n\<rparr>) off len = ram_read_block s off len"
  "ram_read_block (s\<lparr>rdr_offset := n\<rparr>) off len = ram_read_block s off len"
  "ram_read_block (s\<lparr>transmitbuffer := b\<rparr>) off len = ram_read_block s off len"
  "ram_read_block (s\<lparr>transmitlen := n\<rparr>) off len = ram_read_block s off len"
  "ram_read_block (s\<lparr>crc := cu\<rparr>) off len = ram_read_block s off len"
  "ram_read_block (s\<lparr>loopback_iter := n\<rparr>) off len = ram_read_block s off len"
  "ram_read_block (s\<lparr>sent := fs\<rparr>) off len = ram_read_block s off len"
  "ram_read_block (set_csr k v s) off len = ram_read_block s off len"
  "ram_read_block (registers_csr0_set v s) off len = ram_read_block s off len"
  "ram_read_block (registers_csr0_clr v s) off len = ram_read_block s off len"
  "ram_view (s\<lparr>tdr_offset := n\<rparr>) = ram_view s"
  "ram_view (s\<lparr>rdr_offset := n\<rparr>) = ram_view s"
  "ram_view (s\<lparr>transmitbuffer := b\<rparr>) = ram_view s"
  "ram_view (s\<lparr>transmitlen := n\<rparr>) = ram_view s"
  "ram_view (s\<lparr>crc := cu\<rparr>) = ram_view s"
  "ram_view (s\<lparr>loopback_iter := n\<rparr>) = ram_view s"
  "ram_view (s\<lparr>sent := fs\<rparr>) = ram_view s"
  "ram_view (set_csr k v s) = ram_view s"
  "ram_view (registers_csr0_set v s) = ram_view s"
  "ram_view (registers_csr0_clr v s) = ram_view s"
  by (simp_all add: get_ram_word_def get_ram_byte_def ram_read_block_def ram_view_def fun_eq_iff
      set_csr_def registers_csr0_set_def registers_csr0_clr_def)

section \<open>Callbacks\<close>

type_synonym 's int_cb = "('s \<Rightarrow> 's) option"
type_synonym 's tx_cb = "('s \<Rightarrow> (nat \<times> 's) option) option"

text \<open>\<^verbatim>\<open>if (on_interrupt) on_interrupt()\<close> and \<^verbatim>\<open>if (on_transmit) on_transmit()\<close>.\<close>

definition call_int :: "'s int_cb \<Rightarrow> 's \<Rightarrow> 's" where
  "call_int on_interrupt s = (case on_interrupt of None \<Rightarrow> s | Some fn \<Rightarrow> fn s)"

definition call_tx :: "'s tx_cb \<Rightarrow> 's \<Rightarrow> 's option" where
  "call_tx on_transmit s = (case on_transmit of None \<Rightarrow> Some s | Some fn \<Rightarrow> map_option snd (fn s))"

text \<open>Two states that agree on every variable of the emulated chip and on the board RAM;
  the mailbox slots of the window and a daemon's own variables may differ.\<close>

definition same_chip :: "'a a2065_scheme \<Rightarrow> 'b a2065_scheme \<Rightarrow> bool" where
  "same_chip s t \<longleftrightarrow>
     boardram s = boardram t \<and> ram_view s = ram_view t \<and>
     csr s = csr t \<and> rap s = rap t \<and> am_initialized s = am_initialized t \<and> am_mode s = am_mode t \<and>
     am_ladrf s = am_ladrf t \<and> am_rdr_rlen s = am_rdr_rlen t \<and> am_rdr_rdra s = am_rdr_rdra t \<and>
     am_tdr_tlen s = am_tdr_tlen t \<and> am_tdr_tdra s = am_tdr_tdra t \<and> tdr_offset s = tdr_offset t \<and>
     rdr_offset s = rdr_offset t \<and> fakemac s = fakemac t \<and> mac s = mac t \<and> crc s = crc t \<and>
     transmitbuffer s = transmitbuffer t \<and> transmitlen s = transmitlen t \<and>
     loopback_iter s = loopback_iter t \<and> sock_fd s = sock_fd t \<and> host_mac s = host_mac t \<and> sent s = sent t"

lemma same_chip_refl [simp]: "same_chip s s"
  by (simp add: same_chip_def)

text \<open>What the chip relies on: the interrupt callback reports the interrupt and touches
  nothing of the chip, as long as the board RAM is where the daemon put it.\<close>

locale int_callback =
  fixes on_int :: "('a a2065_scheme) int_cb" and base :: u32
  assumes int_frame: "boardram s = base \<Longrightarrow> same_chip (call_int on_int s) s"

interpretation no_callback: int_callback None base for base
  by unfold_locales (simp add: call_int_def)

end
