(* ===== verification/Registers.thy ===== *)
theory Registers
  imports Chip_State
begin

text \<open>
  \<^verbatim>\<open>src/arm/src/registers.cpp\<close>: the register file of the Am7990. \<open>chip_wput\<close> and
  \<open>chip_wget\<close> are the two accesses of the 68k, through the address port \<^verbatim>\<open>RAP\<close> and the
  data port \<^verbatim>\<open>RDP\<close>. A write to CSR0 is the chip's state machine: the new bits are merged
  (\<open>csr0_merge\<close>), one of the STOP, STRT and INIT transitions is taken (\<open>csr0_transition\<close>),
  a transmit demand calls the transmit callback (\<open>csr0_demand\<close>), and \<open>rethink\<close> recomputes
  the interrupt line. \<open>None\<close> is returned where the transmit callback has undefined behaviour.
\<close>

unbundle bit_operations_syntax

section \<open>The operations\<close>

definition chip_init_mask :: "'a a2065_scheme \<Rightarrow> 'a a2065_scheme" where
  "chip_init_mask s =
     s\<lparr>am_rdr_rdra := am_rdr_rdra s AND RAM_MASK, am_tdr_tdra := am_tdr_tdra s AND RAM_MASK,
       tdr_offset := 0, rdr_offset := 0\<rparr>"

definition rings_reset_loopback_count :: "'a a2065_scheme \<Rightarrow> 'a a2065_scheme" where
  "rings_reset_loopback_count s = s\<lparr>loopback_iter := 0\<rparr>"

definition chip_init :: "'a a2065_scheme \<Rightarrow> 'a a2065_scheme" where
  "chip_init s0 =
    (let s = rings_reset_loopback_count s0;
         iaddr = push_bit 16 (ucast (csr s 2 AND 0xff)) OR ucast (csr s 1) :: u32;
         off = iaddr AND RAM_MASK;
         rdr = push_bit 16 (ucast (get_ram_word s (off + 18))) OR ucast (get_ram_word s (off + 16)) :: u32;
         tdr = push_bit 16 (ucast (get_ram_word s (off + 22))) OR ucast (get_ram_word s (off + 20)) :: u32;
         fm = [get_ram_byte s (off + 3), get_ram_byte s (off + 2), get_ram_byte s (off + 5),
               get_ram_byte s (off + 4), get_ram_byte s (off + 7), get_ram_byte s (off + 6)]
     in chip_init_mask (s\<lparr>
          am_mode := get_ram_word s (off + 0),
          am_ladrf := push_bit 48 (ucast (get_ram_word s (off + 14))) OR
                      push_bit 32 (ucast (get_ram_word s (off + 12))) OR
                      push_bit 16 (ucast (get_ram_word s (off + 10))) OR
                      ucast (get_ram_word s (off + 8)),
          am_rdr_rlen := push_bit (unat (drop_bit 29 rdr AND 7)) 1,
          am_tdr_tlen := push_bit (unat (drop_bit 29 tdr AND 7)) 1,
          am_rdr_rdra := rdr AND 0x00fffff8,
          am_tdr_tdra := tdr AND 0x00fffff8,
          fakemac := fm,
          mac := mac_set_fakemac fm (mac s)\<rparr>))"

definition rethink :: "('a a2065_scheme) int_cb \<Rightarrow> 'a a2065_scheme \<Rightarrow> 'a a2065_scheme" where
  "rethink on_interrupt s0 =
    (let s = registers_csr0_clr CSR0_INTR s0;
         s = (if has (csr s 0) (CSR0_BABL OR CSR0_MISS OR CSR0_MERR OR CSR0_RINT OR CSR0_TINT OR CSR0_IDON)
              then registers_csr0_set CSR0_INTR s else s)
     in if csr s 0 AND (CSR0_INTR OR CSR0_INEA) = CSR0_INTR OR CSR0_INEA
        then call_int on_interrupt s else s)"

definition chip_wget :: "u8 \<Rightarrow> 'a a2065_scheme \<Rightarrow> u16" where
  "chip_wget reg_offset s =
    (if reg_offset = A2065_RAP_OFF then ucast (rap s)
     else if RAP_SIZE \<le> rap s then 0
     else let v = csr s (unat (rap s));
              v = (if rap s = 0 \<and> has v (CSR0_BABL OR CSR0_CERR OR CSR0_MISS OR CSR0_MERR)
                   then v OR CSR0_ERR else v);
              v = (if rap s = 88 then push_bit (28 - 16) 1 else v);
              v = (if rap s = 89 then 0x3003 else v)
          in v)"

definition csr0_merge :: "u16 \<Rightarrow> u16 \<Rightarrow> u16" where
  "csr0_merge c0 v =
    (let c = c0 AND NOT CSR0_INEA;
         c = c OR (v AND CSR0_INEA);
         c = c OR (v AND (CSR0_INIT OR CSR0_STRT OR CSR0_STOP OR CSR0_TDMD));
         c = c AND NOT (v AND (CSR0_IDON OR CSR0_TINT OR CSR0_RINT OR
                               CSR0_MERR OR CSR0_MISS OR CSR0_CERR OR CSR0_BABL))
     in c AND NOT CSR0_ERR)"

text \<open>\<^verbatim>\<open>if (!(am_mode & MODE_DTX)) csr[0] |= CSR0_TXON; if (!(am_mode & MODE_DRX)) csr[0] |= CSR0_RXON;\<close>\<close>

definition rings_enable :: "'a a2065_scheme \<Rightarrow> 'a a2065_scheme" where
  "rings_enable s0 =
    (let s = (if \<not> has (am_mode s0) MODE_DTX then registers_csr0_set CSR0_TXON s0 else s0)
     in if \<not> has (am_mode s) MODE_DRX then registers_csr0_set CSR0_RXON s else s)"

definition csr0_transition :: "u16 \<Rightarrow> 'a a2065_scheme \<Rightarrow> 'a a2065_scheme" where
  "csr0_transition oreg s =
    (if has (csr s 0) CSR0_STOP \<and> \<not> has oreg CSR0_STOP then
       set_csr 3 0 (set_csr 0 CSR0_STOP s)
     else if has (csr s 0) CSR0_STRT \<and> \<not> has oreg CSR0_STRT \<and> has oreg (CSR0_STOP OR CSR0_INIT) then
       (let s = rings_enable (registers_csr0_clr CSR0_STOP s)
        in if has (csr s 0) CSR0_INIT \<and> \<not> has oreg CSR0_INIT
           then (registers_csr0_set CSR0_IDON (chip_init s))\<lparr>am_initialized := True\<rparr>
           else s)
     else if has (csr s 0) CSR0_INIT \<and> \<not> has oreg CSR0_INIT \<and> has oreg CSR0_STOP then
       set_csr 3 0
         ((registers_csr0_clr (CSR0_RXON OR CSR0_TXON OR CSR0_STOP)
            (registers_csr0_set CSR0_IDON (chip_init s)))\<lparr>am_initialized := True\<rparr>)
     else s)"

definition csr0_demand :: "('a a2065_scheme) tx_cb \<Rightarrow> 'a a2065_scheme \<Rightarrow> ('a a2065_scheme) option" where
  "csr0_demand on_transmit s =
    (if has (csr s 0) CSR0_TDMD then do {
       s \<leftarrow> (if am_initialized s
             then call_tx on_transmit
               (if \<not> has (csr s 0) CSR0_TXON then rings_enable (registers_csr0_clr CSR0_STOP s) else s)
             else Some s);
       Some (registers_csr0_clr CSR0_TDMD s)
     } else Some s)"

definition csr0_write ::
  "('a a2065_scheme) int_cb \<Rightarrow> ('a a2065_scheme) tx_cb \<Rightarrow> u16 \<Rightarrow> 'a a2065_scheme \<Rightarrow> ('a a2065_scheme) option" where
  "csr0_write on_interrupt on_transmit v s =
    (let oreg = csr s 0;
         s = set_csr 0 (csr0_merge oreg v) s
     in map_option (rethink on_interrupt) (csr0_demand on_transmit (csr0_transition oreg s)))"

definition chip_wput ::
  "('a a2065_scheme) int_cb \<Rightarrow> ('a a2065_scheme) tx_cb \<Rightarrow> u8 \<Rightarrow> u16 \<Rightarrow> 'a a2065_scheme \<Rightarrow> ('a a2065_scheme) option" where
  "chip_wput on_interrupt on_transmit reg_offset v s =
    (if reg_offset = A2065_RAP_OFF then Some (s\<lparr>rap := ucast (v AND 0x7f)\<rparr>)
     else if RAP_SIZE \<le> rap s then Some s
     else if rap s = 0 then csr0_write on_interrupt on_transmit v s
     else Some
      (if rap s = 1 then (if has (csr s 0) CSR0_STOP then set_csr 1 (v AND NOT 1) s else s)
       else if rap s = 2 then (if has (csr s 0) CSR0_STOP then set_csr 2 (v AND 0x00ff) s else s)
       else if rap s = 3 then (if has (csr s 0) CSR0_STOP then set_csr 3 (v AND 7) s else s)
       else if rap s = 8 then s\<lparr>am_ladrf := (am_ladrf s AND 0x0000ffffffffffff) OR push_bit 48 (ucast v)\<rparr>
       else if rap s = 9 then s\<lparr>am_ladrf := (am_ladrf s AND 0xffff0000ffffffff) OR push_bit 32 (ucast v)\<rparr>
       else if rap s = 10 then s\<lparr>am_ladrf := (am_ladrf s AND 0xffffffff0000ffff) OR push_bit 16 (ucast v)\<rparr>
       else if rap s = 11 then s\<lparr>am_ladrf := (am_ladrf s AND 0xffffffffffff0000) OR ucast v\<rparr>
       else if rap s = 12 then s\<lparr>fakemac := (fakemac s)[1 := ucast (drop_bit 8 v), 0 := ucast (v AND 0xff)]\<rparr>
       else if rap s = 13 then s\<lparr>fakemac := (fakemac s)[3 := ucast (drop_bit 8 v), 2 := ucast (v AND 0xff)]\<rparr>
       else if rap s = 14 then s\<lparr>fakemac := (fakemac s)[5 := ucast (drop_bit 8 v), 4 := ucast (v AND 0xff)]\<rparr>
       else if rap s = 15 then s\<lparr>am_mode := v\<rparr>
       else if rap s = 24 then
         chip_init_mask (s\<lparr>am_rdr_rdra := (am_rdr_rdra s AND 0xffff0000) OR ucast v\<rparr>)
       else if rap s = 25 then
         chip_init_mask (s\<lparr>am_rdr_rdra := (am_rdr_rdra s AND 0x0000ffff) OR push_bit 16 (ucast v)\<rparr>)
       else if rap s = 30 then
         chip_init_mask (s\<lparr>am_tdr_tdra := (am_tdr_tdra s AND 0xffff0000) OR ucast v\<rparr>)
       else if rap s = 31 then
         chip_init_mask (s\<lparr>am_tdr_tdra := (am_tdr_tdra s AND 0x0000ffff) OR push_bit 16 (ucast v)\<rparr>)
       else if rap s = 76 then s\<lparr>am_rdr_rlen := ucast (- v)\<rparr>
       else if rap s = 78 then s\<lparr>am_tdr_tlen := ucast (- v)\<rparr>
       else if 4 \<le> rap s then set_csr (unat (rap s)) v s
       else s))"

definition registers_reset :: "'a a2065_scheme \<Rightarrow> 'a a2065_scheme" where
  "registers_reset s =
     s\<lparr>csr := (\<lambda>_. 0)(0 := CSR0_STOP, 4 := 0x0115), rap := 0, am_initialized := False,
       tdr_offset := 0, rdr_offset := 0\<rparr>"

section \<open>Invariants\<close>

text \<open>CSR0 never stores the error summary, and a stopped chip has nothing set but the interrupt
  enable and a transmit demand that is being served.\<close>

definition csr0_ok :: "u16 \<Rightarrow> bool" where
  "csr0_ok c \<longleftrightarrow> \<not> has c CSR0_ERR \<and>
     (has c CSR0_STOP \<longrightarrow> \<not> has c (NOT (CSR0_STOP OR CSR0_INEA OR CSR0_TDMD)))"

text \<open>Between register accesses the demand is served and INTR is the summary of the causes.\<close>

definition csr0_settled :: "u16 \<Rightarrow> bool" where
  "csr0_settled c \<longleftrightarrow> csr0_ok c \<and> \<not> has c CSR0_TDMD \<and>
     (has c CSR0_INTR \<longleftrightarrow>
        has c (CSR0_BABL OR CSR0_MISS OR CSR0_MERR OR CSR0_RINT OR CSR0_TINT OR CSR0_IDON))"

definition config_ok :: "'a a2065_scheme \<Rightarrow> bool" where
  "config_ok s \<longleftrightarrow>
     \<not> bit (csr s 1) 0 \<and> csr s 2 \<le> 0xff \<and> csr s 3 \<le> 7 \<and> rap s < RAP_SIZE \<and>
     am_rdr_rdra s \<le> RAM_MASK \<and> am_tdr_tdra s \<le> RAM_MASK \<and>
     length (fakemac s) = 6 \<and> mac_wf (mac s) \<and> crc_inv (crc s) \<and>
     length (transmitbuffer s) = MAX_PACKET_SIZE"

definition chip_busy :: "u32 \<Rightarrow> 'a a2065_scheme \<Rightarrow> bool" where
  "chip_busy base s \<longleftrightarrow> boardram s = base \<and> csr0_ok (csr s 0) \<and> config_ok s"

definition chip_inv :: "u32 \<Rightarrow> 'a a2065_scheme \<Rightarrow> bool" where
  "chip_inv base s \<longleftrightarrow> chip_busy base s \<and> csr0_settled (csr s 0)"

section \<open>Frames\<close>

lemma set_csr_simps [simp]:
  "csr (set_csr n v s) = (csr s)(n := v)"
  "boardram (set_csr n v s) = boardram s" "map_w (set_csr n v s) = map_w s"
  "rap (set_csr n v s) = rap s" "am_mode (set_csr n v s) = am_mode s"
  "am_initialized (set_csr n v s) = am_initialized s"
  by (simp_all add: set_csr_def)

lemma set_csr_fields [simp]:
  "am_ladrf (set_csr n v s) = am_ladrf s"
  "am_rdr_rlen (set_csr n v s) = am_rdr_rlen s"
  "am_rdr_rdra (set_csr n v s) = am_rdr_rdra s"
  "am_tdr_tlen (set_csr n v s) = am_tdr_tlen s"
  "am_tdr_tdra (set_csr n v s) = am_tdr_tdra s"
  "tdr_offset (set_csr n v s) = tdr_offset s"
  "rdr_offset (set_csr n v s) = rdr_offset s"
  "fakemac (set_csr n v s) = fakemac s"
  "mac (set_csr n v s) = mac s"
  "crc (set_csr n v s) = crc s"
  "transmitbuffer (set_csr n v s) = transmitbuffer s"
  "transmitlen (set_csr n v s) = transmitlen s"
  "loopback_iter (set_csr n v s) = loopback_iter s"
  "sock_fd (set_csr n v s) = sock_fd s"
  "host_mac (set_csr n v s) = host_mac s"
  "sent (set_csr n v s) = sent s"
  "am_ladrf (registers_csr0_set v s) = am_ladrf s"
  "am_rdr_rlen (registers_csr0_set v s) = am_rdr_rlen s"
  "am_rdr_rdra (registers_csr0_set v s) = am_rdr_rdra s"
  "am_tdr_tlen (registers_csr0_set v s) = am_tdr_tlen s"
  "am_tdr_tdra (registers_csr0_set v s) = am_tdr_tdra s"
  "tdr_offset (registers_csr0_set v s) = tdr_offset s"
  "rdr_offset (registers_csr0_set v s) = rdr_offset s"
  "fakemac (registers_csr0_set v s) = fakemac s"
  "mac (registers_csr0_set v s) = mac s"
  "crc (registers_csr0_set v s) = crc s"
  "transmitbuffer (registers_csr0_set v s) = transmitbuffer s"
  "transmitlen (registers_csr0_set v s) = transmitlen s"
  "loopback_iter (registers_csr0_set v s) = loopback_iter s"
  "sock_fd (registers_csr0_set v s) = sock_fd s"
  "host_mac (registers_csr0_set v s) = host_mac s"
  "sent (registers_csr0_set v s) = sent s"
  "rap (registers_csr0_set v s) = rap s"
  "am_ladrf (registers_csr0_clr v s) = am_ladrf s"
  "am_rdr_rlen (registers_csr0_clr v s) = am_rdr_rlen s"
  "am_rdr_rdra (registers_csr0_clr v s) = am_rdr_rdra s"
  "am_tdr_tlen (registers_csr0_clr v s) = am_tdr_tlen s"
  "am_tdr_tdra (registers_csr0_clr v s) = am_tdr_tdra s"
  "tdr_offset (registers_csr0_clr v s) = tdr_offset s"
  "rdr_offset (registers_csr0_clr v s) = rdr_offset s"
  "fakemac (registers_csr0_clr v s) = fakemac s"
  "mac (registers_csr0_clr v s) = mac s"
  "crc (registers_csr0_clr v s) = crc s"
  "transmitbuffer (registers_csr0_clr v s) = transmitbuffer s"
  "transmitlen (registers_csr0_clr v s) = transmitlen s"
  "loopback_iter (registers_csr0_clr v s) = loopback_iter s"
  "sock_fd (registers_csr0_clr v s) = sock_fd s"
  "host_mac (registers_csr0_clr v s) = host_mac s"
  "sent (registers_csr0_clr v s) = sent s"
  "rap (registers_csr0_clr v s) = rap s"
  by (simp_all add: set_csr_def registers_csr0_set_def registers_csr0_clr_def)

lemma set_csr_set_csr [simp]: "set_csr n v (set_csr n u s) = set_csr n v s"
  by (simp add: set_csr_def)

lemma set_csr_id [simp]: "set_csr n (csr s n) s = s"
  by (simp add: set_csr_def)

lemma csr0_bits_simps [simp]:
  "csr (registers_csr0_set v s) = (csr s)(0 := csr s 0 OR v)"
  "csr (registers_csr0_clr v s) = (csr s)(0 := csr s 0 AND NOT v)"
  "am_mode (registers_csr0_set v s) = am_mode s" "am_mode (registers_csr0_clr v s) = am_mode s"
  "am_initialized (registers_csr0_set v s) = am_initialized s"
  "am_initialized (registers_csr0_clr v s) = am_initialized s"
  "boardram (registers_csr0_set v s) = boardram s" "boardram (registers_csr0_clr v s) = boardram s"
  by (simp_all add: registers_csr0_set_def registers_csr0_clr_def)

text \<open>\<open>rings_enable\<close> writes one word into CSR0.\<close>

definition enabled :: "u16 \<Rightarrow> u16 \<Rightarrow> u16" where
  "enabled mode c = c OR (if has mode MODE_DTX then 0 else CSR0_TXON) OR (if has mode MODE_DRX then 0 else CSR0_RXON)"

lemma rings_enable_eq: "rings_enable s = set_csr 0 (enabled (am_mode s) (csr s 0)) s"
  by (simp add: rings_enable_def enabled_def registers_csr0_set_def set_csr_def Let_def or.assoc)

lemma chip_init_frame [simp]:
  "csr (chip_init s) = csr s" "boardram (chip_init s) = boardram s" "map_w (chip_init s) = map_w s"
  "rap (chip_init s) = rap s" "crc (chip_init s) = crc s" "transmitbuffer (chip_init s) = transmitbuffer s"
  "am_initialized (chip_init s) = am_initialized s" "sent (chip_init s) = sent s"
  "mac (chip_init s) = mac_set_fakemac (fakemac (chip_init s)) (mac s)"
  "length (fakemac (chip_init s)) = 6"
  "tdr_offset (chip_init s) = 0" "rdr_offset (chip_init s) = 0" "loopback_iter (chip_init s) = 0"
  by (simp_all add: chip_init_def chip_init_mask_def rings_reset_loopback_count_def Let_def)

lemma and_RAM_MASK_le: "x AND RAM_MASK \<le> RAM_MASK" for x :: u32
  by (rule word_and_le1)

lemma chip_init_config: "config_ok s \<Longrightarrow> config_ok (chip_init s)"
  by (simp add: config_ok_def mac_wf_def mac_set_fakemac_def)
    (simp add: chip_init_def chip_init_mask_def Let_def and_RAM_MASK_le)

lemma config_ok_set_csr0 [simp]: "config_ok (set_csr 0 v s) = config_ok s"
  by (simp add: config_ok_def set_csr_def)

lemma config_ok_initialized [simp]: "config_ok (s\<lparr>am_initialized := b\<rparr>) = config_ok s"
  by (simp add: config_ok_def)

lemma config_ok_csr0_bits [simp]:
  "config_ok (registers_csr0_set v s) = config_ok s" "config_ok (registers_csr0_clr v s) = config_ok s"
  by (simp_all add: registers_csr0_set_def registers_csr0_clr_def)

lemma same_chip_inv:
  "same_chip s t \<Longrightarrow> chip_busy base s = chip_busy base t \<and> chip_inv base s = chip_inv base t"
  by (simp add: same_chip_def chip_busy_def chip_inv_def config_ok_def)

section \<open>The interrupt line\<close>

definition intr_of :: "u16 \<Rightarrow> u16" where
  "intr_of c = (if has c (CSR0_BABL OR CSR0_MISS OR CSR0_MERR OR CSR0_RINT OR CSR0_TINT OR CSR0_IDON)
                then c OR CSR0_INTR else c AND NOT CSR0_INTR)"

lemma intr_of_settled: "csr0_ok c \<Longrightarrow> \<not> has c CSR0_TDMD \<Longrightarrow> csr0_settled (intr_of c)"
  by (auto simp: csr0_settled_def csr0_ok_def intr_of_def flag_bits)

lemma intr_of_ok: "csr0_ok c \<Longrightarrow> csr0_ok (intr_of c)"
  by (auto simp: csr0_ok_def intr_of_def flag_bits)

lemma rethink_eq:
  "rethink on_int s =
    (let t = set_csr 0 (intr_of (csr s 0)) s
     in if has (csr t 0) CSR0_INTR \<and> has (csr t 0) CSR0_INEA then call_int on_int t else t)"
proof -
  define m where "m = CSR0_BABL OR CSR0_MISS OR CSR0_MERR OR CSR0_RINT OR CSR0_TINT OR CSR0_IDON"
  have set_clr: "c AND NOT CSR0_INTR OR CSR0_INTR = c OR CSR0_INTR" for c
    by (auto simp: flag_bits)
  have has_m: "has (c AND NOT CSR0_INTR) m = has c m" for c
    by (auto simp: m_def flag_bits)
  have both: "c AND (CSR0_INTR OR CSR0_INEA) = CSR0_INTR OR CSR0_INEA \<longleftrightarrow> has c CSR0_INTR \<and> has c CSR0_INEA" for c
    by (auto simp: flag_bits)
  show ?thesis
    unfolding rethink_def intr_of_def both m_def [symmetric] Let_def
    by (simp only: registers_csr0_set_def registers_csr0_clr_def set_csr_simps set_csr_set_csr
        fun_upd_same has_m set_clr if_distrib [of "\<lambda>c. set_csr 0 c s"] if_split_eq1 cong: if_cong)
      (auto simp: registers_csr0_set_def)
qed

lemma same_chip_sym: "same_chip s t \<Longrightarrow> same_chip t s"
  by (simp add: same_chip_def)

lemma same_chip_trans: "same_chip s t \<Longrightarrow> same_chip t u \<Longrightarrow> same_chip s u"
  by (simp add: same_chip_def)

context int_callback
begin

lemma rethink_chip: "boardram s = base \<Longrightarrow> same_chip (rethink on_int s) (set_csr 0 (intr_of (csr s 0)) s)"
  unfolding rethink_eq Let_def by (auto intro: int_frame)

lemma rethink_busy: "chip_busy base s \<Longrightarrow> chip_busy base (rethink on_int s)"
  using same_chip_inv [OF rethink_chip [of s], of base] by (simp add: chip_busy_def intr_of_ok)

lemma rethink_inv: "chip_busy base s \<Longrightarrow> \<not> has (csr s 0) CSR0_TDMD \<Longrightarrow> chip_inv base (rethink on_int s)"
  using same_chip_inv [OF rethink_chip [of s], of base]
  by (simp add: chip_inv_def chip_busy_def intr_of_settled intr_of_ok)

end

section \<open>Register accesses preserve the invariant\<close>

text \<open>What the register file relies on of the transmit callback: called on a running chip,
  it leaves the chip consistent.\<close>

locale tx_callback = int_callback on_int base
  for on_int :: "('a a2065_scheme) int_cb" and base :: u32 +
  fixes on_tx :: "('a a2065_scheme) tx_cb"
  assumes tx_busy:
    "chip_busy base s \<Longrightarrow> \<not> has (csr s 0) CSR0_STOP \<Longrightarrow> call_tx on_tx s = Some t \<Longrightarrow> chip_busy base t"

lemma transition_csr0_ok:
  assumes "csr0_ok c"
  shows "csr0_ok (csr (csr0_transition c (set_csr 0 (csr0_merge c v) s)) 0)"
proof -
  have err: "\<not> bit (csr0_merge c v) 15" by (simp add: csr0_merge_def Let_def flag_bits)
  have ok: "csr0_ok (csr0_merge c v)"
    if "\<not> (has (csr0_merge c v) CSR0_STOP \<and> \<not> has c CSR0_STOP)"
      "\<not> (has (csr0_merge c v) CSR0_STRT \<and> \<not> has c CSR0_STRT \<and> has c (CSR0_STOP OR CSR0_INIT))"
      "\<not> (has (csr0_merge c v) CSR0_INIT \<and> \<not> has c CSR0_INIT \<and> has c CSR0_STOP)"
    using assms that by (auto simp: csr0_ok_def csr0_merge_def Let_def flag_bits)
  have run: "csr0_ok (enabled mode (m AND NOT CSR0_STOP))" "csr0_ok (enabled mode (m AND NOT CSR0_STOP) OR CSR0_IDON)"
    "csr0_ok ((m OR CSR0_IDON) AND NOT (CSR0_RXON OR CSR0_TXON OR CSR0_STOP))" "csr0_ok CSR0_STOP"
    if "\<not> bit m 15" for m mode
    using that by (simp_all add: csr0_ok_def enabled_def flag_bits)
  show ?thesis
    unfolding csr0_transition_def Let_def
    by (auto simp: rings_enable_eq ok run [OF err, simplified])
qed

lemma transition_config:
  assumes "config_ok s"
  shows "config_ok (csr0_transition c s)"
proof -
  have csr3: "config_ok (set_csr 3 0 t)" if "config_ok t" for t :: "'a a2065_scheme"
    using that by (simp add: config_ok_def set_csr_def)
  show ?thesis
    unfolding csr0_transition_def Let_def
    using assms by (auto intro!: csr3 chip_init_config simp: rings_enable_eq)
qed

lemma transition_boardram [simp]: "boardram (csr0_transition c s) = boardram s"
  by (simp add: csr0_transition_def Let_def rings_enable_eq)

lemma clr_TDMD_ok: "csr0_ok c \<Longrightarrow> csr0_ok (c AND NOT CSR0_TDMD)"
  by (auto simp: csr0_ok_def flag_bits)

lemma started_ok: "csr0_ok c \<Longrightarrow> csr0_ok (enabled mode (c AND NOT CSR0_STOP))"
  by (auto simp: csr0_ok_def enabled_def flag_bits)

lemma started_not_STOP: "\<not> has (enabled mode (c AND NOT CSR0_STOP)) CSR0_STOP"
  by (auto simp: enabled_def flag_bits)

lemma TXON_not_STOP: "csr0_ok c \<Longrightarrow> has c CSR0_TXON \<Longrightarrow> \<not> has c CSR0_STOP"
  by (auto simp: csr0_ok_def flag_bits)

text \<open>The state on which the transmit callback runs.\<close>

definition demanded :: "'a a2065_scheme \<Rightarrow> 'a a2065_scheme" where
  "demanded s = (if \<not> has (csr s 0) CSR0_TXON then rings_enable (registers_csr0_clr CSR0_STOP s) else s)"

lemma demanded_busy:
  assumes "chip_busy base s"
  shows "chip_busy base (demanded s)" and "\<not> has (csr (demanded s) 0) CSR0_STOP"
  using assms started_ok [of "csr s 0", simplified] started_not_STOP [simplified] TXON_not_STOP [of "csr s 0"]
  by (auto simp: demanded_def chip_busy_def rings_enable_eq)

context tx_callback
begin

lemma demand_busy:
  assumes s: "chip_busy base s" and t: "csr0_demand on_tx s = Some t"
  shows "chip_busy base t" and "\<not> has (csr t 0) CSR0_TDMD"
proof -
  have clr: "chip_busy base u \<Longrightarrow> chip_busy base (registers_csr0_clr CSR0_TDMD u)" for u :: "'a a2065_scheme"
    using clr_TDMD_ok [of "csr u 0"] by (simp add: chip_busy_def)
  have tx: "call_tx on_tx (demanded s) = Some u \<Longrightarrow> chip_busy base u" for u
    using tx_busy demanded_busy [OF s] by blast
  show "chip_busy base t"
    using t s clr tx unfolding csr0_demand_def demanded_def [symmetric]
    by (auto split: if_splits bind_splits)
  have "\<not> has (c AND NOT CSR0_TDMD) CSR0_TDMD" for c
    by (simp add: flag_bits)
  then show "\<not> has (csr t 0) CSR0_TDMD"
    using t unfolding csr0_demand_def
    by (auto split: if_splits bind_splits)
qed

lemma csr0_write_inv:
  assumes "chip_busy base s" and "csr0_write on_int on_tx v s = Some t"
  shows "chip_inv base t"
proof -
  let ?u = "csr0_transition (csr s 0) (set_csr 0 (csr0_merge (csr s 0) v) s)"
  have "chip_busy base ?u"
    using assms(1) by (auto simp: chip_busy_def intro: transition_csr0_ok transition_config)
  moreover obtain u where "csr0_demand on_tx ?u = Some u" and t: "t = rethink on_int u"
    using assms(2) by (auto simp: csr0_write_def Let_def)
  ultimately show ?thesis
    using demand_busy rethink_inv by blast
qed

end

lemma config_ok_csr:
  "config_ok s \<Longrightarrow> config_ok (set_csr 1 (v AND NOT 1) s)"
  "config_ok s \<Longrightarrow> config_ok (set_csr 2 (v AND 0x00ff) s)"
  "config_ok s \<Longrightarrow> config_ok (set_csr 3 (v AND 7) s)"
  "config_ok s \<Longrightarrow> 4 \<le> n \<Longrightarrow> config_ok (set_csr n v s)"
  by (auto simp: config_ok_def set_csr_def bit_and_iff bit_not_iff intro: word_and_le1)

lemma config_ok_chip_init_mask:
  "config_ok s \<Longrightarrow> config_ok (chip_init_mask (s\<lparr>am_rdr_rdra := x\<rparr>))"
  "config_ok s \<Longrightarrow> config_ok (chip_init_mask (s\<lparr>am_tdr_tdra := x\<rparr>))"
  by (simp_all add: config_ok_def chip_init_mask_def and_RAM_MASK_le)

lemma config_ok_fields:
  "config_ok s \<Longrightarrow> config_ok (s\<lparr>am_ladrf := l\<rparr>)" "config_ok s \<Longrightarrow> config_ok (s\<lparr>am_mode := m\<rparr>)"
  "config_ok s \<Longrightarrow> config_ok (s\<lparr>am_rdr_rlen := x\<rparr>)" "config_ok s \<Longrightarrow> config_ok (s\<lparr>am_tdr_tlen := x\<rparr>)"
  "config_ok s \<Longrightarrow> config_ok (s\<lparr>fakemac := (fakemac s)[i := a, j := b]\<rparr>)"
  by (simp_all add: config_ok_def)

lemma rap_write_less: "ucast (v AND 0x7f) < RAP_SIZE" for v :: u16
proof -
  have "unat (v AND 0x7f) \<le> unat (0x7f :: u16)"
    by (simp only: word_le_nat_alt [symmetric] word_and_le1)
  then have "unat (v AND 0x7f) \<le> 127" by simp
  then have "unat (ucast (v AND 0x7f) :: u8) \<le> 127"
    by (simp add: unsigned_ucast_eq take_bit_eq_mod)
  then show ?thesis by (simp add: word_less_nat_alt)
qed

text \<open>The writes other than CSR0 as a function of their own.\<close>

lemma chip_wput_other_inv:
  assumes inv: "chip_inv base s" and "rap s \<noteq> 0 \<or> r = A2065_RAP_OFF" and put: "chip_wput oi ot r v s = Some t"
  shows "chip_inv base t"
proof -
  have keep: "chip_inv base t" if "boardram t = boardram s" "csr t 0 = csr s 0" "config_ok t"
    using inv that by (simp add: chip_inv_def chip_busy_def)
  have conf: "config_ok s"
    using inv by (simp add: chip_inv_def chip_busy_def)
  have rap4: "4 \<le> unat (rap s)" if "4 \<le> rap s"
    using that by (simp add: word_le_nat_alt)
  show ?thesis
  proof (rule keep)
    show "boardram t = boardram s" "csr t 0 = csr s 0"
      using put assms(2) rap4
      by (auto simp: chip_wput_def chip_init_mask_def word_le_nat_alt split: if_splits)
    show "config_ok t"
    proof (cases "r = A2065_RAP_OFF")
      case True
      then show ?thesis
        using put conf by (auto simp: chip_wput_def config_ok_def rap_write_less)
    next
      case False
      then show ?thesis
        using put assms(2) conf config_ok_csr [OF conf] config_ok_chip_init_mask [OF conf] config_ok_fields [OF conf] rap4
        by (auto simp: chip_wput_def split: if_splits)
    qed
  qed
qed

context tx_callback
begin

lemma chip_wput_inv:
  assumes "chip_inv base s" and "chip_wput on_int on_tx r v s = Some t"
  shows "chip_inv base t"
proof (cases "rap s = 0 \<and> r \<noteq> A2065_RAP_OFF")
  case True
  then have "csr0_write on_int on_tx v s = Some t"
    using assms(2) by (simp add: chip_wput_def)
  then show ?thesis
    using csr0_write_inv assms(1) by (auto simp: chip_inv_def)
next
  case False
  then show ?thesis
    using chip_wput_other_inv assms by blast
qed

end

section \<open>Behaviour of single accesses\<close>

text \<open>The zero-initialised variables of the program image, the window mapped and cleared, and
  the register file reset.\<close>

definition static_init :: "u32 \<Rightarrow> a2065" where
  "static_init base =
     \<lparr>map_w = \<lambda>_. 0, boardram = base, csr = \<lambda>_. 0, rap = 0, am_initialized = False, am_mode = 0,
      am_ladrf = 0, am_rdr_rlen = 0, am_rdr_rdra = 0, am_tdr_tlen = 0, am_tdr_tdra = 0,
      tdr_offset = 0, rdr_offset = 0, fakemac = replicate 6 0,
      mac = \<lparr>mac_fakemac = replicate 6 0, mac_realmac = replicate 6 0\<rparr>, crc = crc_unit0,
      transmitbuffer = replicate MAX_PACKET_SIZE 0, transmitlen = 0, loopback_iter = 0,
      sock_fd = -1, host_mac = replicate 6 0, sent = []\<rparr>"

lemma registers_reset_inv:
  assumes "boardram s = base" and "config_ok s"
  shows "chip_inv base (registers_reset s)"
  using assms
  by (simp add: chip_inv_def chip_busy_def config_ok_def registers_reset_def csr0_settled_def csr0_ok_def has_def)

lemma static_init_config: "config_ok (static_init base)"
  by (simp add: static_init_def config_ok_def mac_wf_def)

lemma reset_static_inv: "chip_inv base (registers_reset (static_init base))"
  using registers_reset_inv [OF _ static_init_config] by (simp add: static_init_def)

lemma transition_none:
  assumes "\<not> (has (csr s 0) CSR0_STOP \<and> \<not> has c CSR0_STOP)"
    and "\<not> (has (csr s 0) CSR0_STRT \<and> \<not> has c CSR0_STRT \<and> has c (CSR0_STOP OR CSR0_INIT))"
    and "\<not> (has (csr s 0) CSR0_INIT \<and> \<not> has c CSR0_INIT \<and> has c CSR0_STOP)"
  shows "csr0_transition c s = s"
  unfolding csr0_transition_def using assms by (simp only: if_False)

text \<open>Writing the register address port and reading it back returns the low seven bits of what
  was written, so the selected register always exists, and nothing else changes.\<close>

theorem rap_round_trip:
  "\<exists>t. chip_wput oi ot A2065_RAP_OFF v s = Some t \<and> chip_wget A2065_RAP_OFF t = v AND 0x7f \<and>
       rap t < RAP_SIZE \<and> t\<lparr>rap := rap s\<rparr> = s"
proof -
  have "v AND (0x7f :: u16) = take_bit 7 v" by (simp add: take_bit_eq_mask mask_eq_exp_minus_1)
  moreover have "ucast (ucast (take_bit 7 v) :: u8) = take_bit 7 v"
    by (rule bit_word_eqI) (auto simp: bit_simps)
  ultimately have "ucast (ucast (v AND 0x7f) :: u8) = v AND (0x7f :: u16)"
    by simp
  then show ?thesis
    by (simp add: chip_wput_def chip_wget_def rap_write_less)
qed



text \<open>C33: a write to CSR0 that sets none of INIT, STRT, STOP and TDMD acknowledges exactly the status
  bits written as one, takes the interrupt enable from the value, keeps the other bits, and
  recomputes the interrupt line.\<close>

theorem csr0_acknowledge:
  assumes "rap s = 0" and "csr0_settled (csr s 0)"
    and "\<not> has v (CSR0_INIT OR CSR0_STRT OR CSR0_STOP OR CSR0_TDMD)"
  shows "chip_wput oi ot A2065_RDP_OFF v s =
    Some (rethink oi (set_csr 0 (csr s 0 AND NOT CSR0_INEA AND NOT (v AND 0x7F00) OR (v AND CSR0_INEA)) s))"
proof -
  let ?c = "csr0_merge (csr s 0) v"
  have c: "?c = csr s 0 AND NOT CSR0_INEA AND NOT (v AND 0x7F00) OR (v AND CSR0_INEA)"
    using assms(2,3) by (auto simp: csr0_settled_def csr0_ok_def csr0_merge_def Let_def flag_bits)
  have "has ?c CSR0_STOP = has (csr s 0) CSR0_STOP" "has ?c CSR0_STRT = has (csr s 0) CSR0_STRT"
    "has ?c CSR0_INIT = has (csr s 0) CSR0_INIT" "\<not> has ?c CSR0_TDMD"
    using assms(2,3) by (auto simp: c csr0_settled_def flag_bits)
  moreover from this have "csr0_transition (csr s 0) (set_csr 0 ?c s) = set_csr 0 ?c s"
    by (intro transition_none) auto
  ultimately show ?thesis
    unfolding c [symmetric]
    using assms(1) by (simp add: chip_wput_def csr0_write_def csr0_demand_def Let_def)
qed

theorem csr0_acknowledge_witness:
  "\<exists>t. chip_wput None None A2065_RDP_OFF (CSR0_RINT OR CSR0_INEA) (set_csr 0 0x06F3 (static_init 0)) = Some t \<and>
       csr t 0 = 0x02F3"
  using csr0_acknowledge [of "set_csr 0 0x06F3 (static_init 0)" "CSR0_RINT OR CSR0_INEA" None None]
  by (simp add: static_init_def csr0_settled_def csr0_ok_def has_def rethink_def call_int_def)

text \<open>CSR1, CSR2 and CSR3 can be written only while the chip is stopped; then they read back
  with the bits the hardware does not have forced to zero, and otherwise the write is ignored.\<close>

theorem csr123_protected:
  assumes "rap s = r" and "r \<in> {1, 2, 3}"
  shows "chip_wput oi ot A2065_RDP_OFF v s =
      Some (if has (csr s 0) CSR0_STOP
            then set_csr (unat r) (v AND (if r = 1 then NOT 1 else if r = 2 then 0x00FF else 0x0007)) s else s)"
proof -
  have "chip_wput oi ot A2065_RDP_OFF v s = Some (if has (csr s 0) CSR0_STOP then set_csr 1 (v AND NOT 1) s else s)"
    if "rap s = 1"
    using that by (simp add: chip_wput_def word_le_nat_alt)
  moreover have "chip_wput oi ot A2065_RDP_OFF v s = Some (if has (csr s 0) CSR0_STOP then set_csr 2 (v AND 0xff) s else s)"
    if "rap s = 2"
    using that by (simp add: chip_wput_def)
  moreover have "chip_wput oi ot A2065_RDP_OFF v s = Some (if has (csr s 0) CSR0_STOP then set_csr 3 (v AND 7) s else s)"
    if "rap s = 3"
    using that by (simp add: chip_wput_def)
  ultimately show ?thesis
    using assms by (elim insertE) simp_all
qed

theorem csr123_protected_witness:
  "chip_wput None None A2065_RDP_OFF 0x1235 (registers_reset (static_init 0)\<lparr>rap := 1\<rparr>) =
     Some (set_csr 1 0x1234 (registers_reset (static_init 0)\<lparr>rap := 1\<rparr>))"
  using csr123_protected [where s = "registers_reset (static_init 0)\<lparr>rap := 1\<rparr>" and r = 1 and oi = None and ot = None and v = "0x1235"]
  by (simp add: registers_reset_def has_def)

text \<open>A read of CSR0 adds the ERR summary of BABL, CERR, MISS and MERR to the stored value, and
  with the invariant this is the only source of that bit; the stored value is not changed.\<close>

theorem csr0_read_summary:
  assumes "chip_inv base s" and "rap s = 0"
  shows "(has (chip_wget A2065_RDP_OFF s) CSR0_ERR \<longleftrightarrow>
      has (csr s 0) (CSR0_BABL OR CSR0_CERR OR CSR0_MISS OR CSR0_MERR)) \<and>
    chip_wget A2065_RDP_OFF s AND NOT CSR0_ERR = csr s 0"
proof (intro conjI)
  have e: "\<not> has (csr s 0) CSR0_ERR"
    using assms(1) by (simp add: chip_inv_def chip_busy_def csr0_ok_def)
  define c where "c = csr s 0"
  have w: "chip_wget A2065_RDP_OFF s = (if has c 0x7800 then c OR CSR0_ERR else c)"
    using assms(2) by (simp add: chip_wget_def c_def)
  show "has (chip_wget A2065_RDP_OFF s) CSR0_ERR \<longleftrightarrow>
      has (csr s 0) (CSR0_BABL OR CSR0_CERR OR CSR0_MISS OR CSR0_MERR)"
    using e by (simp add: w c_def [symmetric]) (auto simp: flag_bits)
  show "chip_wget A2065_RDP_OFF s AND NOT CSR0_ERR = csr s 0"
    using e by (simp add: w c_def [symmetric]) (auto simp: flag_bits)
qed

theorem csr0_read_summary_witness:
  "\<not> has (chip_wget A2065_RDP_OFF (registers_reset (static_init 0))) CSR0_ERR \<and>
   chip_wget A2065_RDP_OFF (registers_reset (static_init 0)) AND NOT CSR0_ERR = CSR0_STOP"
  using csr0_read_summary [OF reset_static_inv [of 0]] by (simp add: registers_reset_def has_def)

section \<open>The initialisation block\<close>

text \<open>The block as the driver builds it in the 68k's memory (24 bytes, Am7990 layout): mode,
  station address as byte-swapped pairs, logical address filter as four words with the low word
  first, and for each ring the low address word, then length code and high address bits.\<close>

record init_block =
  ib_mode :: u16
  ib_mac :: "u8 list"
  ib_ladrf :: "u16 list"
  ib_rdra :: u32
  ib_rlen :: nat
  ib_tdra :: u32
  ib_tlen :: nat

definition init_block_ok :: "init_block \<Rightarrow> bool" where
  "init_block_ok ib \<longleftrightarrow> length (ib_mac ib) = 6 \<and> length (ib_ladrf ib) = 4 \<and> ib_rlen ib < 8 \<and> ib_tlen ib < 8"

definition word_bytes :: "u16 \<Rightarrow> u8 list" where
  "word_bytes v = [ucast (drop_bit 8 v), ucast v]"

definition ring_words :: "u32 \<Rightarrow> nat \<Rightarrow> u16 list" where
  "ring_words a l = [ucast a, push_bit 13 (of_nat l) OR (ucast (drop_bit 16 a) AND 0xff)]"

definition init_block_bytes :: "init_block \<Rightarrow> u8 list" where
  "init_block_bytes ib =
     word_bytes (ib_mode ib) @
     [ib_mac ib ! 1, ib_mac ib ! 0, ib_mac ib ! 3, ib_mac ib ! 2, ib_mac ib ! 5, ib_mac ib ! 4] @
     concat (map word_bytes (ib_ladrf ib)) @
     concat (map word_bytes (ring_words (ib_rdra ib) (ib_rlen ib))) @
     concat (map word_bytes (ring_words (ib_tdra ib) (ib_tlen ib)))"

definition init_off :: "'a a2065_scheme \<Rightarrow> u32" where
  "init_off s = (push_bit 16 (ucast (csr s 2 AND 0xff)) OR ucast (csr s 1)) AND RAM_MASK"

lemma word_bytes_join: "push_bit 8 (ucast (ucast (drop_bit 8 v) :: u8)) OR ucast (ucast v :: u8) = (v :: u16)"
  by (rule u16_halves)

lemma list4: "length xs = 4 \<Longrightarrow> xs = [xs ! 0, xs ! 1, xs ! 2, xs ! 3]"
  by (rule nth_equalityI) (auto simp: nth_Cons' numeral_eq_Suc less_Suc_eq)

lemma list6: "length xs = 6 \<Longrightarrow> xs = [xs ! 0, xs ! 1, xs ! 2, xs ! 3, xs ! 4, xs ! 5]"
  by (rule nth_equalityI) (auto simp: nth_Cons' numeral_eq_Suc less_Suc_eq)

lemma block_at_byte: "block_at f a n = bs \<Longrightarrow> i < n \<Longrightarrow> f (a + of_nat i) = bs ! i"
  by (auto simp: block_at_def)

lemma init_block_word:
  assumes "block_at (ram_view s) (ucast off) 24 = bs" and "i + 1 < 24"
  shows "get_ram_word s (off + of_nat i) = push_bit 8 (ucast (bs ! i)) OR ucast (bs ! (i + 1))"
  using block_at_byte [OF assms(1), of i] block_at_byte [OF assms(1), of "i + 1"] assms(2)
  by (simp add: flat.get_w_view word_at_def add.assoc [symmetric]) (simp add: add.commute add.left_commute)

lemma init_block_byte:
  assumes "block_at (ram_view s) (ucast off) 24 = bs" and "i < 24"
  shows "get_ram_byte s (off + of_nat i) = bs ! i"
  using block_at_byte [OF assms(1), of i] assms(2) by (simp add: flat.get_view)

text \<open>Decoding a ring pointer: length code and address.\<close>

definition ring_ptr :: "u32 \<Rightarrow> nat \<Rightarrow> u32" where
  "ring_ptr a l = push_bit 16 (ucast (push_bit 13 (of_nat l) OR (ucast (drop_bit 16 a) AND 0xff) :: u16)) OR ucast (ucast a :: u16)"

lemma bit_low_masks:
  "bit (0xff :: int) n \<longleftrightarrow> n < 8" "bit (7 :: int) n \<longleftrightarrow> n < 3" "bit (0x00fffff8 :: int) n \<longleftrightarrow> 3 \<le> n \<and> n < 24"
proof -
  have e: "(0xff :: int) = mask 8" "(7 :: int) = mask 3" "(0x00fffff8 :: int) = push_bit 3 (mask 21)"
    by (simp_all add: mask_eq_exp_minus_1 push_bit_eq_mult)
  show "bit (0xff :: int) n \<longleftrightarrow> n < 8" "bit (7 :: int) n \<longleftrightarrow> n < 3" "bit (0x00fffff8 :: int) n \<longleftrightarrow> 3 \<le> n \<and> n < 24"
    unfolding e by (auto simp: bit_simps)
qed

lemma ring_ptr_bit:
  "bit (ring_ptr a l) n \<longleftrightarrow> n < 24 \<and> bit a n \<or> 29 \<le> n \<and> n < 32 \<and> bit l (n - 29)"
  unfolding ring_ptr_def by (auto simp: bit_simps bit_low_masks dest: bit_imp_le_length)

lemma ring_decode_addr: "ring_ptr a l AND 0x00fffff8 = a AND 0x00fffff8"
  by (rule bit_word_eqI) (auto simp: bit_and_iff ring_ptr_bit bit_low_masks)

lemma ring_decode_len: "l < 8 \<Longrightarrow> unat (drop_bit 29 (ring_ptr a l) AND 7) = l"
proof -
  assume l: "l < 8"
  have "drop_bit 29 (ring_ptr a l) AND 7 = take_bit 3 (of_nat l)"
    by (rule bit_word_eqI) (auto simp: bit_simps ring_ptr_bit bit_low_masks)
  then show ?thesis
    using l by (simp add: take_bit_eq_mod unat_mod unat_of_nat)
qed

lemma bytes_nth:
  assumes "init_block_ok ib"
  shows "init_block_bytes ib =
    [ucast (drop_bit 8 (ib_mode ib)), ucast (ib_mode ib),
     ib_mac ib ! 1, ib_mac ib ! 0, ib_mac ib ! 3, ib_mac ib ! 2, ib_mac ib ! 5, ib_mac ib ! 4,
     ucast (drop_bit 8 (ib_ladrf ib ! 0)), ucast (ib_ladrf ib ! 0), ucast (drop_bit 8 (ib_ladrf ib ! 1)), ucast (ib_ladrf ib ! 1),
     ucast (drop_bit 8 (ib_ladrf ib ! 2)), ucast (ib_ladrf ib ! 2), ucast (drop_bit 8 (ib_ladrf ib ! 3)), ucast (ib_ladrf ib ! 3),
     ucast (drop_bit 8 (ring_words (ib_rdra ib) (ib_rlen ib) ! 0)), ucast (ring_words (ib_rdra ib) (ib_rlen ib) ! 0),
     ucast (drop_bit 8 (ring_words (ib_rdra ib) (ib_rlen ib) ! 1)), ucast (ring_words (ib_rdra ib) (ib_rlen ib) ! 1),
     ucast (drop_bit 8 (ring_words (ib_tdra ib) (ib_tlen ib) ! 0)), ucast (ring_words (ib_tdra ib) (ib_tlen ib) ! 0),
     ucast (drop_bit 8 (ring_words (ib_tdra ib) (ib_tlen ib) ! 1)), ucast (ring_words (ib_tdra ib) (ib_tlen ib) ! 1)]"
proof -
  have "ib_ladrf ib = [ib_ladrf ib ! 0, ib_ladrf ib ! 1, ib_ladrf ib ! 2, ib_ladrf ib ! 3]"
    using assms by (intro list4) (simp add: init_block_ok_def)
  then have "concat (map word_bytes (ib_ladrf ib)) =
      concat (map word_bytes [ib_ladrf ib ! 0, ib_ladrf ib ! 1, ib_ladrf ib ! 2, ib_ladrf ib ! 3])"
    by (rule arg_cong)
  moreover have "concat (map word_bytes (ring_words a l)) = word_bytes (ring_words a l ! 0) @ word_bytes (ring_words a l ! 1)" for a l
    by (simp add: ring_words_def)
  ultimately show ?thesis
    unfolding init_block_bytes_def by (simp only:) (simp add: word_bytes_def)
qed

text \<open>C8: initialisation reads back exactly the block the driver built: mode, station address (which the
  translation unit learns too), logical address filter, ring lengths as powers of two and ring
  addresses, aligned to eight bytes and taken modulo the board RAM; both rings restart at entry 0.\<close>

theorem chip_init_decodes:
  assumes "init_block_ok ib"
    and "block_at (ram_view s) (ucast (init_off s)) 24 = init_block_bytes ib"
  shows "am_mode (chip_init s) = ib_mode ib \<and> fakemac (chip_init s) = ib_mac ib \<and>
    mac_fakemac (mac (chip_init s)) = ib_mac ib \<and>
    am_ladrf (chip_init s) = push_bit 48 (ucast (ib_ladrf ib ! 3)) OR push_bit 32 (ucast (ib_ladrf ib ! 2)) OR
      push_bit 16 (ucast (ib_ladrf ib ! 1)) OR ucast (ib_ladrf ib ! 0) \<and>
    am_rdr_rlen (chip_init s) = 2 ^ ib_rlen ib \<and> am_tdr_tlen (chip_init s) = 2 ^ ib_tlen ib \<and>
    am_rdr_rdra (chip_init s) = ib_rdra ib AND 0x7FF8 \<and>
    am_tdr_tdra (chip_init s) = ib_tdra ib AND 0x7FF8 \<and>
    rdr_offset (chip_init s) = 0 \<and> tdr_offset (chip_init s) = 0"
proof -
  define off where "off = init_off s"
  define u where "u = rings_reset_loopback_count s"
  have view: "block_at (ram_view u) (ucast off) 24 = init_block_bytes ib"
    using assms(2) by (simp add: u_def off_def rings_reset_loopback_count_def ram_view_def [abs_def])
  have words: "get_ram_word u (off + 0) = ib_mode ib"
    "get_ram_word u (off + 8) = ib_ladrf ib ! 0" "get_ram_word u (off + 10) = ib_ladrf ib ! 1"
    "get_ram_word u (off + 12) = ib_ladrf ib ! 2" "get_ram_word u (off + 14) = ib_ladrf ib ! 3"
    "get_ram_word u (off + 16) = ring_words (ib_rdra ib) (ib_rlen ib) ! 0"
    "get_ram_word u (off + 18) = ring_words (ib_rdra ib) (ib_rlen ib) ! 1"
    "get_ram_word u (off + 20) = ring_words (ib_tdra ib) (ib_tlen ib) ! 0"
    "get_ram_word u (off + 22) = ring_words (ib_tdra ib) (ib_tlen ib) ! 1"
    using init_block_word [OF view, of 0] init_block_word [OF view, of 8] init_block_word [OF view, of 10]
      init_block_word [OF view, of 12] init_block_word [OF view, of 14] init_block_word [OF view, of 16]
      init_block_word [OF view, of 18] init_block_word [OF view, of 20] init_block_word [OF view, of 22]
    by (simp_all add: bytes_nth [OF assms(1)] word_bytes_join)
  have bytes: "get_ram_byte u (off + 2) = ib_mac ib ! 1" "get_ram_byte u (off + 3) = ib_mac ib ! 0"
    "get_ram_byte u (off + 4) = ib_mac ib ! 3" "get_ram_byte u (off + 5) = ib_mac ib ! 2"
    "get_ram_byte u (off + 6) = ib_mac ib ! 5" "get_ram_byte u (off + 7) = ib_mac ib ! 4"
    using init_block_byte [OF view, of 2] init_block_byte [OF view, of 3] init_block_byte [OF view, of 4]
      init_block_byte [OF view, of 5] init_block_byte [OF view, of 6] init_block_byte [OF view, of 7]
    by (simp_all add: bytes_nth [OF assms(1)])
  have "(push_bit 16 (ucast (csr u 2 AND 0xff)) OR ucast (csr u 1)) AND RAM_MASK = off"
    by (simp add: u_def off_def init_off_def rings_reset_loopback_count_def)
  moreover have "[ib_mac ib ! 0, ib_mac ib ! 1, ib_mac ib ! 2, ib_mac ib ! 3, ib_mac ib ! 4, ib_mac ib ! 5] = ib_mac ib"
    by (rule list6 [symmetric]) (use assms(1) in \<open>simp add: init_block_ok_def\<close>)
  ultimately show ?thesis
    using assms(1) unfolding chip_init_def Let_def u_def [symmetric]
    by (simp only: words bytes)
      (simp add: chip_init_mask_def mac_set_fakemac_def ring_words_def ring_ptr_def [symmetric] push_bit_of_1
        ring_decode_len ring_decode_addr init_block_ok_def and.assoc)
qed

text \<open>A block in a cleared board RAM at offset \<^verbatim>\<open>0x1000\<close>: both rings of 16 entries.\<close>

definition example_block :: init_block where
  "example_block = \<lparr>ib_mode = 0, ib_mac = [0x00, 0x80, 0x10, 0x12, 0x34, 0x56], ib_ladrf = [1, 2, 3, 4],
     ib_rdra = 0x002000, ib_rlen = 4, ib_tdra = 0x002100, ib_tlen = 4\<rparr>"

definition example_state :: a2065 where
  "example_state = set_csr 1 0x1000 (ram_write_block (registers_reset (static_init 0)) 0x1000 (init_block_bytes example_block))"

theorem chip_init_decodes_witness:
  "fakemac (chip_init example_state) = [0x00, 0x80, 0x10, 0x12, 0x34, 0x56] \<and>
   am_rdr_rlen (chip_init example_state) = 16 \<and> am_rdr_rdra (chip_init example_state) = 0x2000"
proof -
  have ok: "init_block_ok example_block"
    by (simp add: init_block_ok_def example_block_def)
  have len: "length (init_block_bytes example_block) = 24"
    using ok by (simp add: bytes_nth)
  have "init_off example_state = 0x1000"
    by (simp add: init_off_def example_state_def registers_reset_def)
  moreover have "block_at (ram_view example_state) (ucast (0x1000 :: u32)) 24 = init_block_bytes example_block"
    using block_at_set_block [of "init_block_bytes example_block"] len
    by (simp add: example_state_def flat.write_block_view)
  ultimately show ?thesis
    using chip_init_decodes [OF ok, of example_state] by (simp add: example_block_def)
qed

section \<open>Starting the chip\<close>

lemma chip_init_set_csr0: "chip_init (set_csr 0 v s) = set_csr 0 v (chip_init s)"
  by (simp add: chip_init_def chip_init_mask_def rings_reset_loopback_count_def set_csr_def Let_def
      get_ram_word_def get_ram_byte_def)

lemma rethink_no_INEA:
  "\<not> has (csr s 0) CSR0_INEA \<Longrightarrow> rethink oi s = set_csr 0 (intr_of (csr s 0)) s"
  by (auto simp: rethink_eq Let_def intr_of_def flag_bits)

lemma csr0_write_no_demand:
  assumes "\<not> has (csr u 0) CSR0_TDMD" and "csr0_transition (csr s 0) (set_csr 0 (csr0_merge (csr s 0) v) s) = u"
  shows "csr0_write oi ot v s = Some (rethink oi u)"
  using assms by (simp add: csr0_write_def csr0_demand_def Let_def)

lemma stopped_bits:
  assumes "csr0_settled c" and "has c CSR0_STOP"
  shows "c = CSR0_STOP OR (c AND CSR0_INEA)"
  using assms by (auto simp: csr0_settled_def csr0_ok_def flag_bits)

lemma csr0_write_init:
  assumes "csr0_settled (csr s 0)" and "has (csr s 0) CSR0_STOP"
  shows "csr0_write oi ot CSR0_INIT s =
    Some (set_csr 3 0 (set_csr 0 (CSR0_INIT OR CSR0_IDON OR CSR0_INTR) ((chip_init s)\<lparr>am_initialized := True\<rparr>)))"
proof -
  define c where "c = csr s 0"
  have "c = CSR0_STOP \<or> c = CSR0_STOP OR CSR0_INEA"
    using stopped_bits [OF assms] by (auto simp: c_def [symmetric] flag_bits)
  then have m: "csr0_merge c CSR0_INIT = CSR0_STOP OR CSR0_INIT" and nc: "\<not> has c CSR0_INIT" "\<not> has c CSR0_STRT" "has c CSR0_STOP"
    by (auto simp: csr0_merge_def has_def)
  have "csr0_transition c (set_csr 0 (CSR0_STOP OR CSR0_INIT) s) =
      set_csr 3 0 (set_csr 0 (CSR0_INIT OR CSR0_IDON) ((chip_init s)\<lparr>am_initialized := True\<rparr>))" (is "_ = ?u")
    using nc by (simp add: csr0_transition_def has_def chip_init_set_csr0 registers_csr0_set_def registers_csr0_clr_def)
      (simp add: set_csr_def)
  then have "csr0_write oi ot CSR0_INIT s = Some (rethink oi ?u)"
    by (intro csr0_write_no_demand) (simp_all add: c_def [symmetric] m has_def)
  also have "rethink oi ?u = set_csr 0 (CSR0_INIT OR CSR0_IDON OR CSR0_INTR) ?u"
    by (subst rethink_no_INEA) (simp_all add: has_def intr_of_def)
  finally show ?thesis
    by (simp add: set_csr_def fun_upd_twist)
qed

lemma csr0_write_start:
  assumes "csr s 0 = CSR0_INIT OR CSR0_IDON OR CSR0_INTR"
  shows "csr0_write oi ot (CSR0_STRT OR CSR0_INEA) s =
    Some (rethink oi (set_csr 0 (enabled (am_mode s)
      (CSR0_INIT OR CSR0_STRT OR CSR0_IDON OR CSR0_INTR OR CSR0_INEA)) s))" (is "_ = Some (rethink oi ?u)")
proof (rule csr0_write_no_demand)
  have m: "csr0_merge (csr s 0) (CSR0_STRT OR CSR0_INEA) = CSR0_INIT OR CSR0_STRT OR CSR0_IDON OR CSR0_INTR OR CSR0_INEA"
    by (simp add: assms csr0_merge_def)
  show "csr0_transition (csr s 0) (set_csr 0 (csr0_merge (csr s 0) (CSR0_STRT OR CSR0_INEA)) s) = ?u"
    unfolding m by (simp add: csr0_transition_def assms has_def rings_enable_eq registers_csr0_clr_def)
  show "\<not> has (csr ?u 0) CSR0_TDMD"
    by (simp add: enabled_def has_def)
qed

lemma csr0_write_init_start:
  assumes "csr0_settled (csr s 0)" and "has (csr s 0) CSR0_STOP"
  shows "csr0_write oi ot (CSR0_INIT OR CSR0_STRT) s =
    Some (set_csr 0 (enabled (am_mode s) (CSR0_INIT OR CSR0_STRT OR CSR0_IDON OR CSR0_INTR))
      ((chip_init s)\<lparr>am_initialized := True\<rparr>))"
proof -
  define c where "c = csr s 0"
  define e where "e = enabled (am_mode s) (CSR0_INIT OR CSR0_STRT)"
  have "c = CSR0_STOP \<or> c = CSR0_STOP OR CSR0_INEA"
    using stopped_bits [OF assms] by (auto simp: c_def [symmetric] flag_bits)
  then have m: "csr0_merge c (CSR0_INIT OR CSR0_STRT) = CSR0_STOP OR CSR0_INIT OR CSR0_STRT"
    and nc: "\<not> has c CSR0_INIT" "\<not> has c CSR0_STRT" "has c CSR0_STOP" "has c (CSR0_STOP OR CSR0_INIT)"
    by (auto simp: csr0_merge_def has_def)
  have e: "has e CSR0_INIT" "\<not> has (e OR CSR0_IDON) CSR0_TDMD" "\<not> has (e OR CSR0_IDON) CSR0_INEA"
    "intr_of (e OR CSR0_IDON) = enabled (am_mode s) (CSR0_INIT OR CSR0_STRT OR CSR0_IDON OR CSR0_INTR)"
    by (auto simp: e_def enabled_def has_def intr_of_def)
  have "csr0_transition c (set_csr 0 (CSR0_STOP OR CSR0_INIT OR CSR0_STRT) s) =
      set_csr 0 (e OR CSR0_IDON) ((chip_init s)\<lparr>am_initialized := True\<rparr>)" (is "_ = ?u")
    using nc e(1) [unfolded e_def]
    by (simp add: csr0_transition_def rings_enable_eq registers_csr0_clr_def registers_csr0_set_def chip_init_set_csr0 e_def)
      (simp add: has_def set_csr_def)
  then have "csr0_write oi ot (CSR0_INIT OR CSR0_STRT) s = Some (rethink oi ?u)"
    by (intro csr0_write_no_demand) (simp_all add: c_def [symmetric] m [simplified] e)
  also have "rethink oi ?u = set_csr 0 (intr_of (e OR CSR0_IDON)) ?u"
    by (subst rethink_no_INEA) (simp_all add: e)
  finally show ?thesis
    by (simp add: e)
qed

text \<open>C9: started by INIT and then STRT with the interrupt enabled, the chip switches each direction on
  exactly when the mode word read by the initialisation does not disable it.\<close>

theorem init_then_start:
  assumes "chip_inv base s" and "rap s = 0" and "has (csr s 0) CSR0_STOP"
  shows "\<exists>t u. chip_wput oi ot A2065_RDP_OFF CSR0_INIT s = Some t \<and>
    chip_wput oi ot A2065_RDP_OFF (CSR0_STRT OR CSR0_INEA) t = Some (rethink oi u) \<and>
    am_initialized u \<and> am_mode u = am_mode (chip_init s) \<and>
    csr u 0 = CSR0_INIT OR CSR0_STRT OR CSR0_IDON OR CSR0_INTR OR CSR0_INEA OR
      (if has (am_mode u) MODE_DTX then 0 else CSR0_TXON) OR (if has (am_mode u) MODE_DRX then 0 else CSR0_RXON)"
proof -
  let ?t = "set_csr 3 0 (set_csr 0 (CSR0_INIT OR CSR0_IDON OR CSR0_INTR) ((chip_init s)\<lparr>am_initialized := True\<rparr>))"
  let ?u = "set_csr 0 (enabled (am_mode ?t) (CSR0_INIT OR CSR0_STRT OR CSR0_IDON OR CSR0_INTR OR CSR0_INEA)) ?t"
  have "csr0_settled (csr s 0)"
    using assms(1) by (simp add: chip_inv_def)
  then have "chip_wput oi ot A2065_RDP_OFF CSR0_INIT s = Some ?t"
    using assms(2,3) csr0_write_init [of s oi ot] by (simp add: chip_wput_def)
  moreover have "chip_wput oi ot A2065_RDP_OFF (CSR0_STRT OR CSR0_INEA) ?t = Some (rethink oi ?u)"
    using csr0_write_start [of ?t oi ot] assms(2) by (simp add: chip_wput_def)
  moreover have "csr ?u 0 = CSR0_INIT OR CSR0_STRT OR CSR0_IDON OR CSR0_INTR OR CSR0_INEA OR
      (if has (am_mode ?u) MODE_DTX then 0 else CSR0_TXON) OR (if has (am_mode ?u) MODE_DRX then 0 else CSR0_RXON)"
    by (simp add: enabled_def)
  ultimately show ?thesis
    by (intro exI [of _ ?t] exI [of _ ?u]) simp
qed

theorem init_then_start_witness:
  "\<exists>t u. chip_wput None None A2065_RDP_OFF CSR0_INIT (registers_reset (static_init 0)) = Some t \<and>
     chip_wput None None A2065_RDP_OFF (CSR0_STRT OR CSR0_INEA) t = Some (rethink None u) \<and> am_initialized u"
  using init_then_start [OF reset_static_inv [of 0], of None None] by (auto simp: registers_reset_def has_def)

text \<open>Started by INIT and STRT in one write, the directions are switched by the mode in force before
  the write, not by the mode word that the same write reads from the initialisation block.\<close>

theorem init_start_together:
  assumes "chip_inv base s" and "rap s = 0" and "has (csr s 0) CSR0_STOP"
  shows "\<exists>u. chip_wput oi ot A2065_RDP_OFF (CSR0_INIT OR CSR0_STRT) s = Some u \<and>
    am_initialized u \<and> am_mode u = am_mode (chip_init s) \<and>
    csr u 0 = CSR0_INIT OR CSR0_STRT OR CSR0_IDON OR CSR0_INTR OR
      (if has (am_mode s) MODE_DTX then 0 else CSR0_TXON) OR (if has (am_mode s) MODE_DRX then 0 else CSR0_RXON)"
proof -
  have "csr0_settled (csr s 0)"
    using assms(1) by (simp add: chip_inv_def)
  then show ?thesis
    using assms(2,3) csr0_write_init_start [of s oi ot]
    by (simp add: chip_wput_def enabled_def)
qed

theorem init_start_together_witness:
  "\<exists>u. chip_wput None None A2065_RDP_OFF (CSR0_INIT OR CSR0_STRT) (registers_reset (static_init 0)) = Some u \<and>
     csr u 0 = 0x01B3"
  using init_start_together [OF reset_static_inv [of 0], of None None]
  by (auto simp: registers_reset_def static_init_def has_def)

end
