(* ===== verification/Ethernet.thy ===== *)
theory Ethernet
  imports Chip_State
begin

text \<open>
  \<^verbatim>\<open>src/arm/src/ethernet.cpp\<close>: the raw socket of the daemon on Linux, and the functions that take its place on other
  systems (\<open>stub_\<close> in front of the name). The answers of the
  operating system (\<^verbatim>\<open>socket\<close>, \<^verbatim>\<open>ioctl\<close>, \<^verbatim>\<open>bind\<close>, \<^verbatim>\<open>recv\<close>) are arguments. A failed
  \<^verbatim>\<open>send\<close> is only reported, so \<open>sent\<close> lists what was handed to the kernel. Bringing the
  interface up and joining the promiscuous group act on the kernel alone and are left out.
\<close>

unbundle bit_operations_syntax

text \<open>What the kernel answers while the socket is opened: the descriptor of \<^verbatim>\<open>socket\<close>,
  whether \<^verbatim>\<open>SIOCGIFINDEX\<close> and \<^verbatim>\<open>bind\<close> succeed, the address of \<^verbatim>\<open>SIOCGIFHWADDR\<close>.\<close>

record nic_env =
  env_socket :: int
  env_ifindex :: bool
  env_hwaddr :: "mac_addr option"
  env_bind :: bool

definition ethernet_open :: "nic_env \<Rightarrow> 'a a2065_scheme \<Rightarrow> bool \<times> 'a a2065_scheme" where
  "ethernet_open env s0 =
    (let s = s0\<lparr>sock_fd := env_socket env\<rparr>
     in if sock_fd s < 0 then (False, s)
        else if \<not> env_ifindex env then (False, s\<lparr>sock_fd := -1\<rparr>)
        else let s = s\<lparr>host_mac := replicate 6 0\<rparr>;
                 s = (case env_hwaddr env of Some a \<Rightarrow> s\<lparr>host_mac := a\<rparr> | None \<Rightarrow> s)
             in if \<not> env_bind env then (False, s\<lparr>sock_fd := -1\<rparr>) else (True, s))"

definition ethernet_close :: "'a a2065_scheme \<Rightarrow> 'a a2065_scheme" where
  "ethernet_close s = (if 0 \<le> sock_fd s then s\<lparr>sock_fd := -1\<rparr> else s)"

definition ethernet_send :: "u8 list \<Rightarrow> nat \<Rightarrow> 'a a2065_scheme \<Rightarrow> ('a a2065_scheme) option" where
  "ethernet_send frame len s =
    (if sock_fd s < 0 \<or> len = 0 then Some s
     else do { bytes \<leftarrow> rdn frame 0 len; Some (s\<lparr>sent := sent s @ [bytes]\<rparr>) })"

text \<open>\<^verbatim>\<open>recv\<close> answers \<open>None\<close> on an error and otherwise the bytes it stored, at most \<^verbatim>\<open>maxlen\<close>
  of them, at the start of \<^verbatim>\<open>buf\<close>.\<close>

definition ethernet_recv :: "u8 list option \<Rightarrow> u8 list \<Rightarrow> 'a a2065_scheme \<Rightarrow> (int \<times> u8 list) option" where
  "ethernet_recv answer buf s =
    (if sock_fd s < 0 then Some (-1, buf)
     else case answer of
       None \<Rightarrow> Some (-1, buf)
     | Some bytes \<Rightarrow> do { buf \<leftarrow> wrn buf 0 bytes; Some (int (length bytes), buf) })"

definition ethernet_get_mac :: "'a a2065_scheme \<Rightarrow> mac_addr" where
  "ethernet_get_mac s = host_mac s"

definition ethernet_read_iface_mac :: "bool \<Rightarrow> mac_addr option \<Rightarrow> bool \<times> mac_addr" where
  "ethernet_read_iface_mac sock_ok hwaddr =
    (let out = replicate 6 0
     in if \<not> sock_ok then (False, out)
        else case hwaddr of
          Some a \<Rightarrow> ((a ! 3 OR a ! 4 OR a ! 5) \<noteq> 0, a)
        | None \<Rightarrow> (False, out))"

text \<open>The build for other systems: opening succeeds and nothing is ever sent or received.\<close>

definition stub_ethernet_open :: "'a a2065_scheme \<Rightarrow> bool \<times> 'a a2065_scheme" where
  "stub_ethernet_open s = (True, s)"

definition stub_ethernet_close :: "'a a2065_scheme \<Rightarrow> 'a a2065_scheme" where
  "stub_ethernet_close s = s"

definition stub_ethernet_send :: "u8 list \<Rightarrow> nat \<Rightarrow> 'a a2065_scheme \<Rightarrow> ('a a2065_scheme) option" where
  "stub_ethernet_send frame len s = Some s"

definition stub_ethernet_recv :: "u8 list \<Rightarrow> 'a a2065_scheme \<Rightarrow> (int \<times> u8 list) option" where
  "stub_ethernet_recv buf s = Some (-1, buf)"

definition stub_ethernet_get_mac :: mac_addr where
  "stub_ethernet_get_mac = replicate 6 0"

definition stub_ethernet_read_iface_mac :: "bool \<times> mac_addr" where
  "stub_ethernet_read_iface_mac = (False, replicate 6 0)"

text \<open>Apart from the success it reports, the other build is the Linux one with a socket that was never opened.\<close>

lemma stub_like_closed:
  assumes "sock_fd s < 0"
  shows "ethernet_send frame len s = stub_ethernet_send frame len s"
    and "ethernet_recv answer buf s = stub_ethernet_recv buf s"
    and "ethernet_close s = stub_ethernet_close s"
    and "ethernet_read_iface_mac False hwaddr = stub_ethernet_read_iface_mac"
  using assms
  by (simp_all add: ethernet_send_def stub_ethernet_send_def ethernet_recv_def stub_ethernet_recv_def ethernet_close_def
      stub_ethernet_close_def ethernet_read_iface_mac_def stub_ethernet_read_iface_mac_def)

text \<open>After \<^verbatim>\<open>ethernet_open\<close> the socket is open exactly when it reported success.\<close>

lemma ethernet_open_fd: "fst (ethernet_open env s) \<longleftrightarrow> 0 \<le> sock_fd (snd (ethernet_open env s))"
  by (auto simp: ethernet_open_def Let_def split: option.splits)

lemma ethernet_open_frame [simp]:
  "boardram (snd (ethernet_open env s)) = boardram s" "map_w (snd (ethernet_open env s)) = map_w s"
  "csr (snd (ethernet_open env s)) = csr s" "rap (snd (ethernet_open env s)) = rap s"
  "fakemac (snd (ethernet_open env s)) = fakemac s" "mac (snd (ethernet_open env s)) = mac s"
  "crc (snd (ethernet_open env s)) = crc s" "transmitbuffer (snd (ethernet_open env s)) = transmitbuffer s"
  "am_rdr_rdra (snd (ethernet_open env s)) = am_rdr_rdra s" "am_tdr_tdra (snd (ethernet_open env s)) = am_tdr_tdra s"
  by (simp_all add: ethernet_open_def Let_def split: option.splits)

lemma ethernet_send_some: "length frame = MAX_PACKET_SIZE \<Longrightarrow> len \<le> MAX_PACKET_SIZE \<Longrightarrow>
  ethernet_send frame len s =
    Some (if sock_fd s < 0 \<or> len = 0 then s else s\<lparr>sent := sent s @ [take len frame]\<rparr>)"
  by (simp add: ethernet_send_def)

end
