(* ===== verification/Desc_Rings.thy ===== *)
theory Desc_Rings
  imports Registers Ethernet
begin

text \<open>
  \<^verbatim>\<open>src/arm/src/rings.cpp\<close>: the descriptor ring walker. \<open>do_transmit\<close> gathers a frame from
  the transmit ring into \<^verbatim>\<open>transmitbuffer\<close> and sends it, loops it back or reports a collision;
  \<open>gotfunc\<close> translates, filters and delivers a received frame into the receive ring, with the
  frame check sequence appended.

  Both return \<open>None\<close> where the source leaves an array. \<open>tmp0\<close> is the indeterminate contents
  of the automatic array \<^verbatim>\<open>tmp\<close> of \<^verbatim>\<open>gotfunc\<close> (4096 bytes): a receive buffer that is longer
  than the frame is filled up from it. Both walks end because every descriptor contributes at
  least one byte: the measures are the room left in \<^verbatim>\<open>transmitbuffer\<close> and the bytes of the frame
  not yet delivered.
\<close>

unbundle bit_operations_syntax

section \<open>Descriptors\<close>

text \<open>The buffer address and the buffer length that a descriptor holds.\<close>

definition desc_addr :: "u16 \<Rightarrow> u16 \<Rightarrow> u32" where
  "desc_addr md0 md1 = (ucast md0 OR push_bit 16 (ucast (md1 AND 0xff))) AND RAM_MASK"

definition desc_size :: "u16 \<Rightarrow> nat" where
  "desc_size md2 = 65536 - unat md2"

section \<open>Receive\<close>

definition rx_filter :: "mac_addr \<Rightarrow> u8 list \<Rightarrow> 'a a2065_scheme \<Rightarrow> bool \<times> 'a a2065_scheme" where
  "rx_filter fakemac_buf d s =
    (let dstmac = take 6 d; srcmac = take 6 (drop 6 d)
     in if has (am_mode s) MODE_LOOP then (True, s)
        else let (pass, s) =
          (if dstmac ! 0 AND 0x01 \<noteq> 0 then
             if \<not> registers_prom s \<and> dstmac \<noteq> BROADCAST_MAC then
               (let hash = drop_bit 26 (NOT (fst (crc32_compute (crc s) dstmac)));
                    s = s\<lparr>crc := snd (crc32_compute (crc s) dstmac)\<rparr>
                in (has (am_ladrf s) (push_bit (unat hash) 1), s))
             else (True, s)
           else
             (\<not> (\<not> registers_prom s \<and> dstmac \<noteq> fakemac_buf \<and> dstmac \<noteq> BROADCAST_MAC), s))
        in (pass \<and> \<not> (dstmac = fakemac_buf \<and> srcmac = fakemac_buf) \<and>
              \<not> (dstmac = BROADCAST_MAC \<and> srcmac = fakemac_buf), s))"

text \<open>One turn of the delivery loop: \<open>Inl\<close> leaves the loop, with \<open>False\<close> for the early return
  on a descriptor that is not owned; \<open>Inr\<close> goes on with the next descriptor.\<close>

definition rx_desc ::
  "('a a2065_scheme) int_cb \<Rightarrow> u32 \<Rightarrow> u32 \<Rightarrow> u8 list \<Rightarrow> nat \<Rightarrow> nat \<Rightarrow> bool \<Rightarrow> 'a a2065_scheme \<Rightarrow>
   (bool \<times> 'a a2065_scheme + nat \<times> 'a a2065_scheme) option" where
  "rx_desc on_int rdra rlen d len insize first s0 =
    (let s = s0\<lparr>rdr_offset := rdr_offset s0 mod unat rlen\<rparr>;
         off = rdra + of_nat (rdr_offset s) * 8;
         rmd0 = get_ram_word s (off + 0);
         rmd1 = get_ram_word s (off + 2);
         rmd2 = get_ram_word s (off + 4);
         rmd3 = get_ram_word s (off + 6);
         addr = desc_addr rmd0 rmd1
     in if \<not> has rmd1 RX_OWN then
          (let (rmd1, s) = (if \<not> first
                 then (rmd1 OR (RX_BUFF OR RX_OFLO), registers_csr0_clr CSR0_RXON s)
                 else (rmd1, registers_csr0_set CSR0_MISS s))
           in Some (Inl (False, rethink on_int (put_ram_word s (off + 2) rmd1))))
        else
          (let rmd1 = rmd1 AND NOT RX_OWN;
               s = s\<lparr>rdr_offset := rdr_offset s + 1\<rparr>;
               rmd1 = (if first then rmd1 OR RX_STP else rmd1);
               size = desc_size rmd2
           in do {
             bytes \<leftarrow> rdn d insize size;
             let s = ram_write_block s addr bytes;
             let insize = insize + size;
             let (rmd1, rmd3) = (if len \<le> insize then (rmd1 OR RX_ENP, of_nat len) else (rmd1, rmd3));
             let s = put_ram_word s (off + 2) rmd1;
             let s = put_ram_word s (off + 6) rmd3;
             Some (if len \<le> insize then Inl (True, s) else Inr (insize, s))
           }))"

lemma desc_size_pos [simp]: "0 < desc_size w" "desc_size w \<noteq> 0"
  using unsigned_less [of w, where 'a = nat] by (simp_all add: desc_size_def)

lemma rx_desc_progress:
  "rx_desc oi rdra rlen d len insize first s = Some (Inr (insize', t)) \<Longrightarrow> insize < insize' \<and> insize' < len"
  by (auto simp: rx_desc_def Let_def split: if_splits prod.splits bind_splits)

function rx_loop ::
  "('a a2065_scheme) int_cb \<Rightarrow> u32 \<Rightarrow> u32 \<Rightarrow> u8 list \<Rightarrow> nat \<Rightarrow> nat \<Rightarrow> bool \<Rightarrow> 'a a2065_scheme \<Rightarrow>
   (bool \<times> 'a a2065_scheme) option" where
  "rx_loop on_int rdra rlen d len insize first s =
     (case rx_desc on_int rdra rlen d len insize first s of
        None \<Rightarrow> None
      | Some (Inl r) \<Rightarrow> Some r
      | Some (Inr (insize', s')) \<Rightarrow> rx_loop on_int rdra rlen d len insize' False s')"
  by pat_completeness auto
termination
  by (relation "measure (\<lambda>(oi, rdra, rlen, d, len, insize, first, s). len - insize)")
    (auto dest!: rx_desc_progress)

declare rx_loop.simps [simp del]

text \<open>Lines 278 to 282: the frame check sequence appended to the frame.\<close>

definition rx_append_fcs :: "u8 list \<Rightarrow> nat \<Rightarrow> 'a a2065_scheme \<Rightarrow> (u8 list \<times> 'a a2065_scheme) option" where
  "rx_append_fcs d len s = do {
     body \<leftarrow> rdn d 0 len;
     let c = fst (crc32_compute (crc s) body);
     let s = s\<lparr>crc := snd (crc32_compute (crc s) body)\<rparr>;
     d \<leftarrow> wr8 d len (ucast (drop_bit 24 c));
     d \<leftarrow> wr8 d (len + 1) (ucast (drop_bit 16 c));
     d \<leftarrow> wr8 d (len + 2) (ucast (drop_bit 8 c));
     d \<leftarrow> wr8 d (len + 3) (ucast c);
     Some (d, s)
   }"

text \<open>Lines 330 to 337: the receive interrupt.\<close>

definition rx_finish :: "('a a2065_scheme) int_cb \<Rightarrow> 'a a2065_scheme \<Rightarrow> 'a a2065_scheme" where
  "rx_finish on_int s0 =
    (let s = rethink on_int (registers_csr0_set CSR0_RINT s0)
     in if has (am_mode s) MODE_LOOP then s\<lparr>loopback_iter := loopback_iter s + 1\<rparr> else s)"

text \<open>Lines 278 to 338: a frame that passed the filter.\<close>

definition rx_deliver ::
  "('a a2065_scheme) int_cb \<Rightarrow> u32 \<Rightarrow> u8 list \<Rightarrow> nat \<Rightarrow> 'a a2065_scheme \<Rightarrow> ('a a2065_scheme) option" where
  "rx_deliver on_int rdr_rlen d len s = do {
     (d, s) \<leftarrow> rx_append_fcs d len s;
     (delivered, s) \<leftarrow> rx_loop on_int (am_rdr_rdra s) rdr_rlen d (len + 4) 0 True s;
     Some (if \<not> delivered then s else rx_finish on_int s)
   }"

definition gotfunc ::
  "('a a2065_scheme) int_cb \<Rightarrow> u8 list \<Rightarrow> u8 list \<Rightarrow> nat \<Rightarrow> 'a a2065_scheme \<Rightarrow> ('a a2065_scheme) option" where
  "gotfunc on_int tmp0 databuf len s =
    (if \<not> has (registers_csr0 s) CSR0_RXON then Some s
     else if len < 20 then Some s
     else if am_rdr_rlen s = 0 \<or> am_rdr_rlen s > 512 then Some s
     else if am_rdr_rdra s + (am_rdr_rlen s - 1) * 8 > RAM_MASK then Some s
     else do {
       let rdr_rlen = am_rdr_rlen s;
       let fakemac_buf = fakemac s;
       src \<leftarrow> rdn databuf 0 len;
       d \<leftarrow> wrn tmp0 0 src;
       d \<leftarrow> (if \<not> has (am_mode s) MODE_LOOP then map_option fst (mungepacket (mac s) d len) else Some d);
       let (pass, s) = rx_filter fakemac_buf d s;
       if \<not> pass then Some s else rx_deliver on_int rdr_rlen d len s
     })"

section \<open>Transmit\<close>

text \<open>The locals of \<^verbatim>\<open>do_transmit\<close> that live past the gathering loop.\<close>

record tx_locals =
  tx_err :: bool
  tx_off :: u32
  tx_tmd1 :: u16
  tx_tmd3 :: u16
  tx_outsize :: nat

text \<open>\<^verbatim>\<open>while (outsize < 60) transmitbuffer[outsize++] = 0;\<close>\<close>

function tx_pad :: "u8 list \<Rightarrow> nat \<Rightarrow> (u8 list \<times> nat) option" where
  "tx_pad buf outsize =
     (if outsize < 60 then do { buf \<leftarrow> wr8 buf outsize 0; tx_pad buf (outsize + 1) } else Some (buf, outsize))"
  by pat_completeness auto
termination
  by (relation "measure (\<lambda>(buf, outsize). 60 - outsize)") auto

declare tx_pad.simps [simp del]

text \<open>Lines 115 and 116: the bytes taken from one descriptor.\<close>

definition tx_size :: "u16 \<Rightarrow> nat" where
  "tx_size tmd2 = (let size = desc_size tmd2 in if size > MAX_PACKET_SIZE then MAX_PACKET_SIZE else size)"

lemma tx_size_pos [simp]: "0 < tx_size w" "tx_size w \<noteq> 0"
  by (simp_all add: tx_size_def Let_def)

definition tx_desc ::
  "u32 \<Rightarrow> u32 \<Rightarrow> nat \<Rightarrow> 'a a2065_scheme \<Rightarrow> (tx_locals \<times> 'a a2065_scheme + nat \<times> 'a a2065_scheme) option" where
  "tx_desc tdra tlen outsize s0 =
    (let s = s0\<lparr>tdr_offset := tdr_offset s0 mod unat tlen\<rparr>;
         off = tdra + of_nat (tdr_offset s) * 8;
         tmd0 = get_ram_word s (off + 0);
         tmd1 = get_ram_word s (off + 2);
         tmd2 = get_ram_word s (off + 4);
         tmd3 = get_ram_word s (off + 6);
         addr = desc_addr tmd0 tmd1
     in if \<not> has tmd1 TX_OWN then
          (let tmd3 = tmd3 OR (TX_BUFF OR TX_UFLO);
               tmd1 = tmd1 OR TX_ERR;
               s = registers_csr0_clr CSR0_TXON s;
               s = put_ram_word s (off + 2) tmd1;
               s = put_ram_word s (off + 6) tmd3
           in Some (Inl (\<lparr>tx_err = True, tx_off = off, tx_tmd1 = tmd1, tx_tmd3 = tmd3, tx_outsize = outsize\<rparr>, s)))
        else
          (let tmd1 = tmd1 AND NOT TX_OWN;
               size = tx_size tmd2
           in if outsize + size > MAX_PACKET_SIZE then
                (let s = put_ram_word s (off + 2) tmd1;
                     s = put_ram_word s (off + 6) tmd3
                 in Some (Inl (\<lparr>tx_err = False, tx_off = off, tx_tmd1 = tmd1, tx_tmd3 = tmd3, tx_outsize = outsize\<rparr>, s)))
              else do {
                buf \<leftarrow> wrn (transmitbuffer s) outsize (ram_read_block s addr size);
                let outsize = outsize + size;
                (buf, outsize) \<leftarrow> (if has tmd1 TX_ENP \<and> outsize < 60 \<and> \<not> has (am_mode s) MODE_LOOP
                                   then tx_pad buf outsize else Some (buf, outsize));
                let s = s\<lparr>transmitbuffer := buf, tdr_offset := tdr_offset s + 1\<rparr>;
                if has tmd1 TX_ENP then
                  Some (Inl (\<lparr>tx_err = False, tx_off = off, tx_tmd1 = tmd1, tx_tmd3 = tmd3, tx_outsize = outsize\<rparr>, s))
                else do {
                  let s = put_ram_word s (off + 2) tmd1;
                  let s = put_ram_word s (off + 6) tmd3;
                  Some (Inr (outsize, s))
                }
              }))"

lemma tx_desc_progress:
  "tx_desc tdra tlen outsize s = Some (Inr (outsize', t)) \<Longrightarrow> outsize < outsize' \<and> outsize' \<le> MAX_PACKET_SIZE"
  by (auto simp: tx_desc_def Let_def split: if_splits bind_splits)

function tx_loop :: "u32 \<Rightarrow> u32 \<Rightarrow> nat \<Rightarrow> 'a a2065_scheme \<Rightarrow> (tx_locals \<times> 'a a2065_scheme) option" where
  "tx_loop tdra tlen outsize s =
     (case tx_desc tdra tlen outsize s of
        None \<Rightarrow> None
      | Some (Inl r) \<Rightarrow> Some r
      | Some (Inr (outsize', s')) \<Rightarrow> tx_loop tdra tlen outsize' s')"
  by pat_completeness auto
termination
  by (relation "measure (\<lambda>(tdra, tlen, outsize, s). MAX_PACKET_SIZE - outsize)")
    (auto dest!: tx_desc_progress)

declare tx_loop.simps [simp del]

text \<open>The search for the next descriptor that is owned and starts a packet:
  \<^verbatim>\<open>for (int i = 0; i < tdr_tlen; i++)\<close> with its \<^verbatim>\<open>break\<close>.\<close>

function tx_scan :: "u32 \<Rightarrow> nat \<Rightarrow> nat \<Rightarrow> nat \<Rightarrow> u16 \<Rightarrow> 'a a2065_scheme \<Rightarrow> u16 \<times> 'a a2065_scheme" where
  "tx_scan tdra tlen start i tmd1 s =
    (if i < tlen then
       (let s = s\<lparr>tdr_offset := (start + i) mod tlen\<rparr>;
            off = tdra + of_nat (tdr_offset s) * 8;
            tmd1 = get_ram_word s (off + 2)
        in if has tmd1 TX_OWN \<and> has tmd1 TX_STP then (tmd1, s)
           else tx_scan tdra tlen start (i + 1) tmd1 s)
     else (tmd1, s))"
  by pat_completeness auto
termination
  by (relation "measure (\<lambda>(tdra, tlen, start, i, tmd1, s). tlen - i)") auto

declare tx_scan.simps [simp del]

text \<open>Lines 65 to 89: find the descriptor to start from. \<open>None\<close> is the return without work.\<close>

definition tx_find :: "u32 \<Rightarrow> u32 \<Rightarrow> 'a a2065_scheme \<Rightarrow> u16 option \<times> 'a a2065_scheme" where
  "tx_find tdra tlen s0 =
    (let s = s0\<lparr>tdr_offset := tdr_offset s0 mod unat tlen\<rparr>;
         off = tdra + of_nat (tdr_offset s) * 8;
         tmd1 = get_ram_word s (off + 2)
     in if \<not> has tmd1 TX_OWN \<or> \<not> has tmd1 TX_STP then
          (let start = tdr_offset s;
               (tmd1, s) = tx_scan tdra (unat tlen) start 0 tmd1 s
           in if \<not> has tmd1 TX_OWN \<or> \<not> has tmd1 TX_STP then (None, s\<lparr>tdr_offset := start\<rparr>)
              else (Some tmd1, s))
        else (Some tmd1, s))"

text \<open>Lines 142 to 198: what happens to a gathered frame.\<close>

definition tx_dispatch ::
  "('a a2065_scheme) int_cb \<Rightarrow> u8 list \<Rightarrow> bool \<Rightarrow> tx_locals \<Rightarrow> 'a a2065_scheme \<Rightarrow> ('a a2065_scheme) option" where
  "tx_dispatch on_int tmp0 add_fcs l s =
    (let off = tx_off l; tmd1 = tx_tmd1 l; tmd3 = tx_tmd3 l; outsize = tx_outsize l; mode = am_mode s
     in if has mode MODE_LOOP then
          if has mode MODE_COLL then
            (let tmd1 = tmd1 OR TX_ERR;
                 tmd3 = tmd3 OR TX_RTRY
             in Some (put_ram_word (put_ram_word s (off + 2) tmd1) (off + 6) tmd3))
          else
            (let s = put_ram_word (put_ram_word s (off + 2) tmd1) (off + 6) tmd3
             in gotfunc on_int tmp0 (transmitbuffer s) outsize s)
        else do {
          coll \<leftarrow> (if \<not> has mode MODE_COLL \<and> 6 \<le> outsize
                   then do { dst \<leftarrow> rdn (transmitbuffer s) 0 6; Some (dst = fakemac s) }
                   else Some (has mode MODE_COLL));
          if coll then
            (let tmd1 = tmd1 OR TX_ERR;
                 tmd3 = tmd3 OR TX_RTRY
             in Some (put_ram_word (put_ram_word s (off + 2) tmd1) (off + 6) tmd3))
          else do {
            let s = put_ram_word (put_ram_word s (off + 2) tmd1) (off + 6) tmd3;
            let outsize = (if has mode MODE_DTCR \<and> \<not> add_fcs then outsize - 4 else outsize);
            let s = s\<lparr>transmitlen := outsize\<rparr>;
            (buf, _) \<leftarrow> mungepacket (mac s) (transmitbuffer s) (transmitlen s);
            let s = s\<lparr>transmitbuffer := buf\<rparr>;
            ethernet_send (transmitbuffer s) (transmitlen s) s
          }
        })"

definition do_transmit ::
  "('a a2065_scheme) int_cb \<Rightarrow> u8 list \<Rightarrow> 'a a2065_scheme \<Rightarrow> (nat \<times> 'a a2065_scheme) option" where
  "do_transmit on_int tmp0 s =
    (if \<not> has (registers_csr0 s) CSR0_TXON then Some (0, s)
     else
      (let tdra = am_tdr_tdra s; tlen = am_tdr_tlen s
       in if tlen = 0 \<or> tlen > 512 then Some (0, s)
          else if tdra + (tlen - 1) * 8 > RAM_MASK then Some (0, s)
          else case tx_find tdra tlen s of
            (None, s) \<Rightarrow> Some (0, s)
          | (Some tmd1, s) \<Rightarrow> do {
              let add_fcs = has tmd1 TX_ADD_FCS;
              (l, s) \<leftarrow> tx_loop tdra tlen 0 s;
              if tx_err l then
                Some (1, rethink on_int (registers_csr0_set CSR0_TINT s))
              else if tx_outsize l < 60 \<and> \<not> has (am_mode s) MODE_LOOP then do {
                let tmd3 = tx_tmd3 l OR (TX_BUFF OR TX_UFLO);
                let tmd1 = tx_tmd1 l OR TX_ERR;
                let s = registers_csr0_clr CSR0_TXON s;
                let s = put_ram_word s (tx_off l + 6) tmd3;
                let s = put_ram_word s (tx_off l + 2) tmd1;
                Some (1, rethink on_int (registers_csr0_set CSR0_TINT s))
              } else do {
                s \<leftarrow> tx_dispatch on_int tmp0 add_fcs l s;
                Some (1, rethink on_int (registers_csr0_set CSR0_TINT s))
              }
            }))"

section \<open>Board RAM writes and register updates keep the invariant\<close>

lemma config_ok_ram [simp]:
  "config_ok (put_ram_word s off v) = config_ok s" "config_ok (ram_write_block s off bs) = config_ok s"
  by (simp_all add: config_ok_def)

lemma config_ok_offsets [simp]:
  "config_ok (s\<lparr>tdr_offset := n\<rparr>) = config_ok s" "config_ok (s\<lparr>rdr_offset := n\<rparr>) = config_ok s"
  "config_ok (s\<lparr>transmitlen := n\<rparr>) = config_ok s" "config_ok (s\<lparr>loopback_iter := n\<rparr>) = config_ok s"
  "config_ok (s\<lparr>sent := fs\<rparr>) = config_ok s"
  by (simp_all add: config_ok_def)

lemma config_ok_buffer: "config_ok s \<Longrightarrow> length buf = MAX_PACKET_SIZE \<Longrightarrow> config_ok (s\<lparr>transmitbuffer := buf\<rparr>)"
  by (simp add: config_ok_def)

lemma config_ok_crc: "config_ok s \<Longrightarrow> config_ok (s\<lparr>crc := snd (crc32_compute (crc s) bs)\<rparr>)"
  by (simp add: config_ok_def crc32_compute_inv)

lemma csr0_ok_status: "csr0_ok c \<Longrightarrow> \<not> has c CSR0_STOP \<Longrightarrow> csr0_ok (c OR CSR0_TINT)"
  "csr0_ok c \<Longrightarrow> \<not> has c CSR0_STOP \<Longrightarrow> csr0_ok (c OR CSR0_RINT)"
  "csr0_ok c \<Longrightarrow> \<not> has c CSR0_STOP \<Longrightarrow> csr0_ok (c OR CSR0_MISS)"
  "csr0_ok c \<Longrightarrow> csr0_ok (c AND NOT CSR0_TXON)"
  "csr0_ok c \<Longrightarrow> csr0_ok (c AND NOT CSR0_RXON)"
  by (auto simp: csr0_ok_def flag_bits)

text \<open>A chip that is not stopped, and what every ring operation keeps of it.\<close>

definition chip_run :: "u32 \<Rightarrow> 'a a2065_scheme \<Rightarrow> bool" where
  "chip_run base s \<longleftrightarrow> boardram s = base \<and> csr0_ok (csr s 0) \<and> \<not> has (csr s 0) CSR0_STOP \<and> config_ok s"

definition intr_ok :: "u16 \<Rightarrow> bool" where
  "intr_ok c \<longleftrightarrow> (has c CSR0_INTR \<longleftrightarrow>
     has c (CSR0_BABL OR CSR0_MISS OR CSR0_MERR OR CSR0_RINT OR CSR0_TINT OR CSR0_IDON))"

lemma csr0_settled_alt: "csr0_settled c \<longleftrightarrow> csr0_ok c \<and> \<not> has c CSR0_TDMD \<and> intr_ok c"
  by (simp add: csr0_settled_def intr_ok_def)

lemma intr_of_simps [simp]:
  "intr_ok (intr_of c)" "has (intr_of c) CSR0_STOP = has c CSR0_STOP" "has (intr_of c) CSR0_TDMD = has c CSR0_TDMD"
  by (auto simp: intr_of_def intr_ok_def flag_bits)

lemma status_not_STOP [simp]:
  "has (c OR CSR0_TINT) CSR0_STOP = has c CSR0_STOP" "has (c OR CSR0_RINT) CSR0_STOP = has c CSR0_STOP"
  "has (c OR CSR0_MISS) CSR0_STOP = has c CSR0_STOP" "has (c AND NOT CSR0_TXON) CSR0_STOP = has c CSR0_STOP"
  "has (c AND NOT CSR0_RXON) CSR0_STOP = has c CSR0_STOP"
  "has (c OR CSR0_TINT) CSR0_TDMD = has c CSR0_TDMD" "has (c OR CSR0_RINT) CSR0_TDMD = has c CSR0_TDMD"
  "has (c OR CSR0_MISS) CSR0_TDMD = has c CSR0_TDMD" "has (c AND NOT CSR0_TXON) CSR0_TDMD = has c CSR0_TDMD"
  "has (c AND NOT CSR0_RXON) CSR0_TDMD = has c CSR0_TDMD"
  by (auto simp: flag_bits)

text \<open>\<open>kept base s t\<close>: the chip still runs in \<open>t\<close> and the demand bit is as in \<open>s\<close>.\<close>

definition kept :: "u32 \<Rightarrow> 'a a2065_scheme \<Rightarrow> 'a a2065_scheme \<Rightarrow> bool" where
  "kept base s t \<longleftrightarrow> chip_run base t \<and> has (csr t 0) CSR0_TDMD = has (csr s 0) CSR0_TDMD"

lemma kept_trans: "kept base s t \<Longrightarrow> kept base t u \<Longrightarrow> kept base s u"
  by (simp add: kept_def)

lemma kept_update:
  assumes "chip_run base s" and "boardram t = boardram s" and "csr t 0 = csr s 0" and "config_ok t"
  shows "kept base s t"
  using assms by (simp add: kept_def chip_run_def)

lemma kept_set_status:
  assumes "chip_run base s" and "v \<in> {CSR0_TINT, CSR0_RINT, CSR0_MISS}"
  shows "kept base s (registers_csr0_set v s)"
  using assms csr0_ok_status by (auto simp: kept_def chip_run_def)

lemma kept_clr_enable:
  assumes "chip_run base s" and "v \<in> {CSR0_TXON, CSR0_RXON}"
  shows "kept base s (registers_csr0_clr v s)"
  using assms csr0_ok_status(4,5) [of "csr s 0"] status_not_STOP(4,5,9,10) [of "csr s 0"]
  by (auto simp: kept_def chip_run_def simp del: status_not_STOP)

lemma rx_filter_crc:
  "snd (rx_filter fm d s) = s \<or> snd (rx_filter fm d s) = s\<lparr>crc := snd (crc32_compute (crc s) (take 6 d))\<rparr>"
  by (simp add: rx_filter_def Let_def)

lemma rx_filter_kept:
  assumes "chip_run base s" and "rx_filter fm d s = (pass, t)"
  shows "kept base s t" and "csr t = csr s"
  using rx_filter_crc [of fm d s] assms config_ok_crc [of s "take 6 d"]
  by (auto simp: kept_def chip_run_def)

lemma crc_kept: "chip_run base s \<Longrightarrow> kept base s (s\<lparr>crc := snd (crc32_compute (crc s) bs)\<rparr>)"
  using config_ok_crc [of s] by (simp add: kept_def chip_run_def)

context int_callback
begin

lemma rethink_kept:
  assumes "chip_run base s"
  shows "kept base s (rethink on_int s)" and "intr_ok (csr (rethink on_int s) 0)"
proof -
  have c: "csr (rethink on_int s) 0 = intr_of (csr s 0)" and b: "boardram (rethink on_int s) = base"
    using rethink_chip [of s] assms by (simp_all add: chip_run_def same_chip_def)
  have "chip_busy base (rethink on_int s)"
    using rethink_busy [of s] assms by (simp add: chip_run_def chip_busy_def)
  with c assms show "kept base s (rethink on_int s)"
    by (simp add: kept_def chip_run_def chip_busy_def)
  show "intr_ok (csr (rethink on_int s) 0)"
    by (simp add: c)
qed

lemma rx_desc_kept:
  assumes "chip_run base s" and "rx_desc on_int rdra rlen d len insize first s = Some r"
  shows "case r of Inl (ok, t) \<Rightarrow> kept base s t \<and> (if ok then csr t 0 = csr s 0 else intr_ok (csr t 0))
    | Inr (_, t) \<Rightarrow> kept base s t \<and> csr t 0 = csr s 0"
proof -
  let ?s = "s\<lparr>rdr_offset := rdr_offset s mod unat rlen\<rparr>"
  have s: "chip_run base ?s" and cfg: "config_ok s"
    using assms(1) by (simp_all add: chip_run_def)
  have fail: "kept base s (rethink on_int (put_ram_word u off v)) \<and> intr_ok (csr (rethink on_int (put_ram_word u off v)) 0)"
    if "kept base ?s u" for u off v
  proof -
    have "kept base s (put_ram_word u off v)"
      using that by (simp add: kept_def chip_run_def)
    then show ?thesis
      using rethink_kept kept_trans by (metis kept_def)
  qed
  have ok: "kept base s t" if "boardram t = boardram s" "csr t 0 = csr s 0" "config_ok t" for t
    using kept_update [OF assms(1)] that by blast
  show ?thesis
    using assms(2) fail [OF kept_set_status [OF s, of CSR0_MISS]] fail [OF kept_clr_enable [OF s, of CSR0_RXON]] cfg
    unfolding rx_desc_def Let_def
    by (auto split: if_splits bind_splits intro!: ok)
qed

lemma rx_loop_kept:
  assumes "chip_run base s" and "rx_loop on_int rdra rlen d len insize first s = Some (ok, t)"
  shows "kept base s t \<and> (if ok then csr t 0 = csr s 0 else intr_ok (csr t 0))"
  using assms
proof (induction "len - insize" arbitrary: insize first s rule: less_induct)
  case less
  show ?case
  proof (cases "rx_desc on_int rdra rlen d len insize first s")
    case None
    then show ?thesis using less.prems(2) by (simp add: rx_loop.simps)
  next
    case (Some r)
    note step = rx_desc_kept [OF less.prems(1) Some]
    show ?thesis
    proof (cases r)
      case (Inl q)
      then show ?thesis using step Some less.prems(2) by (simp add: rx_loop.simps)
    next
      case (Inr q)
      obtain i' s' where q: "q = (i', s')" by (cases q)
      have "len - i' < len - insize"
        using rx_desc_progress [of on_int rdra rlen d len insize first s i' s'] Some Inr q by auto
      moreover have "kept base s s'" "csr s' 0 = csr s 0"
        using step by (simp_all add: Inr q)
      moreover have "rx_loop on_int rdra rlen d len i' False s' = Some (ok, t)"
        using less.prems(2) Some by (subst (asm) rx_loop.simps) (simp add: Inr q)
      ultimately show ?thesis
        using less.hyps [of i' s' False] kept_trans by (auto simp: kept_def)
    qed
  qed
qed

lemma rx_finish_kept:
  assumes "chip_run base s"
  shows "kept base s (rx_finish on_int s) \<and> intr_ok (csr (rx_finish on_int s) 0)"
proof -
  let ?u = "registers_csr0_set CSR0_RINT s"
  have u: "kept base s ?u"
    using kept_set_status [OF assms, of CSR0_RINT] by simp
  then have "kept base ?u (rethink on_int ?u)" "intr_ok (csr (rethink on_int ?u) 0)"
    using rethink_kept [of ?u] by (simp_all add: kept_def)
  with u have "kept base s (rethink on_int ?u)" "intr_ok (csr (rethink on_int ?u) 0)"
    using kept_trans by blast+
  then show ?thesis
    by (auto simp: rx_finish_def Let_def kept_def chip_run_def)
qed

lemma rx_deliver_kept:
  assumes run: "chip_run base s" and got: "rx_deliver on_int rlen d len s = Some t"
  shows "kept base s t \<and> intr_ok (csr t 0)"
proof -
  obtain d' s2 ok s3 where fcs: "rx_append_fcs d len s = Some (d', s2)"
    and loop: "rx_loop on_int (am_rdr_rdra s2) rlen d' (len + 4) 0 True s2 = Some (ok, s3)"
    and t: "t = (if \<not> ok then s3 else rx_finish on_int s3)"
    using got unfolding rx_deliver_def by (auto split: bind_splits)
  have s2: "kept base s s2"
    using fcs crc_kept [OF run] by (auto simp: rx_append_fcs_def Let_def split: bind_splits)
  then have s3: "kept base s2 s3" "if ok then csr s3 0 = csr s2 0 else intr_ok (csr s3 0)"
    using rx_loop_kept [OF _ loop] by (simp_all add: kept_def)
  have "kept base s s3"
    using s2 s3(1) by (rule kept_trans)
  then show ?thesis
    using s3(2) t rx_finish_kept [of s3] kept_trans [of base s s3] by (auto simp: kept_def)
qed

lemma gotfunc_kept:
  assumes run: "chip_run base s" and got: "gotfunc on_int tmp0 databuf len s = Some t"
  shows "kept base s t \<and> (intr_ok (csr s 0) \<longrightarrow> intr_ok (csr t 0))"
proof (cases "t = s")
  case True
  then show ?thesis using run by (simp add: kept_def)
next
  case False
  then obtain d pass s1 where f: "rx_filter (fakemac s) d s = (pass, s1)"
    and rest: "t = s1 \<or> rx_deliver on_int (am_rdr_rlen s) d len s1 = Some t"
    using got unfolding gotfunc_def Let_def
    by (auto split: if_splits bind_splits prod.splits)
  note s1 = rx_filter_kept [OF run f]
  from rest show ?thesis
  proof
    assume "t = s1"
    then show ?thesis using s1 by simp
  next
    assume "rx_deliver on_int (am_rdr_rlen s) d len s1 = Some t"
    then show ?thesis
      using rx_deliver_kept [of s1 "am_rdr_rlen s" d len t] s1(1) kept_trans by (auto simp: kept_def)
  qed
qed

lemma gotfunc_inv:
  assumes "chip_inv base s" and "gotfunc on_int tmp0 databuf len s = Some t"
  shows "chip_inv base t"
proof (cases "has (csr s 0) CSR0_RXON")
  case True
  have ok: "csr0_ok (csr s 0)" "\<not> has (csr s 0) CSR0_TDMD" "intr_ok (csr s 0)"
    using assms(1) by (simp_all add: chip_inv_def csr0_settled_alt)
  with True have "chip_run base s"
    using assms(1) by (auto simp: chip_run_def chip_inv_def chip_busy_def csr0_ok_def flag_bits)
  then show ?thesis
    using gotfunc_kept [OF _ assms(2)] ok
    by (auto simp: chip_inv_def chip_busy_def kept_def chip_run_def csr0_settled_alt)
next
  case False
  then show ?thesis
    using assms by (simp add: gotfunc_def registers_csr0_def)
qed

end

section \<open>The transmit side keeps the invariant\<close>

lemma tx_pad_eq:
  assumes "60 \<le> length buf" and "n \<le> 60"
  shows "tx_pad buf n = Some (put_seg buf n (replicate (60 - n) 0), 60)"
  using assms
proof (induction "60 - n" arbitrary: buf n)
  case 0
  then show ?case by (simp add: tx_pad.simps [of buf 60] put_seg_def)
next
  case (Suc k)
  then have n: "n < 60" and k: "60 - n = Suc k" by simp_all
  have "put_seg (buf[n := 0]) (n + 1) (replicate k 0) = put_seg buf n (replicate (Suc k) 0)"
    using Suc.prems n k by (intro nth_equalityI) (auto simp: nth_put_seg nth_list_update nth_Cons')
  moreover have "tx_pad buf n = tx_pad (buf[n := 0]) (n + 1)"
    using n Suc.prems by (subst tx_pad.simps) simp
  moreover have "k = 60 - (n + 1)" using k by simp
  ultimately show ?case
    using Suc.hyps(1) [of "n + 1" "buf[n := 0]"] Suc.prems n k by simp
qed

text \<open>The status word of entry \<open>j\<close> of the ring, and whether a packet can start there.\<close>

definition tx_status :: "'a a2065_scheme \<Rightarrow> u32 \<Rightarrow> nat \<Rightarrow> u16" where
  "tx_status s tdra j = get_ram_word s (tdra + of_nat j * 8 + 2)"

definition tx_startable :: "'a a2065_scheme \<Rightarrow> u32 \<Rightarrow> nat \<Rightarrow> bool" where
  "tx_startable s tdra j \<longleftrightarrow> has (tx_status s tdra j) TX_OWN \<and> has (tx_status s tdra j) TX_STP"

lemma tx_status_offset [simp]:
  "tx_status (s\<lparr>tdr_offset := n\<rparr>) = tx_status s" "tx_startable (s\<lparr>tdr_offset := n\<rparr>) = tx_startable s"
  by (simp_all add: tx_status_def tx_startable_def fun_eq_iff)

lemma tx_scan_eq:
  "tx_scan tdra n start i tmd1 s =
    (case find (\<lambda>j. tx_startable s tdra ((start + j) mod n)) [i..<n] of
       Some j \<Rightarrow> (tx_status s tdra ((start + j) mod n), s\<lparr>tdr_offset := (start + j) mod n\<rparr>)
     | None \<Rightarrow> if i < n then (tx_status s tdra ((start + (n - 1)) mod n), s\<lparr>tdr_offset := (start + (n - 1)) mod n\<rparr>)
               else (tmd1, s))"
proof (induction tdra n start i tmd1 s rule: tx_scan.induct)
  case (1 tdra n start i tmd1 s)
  show ?case
  proof (cases "i < n")
    case True
    let ?s = "s\<lparr>tdr_offset := (start + i) mod n\<rparr>"
    note IH = 1 [OF True refl refl refl]
    have unf: "tx_scan tdra n start i tmd1 s =
      (if tx_startable s tdra ((start + i) mod n) then (tx_status s tdra ((start + i) mod n), ?s)
       else tx_scan tdra n start (i + 1) (tx_status s tdra ((start + i) mod n)) ?s)"
      using True by (subst tx_scan.simps) (simp add: Let_def tx_startable_def tx_status_def)
    have "i = n - 1" if "\<not> i + 1 < n" using True that by simp
    then show ?thesis
      using True unf IH
      by (auto simp: upt_conv_Cons tx_startable_def tx_status_def split: option.splits)
  next
    case False
    then show ?thesis by (simp add: tx_scan.simps)
  qed
qed

text \<open>The search finds the first entry, in ring order from the current one, where a packet can start.\<close>

lemma tx_find_eq:
  assumes "tlen \<noteq> 0"
  shows "tx_find tdra tlen s =
    (let n = unat tlen; start = tdr_offset s mod n
     in case find (\<lambda>j. tx_startable s tdra ((start + j) mod n)) [0..<n] of
          Some j \<Rightarrow> (Some (tx_status s tdra ((start + j) mod n)), s\<lparr>tdr_offset := (start + j) mod n\<rparr>)
        | None \<Rightarrow> (None, s\<lparr>tdr_offset := start\<rparr>))"
proof -
  define n where "n = unat tlen"
  define start where "start = tdr_offset s mod n"
  have n: "0 < n" using assms by (simp add: n_def unat_gt_0)
  then have st: "(start + 0) mod n = start" by (simp add: start_def)
  let ?f = "find (\<lambda>j. tx_startable s tdra ((start + j) mod n)) [0..<n]"
  have unf: "tx_find tdra tlen s =
    (if tx_startable s tdra start then (Some (tx_status s tdra start), s\<lparr>tdr_offset := start\<rparr>)
     else let (tmd1, s') = tx_scan tdra n start 0 (tx_status s tdra start) (s\<lparr>tdr_offset := start\<rparr>)
       in if has tmd1 TX_OWN \<and> has tmd1 TX_STP then (Some tmd1, s') else (None, s'\<lparr>tdr_offset := start\<rparr>))"
    unfolding tx_find_def n_def [symmetric]
    by (simp add: Let_def start_def [symmetric] tx_startable_def tx_status_def)
      (auto simp: start_def tx_status_def split: prod.splits)
  have none: "\<not> tx_startable s tdra ((start + (n - 1)) mod n)" if "?f = None"
  proof -
    have "\<forall>x < n. \<not> tx_startable s tdra ((start + x) mod n)"
      using that by (auto simp: find_None_iff)
    then show ?thesis using n by (metis diff_less zero_less_one)
  qed
  have some: "tx_startable s tdra ((start + j) mod n)" if "?f = Some j" for j
    using that by (auto simp: find_Some_iff)
  have zero: "?f = Some 0" if "tx_startable s tdra start"
    using that n st by (simp add: upt_conv_Cons)
  have "tx_find tdra tlen s =
    (case ?f of Some j \<Rightarrow> (Some (tx_status s tdra ((start + j) mod n)), s\<lparr>tdr_offset := (start + j) mod n\<rparr>)
     | None \<Rightarrow> (None, s\<lparr>tdr_offset := start\<rparr>))"
  proof (cases "tx_startable s tdra start")
    case True
    show ?thesis
      by (simp only: unf zero [OF True] True if_True option.case st)
  next
    case False
    show ?thesis
    proof (cases ?f)
      case None
      have "has (tx_status s tdra ((start + (n - 1)) mod n)) TX_OWN \<and>
          has (tx_status s tdra ((start + (n - 1)) mod n)) TX_STP \<longleftrightarrow> False"
        using none [OF None] by (simp only: tx_startable_def simp_thms)
      then show ?thesis
        using n by (simp only: unf False if_False tx_scan_eq tx_status_offset None option.case Let_def prod.case if_True) simp
    next
      case (Some j)
      have "has (tx_status s tdra ((start + j) mod n)) TX_OWN \<and> has (tx_status s tdra ((start + j) mod n)) TX_STP \<longleftrightarrow> True"
        using some [OF Some] by (simp only: tx_startable_def simp_thms)
      then show ?thesis
        by (simp only: unf False if_False tx_scan_eq tx_status_offset Some option.case Let_def prod.case if_True) simp
    qed
  qed
  then show ?thesis
    by (simp only: n_def [symmetric] start_def [symmetric] Let_def)
qed

lemma tx_find_kept:
  assumes "chip_run base s"
  shows "kept base s (snd (tx_find tdra tlen s))"
proof -
  have scan: "kept base s (snd (tx_scan tdra m start i w (s\<lparr>tdr_offset := k\<rparr>)))"
    "kept base s ((snd (tx_scan tdra m start i w (s\<lparr>tdr_offset := k\<rparr>)))\<lparr>tdr_offset := k'\<rparr>)" for m start i w k k'
    using assms by (simp_all add: tx_scan_eq kept_def chip_run_def split: option.splits)
  have "kept base s (s\<lparr>tdr_offset := k\<rparr>)" for k
    using assms by (simp add: kept_def chip_run_def)
  then show ?thesis
    unfolding tx_find_def Let_def case_prod_beta using scan by simp
qed

lemma tx_desc_kept:
  assumes "chip_run base s" and "tx_desc tdra tlen outsize s = Some r"
  shows "case r of Inl (l, t) \<Rightarrow> kept base s t | Inr (_, t) \<Rightarrow> kept base s t"
proof -
  let ?s = "s\<lparr>tdr_offset := tdr_offset s mod unat tlen\<rparr>"
  have s: "chip_run base ?s" and cfg: "config_ok s"
    using assms(1) by (simp_all add: chip_run_def)
  have fail: "kept base s (put_ram_word (put_ram_word (registers_csr0_clr CSR0_TXON ?s) o1 v1) o2 v2)" for o1 v1 o2 v2
    using kept_clr_enable [OF s, of CSR0_TXON] by (simp add: kept_def chip_run_def)
  have len: "length (transmitbuffer s) = MAX_PACKET_SIZE"
    using cfg by (simp add: config_ok_def)
  have ok: "kept base s t" if "boardram t = boardram s" "csr t 0 = csr s 0" "config_ok t" for t
    using kept_update [OF assms(1)] that by blast
  note buf = config_ok_buffer [OF cfg]
  have pad: "length b' = MAX_PACKET_SIZE" if "tx_pad b n = Some (b', n')" "length b = MAX_PACKET_SIZE" "n \<le> 60" for b b' n n'
    using that tx_pad_eq [of b n] by auto
  show ?thesis
    using assms(2) fail cfg unfolding tx_desc_def Let_def
    by (auto split: if_splits bind_splits intro!: ok buf dest!: pad wrn_length simp: len)
qed

lemma tx_loop_kept:
  assumes "chip_run base s" and "tx_loop tdra tlen outsize s = Some (l, t)"
  shows "kept base s t"
  using assms
proof (induction tdra tlen outsize s rule: tx_loop.induct)
  case (1 tdra tlen outsize s)
  show ?case
  proof (cases "tx_desc tdra tlen outsize s")
    case None
    then show ?thesis using "1.prems"(2) by (simp add: tx_loop.simps)
  next
    case (Some r)
    note step = tx_desc_kept [OF "1.prems"(1) Some]
    show ?thesis
    proof (cases r)
      case (Inl q)
      then show ?thesis using step Some "1.prems"(2) by (simp add: tx_loop.simps)
    next
      case (Inr q)
      obtain n' s' where q: "q = (n', s')" by (cases q)
      have "kept base s s'" using step by (simp add: Inr q)
      moreover have "tx_loop tdra tlen n' s' = Some (l, t)"
        using "1.prems"(2) Some by (subst (asm) tx_loop.simps) (simp add: Inr q)
      ultimately show ?thesis
        using "1.IH" [OF Some Inr q [symmetric]] kept_trans by (auto simp: kept_def)
    qed
  qed
qed

context int_callback
begin

lemma tx_dispatch_kept:
  assumes run: "chip_run base s" and tx: "tx_dispatch on_int tmp0 add_fcs l s = Some t"
  shows "kept base s t"
proof -
  have cfg: "config_ok s" and wf: "mac_wf (mac s)" and len: "length (transmitbuffer s) = MAX_PACKET_SIZE"
    using run by (simp_all add: chip_run_def config_ok_def)
  have put: "kept base s (put_ram_word (put_ram_word s o1 v1) o2 v2)" for o1 v1 o2 v2
    using run by (simp add: kept_def chip_run_def)
  then have loop: "kept base s t" if "gotfunc on_int tmp0 b n (put_ram_word (put_ram_word s o1 v1) o2 v2) = Some t"
    for b n o1 v1 o2 v2
    using gotfunc_kept that kept_trans by (metis kept_def)
  have upd: "kept base s t" if "boardram t = boardram s" "csr t 0 = csr s 0" "config_ok t" for t
    using kept_update [OF run] that by blast
  have send: "kept base s t" if "mungepacket (mac s) (transmitbuffer s) n = Some (buf, k)"
    "ethernet_send buf n (u\<lparr>transmitbuffer := buf\<rparr>) = Some t" "boardram u = boardram s" "csr u 0 = csr s 0" "config_ok u"
    for n buf k u
  proof -
    have "length buf = MAX_PACKET_SIZE"
      using mungepacket_length(1) [OF wf that(1)] len by simp
    then have "config_ok (u\<lparr>transmitbuffer := buf\<rparr>)"
      using config_ok_buffer that(5) by blast
    then show ?thesis
      using that(2-4) by (auto simp: ethernet_send_def intro!: upd split: if_splits bind_splits)
  qed
  show ?thesis
    using tx put loop cfg unfolding tx_dispatch_def Let_def
    by (auto split: if_splits bind_splits elim!: send)
qed

lemma tint_kept:
  assumes "kept base s u"
  shows "kept base s (rethink on_int (registers_csr0_set CSR0_TINT u)) \<and>
    intr_ok (csr (rethink on_int (registers_csr0_set CSR0_TINT u)) 0)"
proof -
  let ?u = "registers_csr0_set CSR0_TINT u"
  have "kept base u ?u"
    using assms kept_set_status [of base u CSR0_TINT] by (simp add: kept_def)
  then have u: "kept base s ?u"
    using assms kept_trans by blast
  then have "kept base ?u (rethink on_int ?u)" "intr_ok (csr (rethink on_int ?u) 0)"
    using rethink_kept [of ?u] by (simp_all add: kept_def)
  then show ?thesis
    using u kept_trans by blast
qed

lemma do_transmit_kept:
  assumes run: "chip_run base s" and tx: "do_transmit on_int tmp0 s = Some (r, t)"
  shows "kept base s t \<and> (intr_ok (csr s 0) \<longrightarrow> intr_ok (csr t 0))"
proof (cases "t = s")
  case True
  then show ?thesis using run by (simp add: kept_def)
next
  case False
  let ?tdra = "am_tdr_tdra s" and ?tlen = "am_tdr_tlen s"
  obtain w s1 where find: "tx_find ?tdra ?tlen s = (w, s1)" by (cases "tx_find ?tdra ?tlen s")
  have tlen: "?tlen \<noteq> 0"
    using tx False by (auto simp: do_transmit_def Let_def split: if_splits)
  have s1: "kept base s s1"
    using tx_find_kept [OF run] find by (metis snd_conv)
  have c1: "csr s1 = csr s"
    using tx_find_eq [OF tlen, of ?tdra s] find by (auto simp: Let_def split: option.splits)
  show ?thesis
  proof (cases w)
    case None
    then show ?thesis
      using tx False find s1 c1 by (auto simp: do_transmit_def Let_def split: if_splits)
  next
    case (Some tmd1)
    obtain l s2 where loop: "tx_loop ?tdra ?tlen 0 s1 = Some (l, s2)"
      and ends: "\<exists>u. t = rethink on_int (registers_csr0_set CSR0_TINT u) \<and>
        (u = s2 \<or> (\<exists>v1 v2 o1 o2. u = put_ram_word (put_ram_word (registers_csr0_clr CSR0_TXON s2) o1 v1) o2 v2) \<or>
         tx_dispatch on_int tmp0 (has tmd1 TX_ADD_FCS) l s2 = Some u)"
      using tx False find Some unfolding do_transmit_def Let_def
      by (auto split: if_splits bind_splits; blast)
    have s2: "kept base s s2"
      using tx_loop_kept [OF _ loop] s1 kept_trans by (auto simp: kept_def)
    then have run2: "chip_run base s2" by (simp add: kept_def)
    have "kept base s2 (put_ram_word (put_ram_word (registers_csr0_clr CSR0_TXON s2) o1 v1) o2 v2)" for o1 v1 o2 v2
      using kept_clr_enable [OF run2, of CSR0_TXON] by (simp add: kept_def chip_run_def)
    then show ?thesis
      using ends s2 tx_dispatch_kept [OF run2] tint_kept kept_trans by (metis (no_types, lifting))
  qed
qed

lemma do_transmit_busy:
  assumes "chip_busy base s" and "do_transmit on_int tmp0 s = Some (r, t)"
  shows "chip_busy base t"
proof (cases "has (csr s 0) CSR0_TXON")
  case False
  then show ?thesis using assms by (simp add: do_transmit_def registers_csr0_def)
next
  case True
  then have "chip_run base s"
    using assms(1) by (auto simp: chip_run_def chip_busy_def csr0_ok_def flag_bits)
  then show ?thesis
    using do_transmit_kept [OF _ assms(2)] by (simp add: chip_busy_def chip_run_def kept_def)
qed

lemma do_transmit_inv:
  assumes "chip_inv base s" and "do_transmit on_int tmp0 s = Some (r, t)"
  shows "chip_inv base t"
proof (cases "has (csr s 0) CSR0_TXON")
  case False
  then show ?thesis using assms by (simp add: do_transmit_def registers_csr0_def)
next
  case True
  then have "chip_run base s"
    using assms(1) by (auto simp: chip_run_def chip_inv_def chip_busy_def csr0_ok_def flag_bits)
  then show ?thesis
    using do_transmit_kept [OF _ assms(2)] assms(1)
    by (simp add: chip_inv_def chip_busy_def chip_run_def kept_def csr0_settled_alt)
qed

end

section \<open>Predicates that the ring walk keeps\<close>

text \<open>The elementary state changes of the ring walker. A predicate closed under them is kept by
  \<open>gotfunc\<close> and \<open>do_transmit\<close>.\<close>

locale ring_closed =
  fixes on_int :: "('a a2065_scheme) int_cb" and P :: "'a a2065_scheme \<Rightarrow> bool"
  assumes P_put: "P s \<Longrightarrow> P (put_ram_word s off v)"
    and P_block: "P s \<Longrightarrow> P (ram_write_block s off bs)"
    and P_set_csr0: "P s \<Longrightarrow> P (set_csr 0 c s)"
    and P_fields: "P s \<Longrightarrow> P (s\<lparr>rdr_offset := n\<rparr>)" "P s \<Longrightarrow> P (s\<lparr>tdr_offset := n\<rparr>)" "P s \<Longrightarrow> P (s\<lparr>crc := cu\<rparr>)"
      "P s \<Longrightarrow> P (s\<lparr>loopback_iter := n\<rparr>)" "P s \<Longrightarrow> P (s\<lparr>transmitbuffer := b\<rparr>)" "P s \<Longrightarrow> P (s\<lparr>transmitlen := n\<rparr>)"
      "P s \<Longrightarrow> P (s\<lparr>sent := fs\<rparr>)"
    and P_int: "P s \<Longrightarrow> P (call_int on_int s)"
begin

lemma P_csr0: "P s \<Longrightarrow> P (registers_csr0_set v s)" "P s \<Longrightarrow> P (registers_csr0_clr v s)"
  by (simp_all add: registers_csr0_set_def registers_csr0_clr_def P_set_csr0)

lemma P_rethink: "P s \<Longrightarrow> P (rethink on_int s)"
  by (simp add: rethink_eq Let_def P_set_csr0 P_int)

lemma P_rx_desc:
  "P s \<Longrightarrow> rx_desc on_int rdra rlen d len insize first s = Some r \<Longrightarrow>
   case r of Inl (_, t) \<Rightarrow> P t | Inr (_, t) \<Rightarrow> P t"
  unfolding rx_desc_def Let_def
  by (auto split: if_splits bind_splits intro!: P_put P_block P_csr0 P_rethink P_fields)

lemma P_rx_loop: "P s \<Longrightarrow> rx_loop on_int rdra rlen d len insize first s = Some (ok, t) \<Longrightarrow> P t"
proof (induction "len - insize" arbitrary: insize first s rule: less_induct)
  case less
  show ?case
  proof (cases "rx_desc on_int rdra rlen d len insize first s")
    case None
    then show ?thesis using less.prems(2) by (simp add: rx_loop.simps)
  next
    case (Some r)
    note step = P_rx_desc [OF less.prems(1) Some]
    show ?thesis
    proof (cases r)
      case (Inl q)
      then show ?thesis using step Some less.prems(2) by (simp add: rx_loop.simps)
    next
      case (Inr q)
      obtain i' s' where q: "q = (i', s')" by (cases q)
      have "len - i' < len - insize"
        using rx_desc_progress [of on_int rdra rlen d len insize first s i' s'] Some Inr q by auto
      moreover have "rx_loop on_int rdra rlen d len i' False s' = Some (ok, t)"
        using less.prems(2) Some by (subst (asm) rx_loop.simps) (simp add: Inr q)
      ultimately show ?thesis
        using less.hyps [of i' s' False] step by (auto simp: Inr q)
    qed
  qed
qed

lemma P_gotfunc: "P s \<Longrightarrow> gotfunc on_int tmp0 databuf len s = Some t \<Longrightarrow> P t"
proof -
  assume s: "P s" and got: "gotfunc on_int tmp0 databuf len s = Some t"
  have deliver: "P u \<Longrightarrow> rx_deliver on_int rlen d len u = Some t \<Longrightarrow> P t" for u rlen d
    unfolding rx_deliver_def rx_append_fcs_def rx_finish_def Let_def
    by (auto split: bind_splits if_splits dest!: P_rx_loop [rotated] intro!: P_fields P_rethink P_csr0)
  have filter: "P u" if "rx_filter fm d s = (pass, u)" for fm d pass u
    using rx_filter_crc [of fm d s] that s by (auto intro: P_fields)
  show ?thesis
    using got s unfolding gotfunc_def Let_def
    by (auto split: if_splits bind_splits prod.splits dest!: filter deliver [rotated])
qed

lemma P_tx_loop: "P s \<Longrightarrow> tx_loop tdra tlen outsize s = Some (l, t) \<Longrightarrow> P t"
proof (induction tdra tlen outsize s rule: tx_loop.induct)
  case (1 tdra tlen outsize s)
  have step: "case r of Inl (_, t) \<Rightarrow> P t | Inr (_, t) \<Rightarrow> P t" if "tx_desc tdra tlen outsize s = Some r" for r
    using that "1.prems"(1) unfolding tx_desc_def Let_def
    by (auto split: if_splits bind_splits intro!: P_put P_csr0 P_fields)
  show ?case
  proof (cases "tx_desc tdra tlen outsize s")
    case None
    then show ?thesis using "1.prems"(2) by (simp add: tx_loop.simps)
  next
    case (Some r)
    show ?thesis
    proof (cases r)
      case (Inl q)
      then show ?thesis using step [OF Some] Some "1.prems"(2) by (simp add: tx_loop.simps)
    next
      case (Inr q)
      obtain n' s' where q: "q = (n', s')" by (cases q)
      have "tx_loop tdra tlen n' s' = Some (l, t)"
        using "1.prems"(2) Some by (subst (asm) tx_loop.simps) (simp add: Inr q)
      then show ?thesis
        using "1.IH" [OF Some Inr q [symmetric]] step [OF Some] by (simp add: Inr q)
    qed
  qed
qed

lemma P_do_transmit:
  assumes s: "P s" and tx: "do_transmit on_int tmp0 s = Some (r, t)"
  shows "P t"
proof -
  have scan: "P u \<Longrightarrow> P (snd (tx_scan tdra n start i w u))" for tdra n start i w u
    by (simp add: tx_scan_eq P_fields split: option.splits)
  have find: "P u" if "tx_find tdra tlen s = (w, u)" for tdra tlen w u
    using that s unfolding tx_find_def Let_def case_prod_beta
    by (auto split: if_splits intro!: P_fields scan)
  have dispatch: "P u \<Longrightarrow> tx_dispatch on_int tmp0 fcs l u = Some t \<Longrightarrow> P t" for u t fcs l
    unfolding tx_dispatch_def ethernet_send_def Let_def
    by (auto split: if_splits bind_splits intro!: P_fields P_put elim!: P_gotfunc [rotated])
  show ?thesis
    using tx s unfolding do_transmit_def Let_def
    by (auto split: if_splits bind_splits prod.splits option.splits
        dest!: find P_tx_loop [rotated] dispatch [rotated] intro!: P_rethink P_csr0 P_put)
qed

end

text \<open>With the variables that register writes change, and a transmit callback that keeps it, the predicate is
  kept by every register write.\<close>

locale chip_closed = ring_closed on_int P for on_int :: "('a a2065_scheme) int_cb" and P +
  fixes on_tx :: "('a a2065_scheme) tx_cb"
  assumes P_set_csr: "P s \<Longrightarrow> P (set_csr k v s)"
    and P_regs: "P s \<Longrightarrow> P (s\<lparr>rap := r\<rparr>)" "P s \<Longrightarrow> P (s\<lparr>am_initialized := b\<rparr>)" "P s \<Longrightarrow> P (s\<lparr>am_mode := m\<rparr>)"
      "P s \<Longrightarrow> P (s\<lparr>am_ladrf := l\<rparr>)" "P s \<Longrightarrow> P (s\<lparr>am_rdr_rlen := w\<rparr>)" "P s \<Longrightarrow> P (s\<lparr>am_rdr_rdra := w\<rparr>)"
      "P s \<Longrightarrow> P (s\<lparr>am_tdr_tlen := w\<rparr>)" "P s \<Longrightarrow> P (s\<lparr>am_tdr_tdra := w\<rparr>)" "P s \<Longrightarrow> P (s\<lparr>fakemac := fm\<rparr>)"
      "P s \<Longrightarrow> P (s\<lparr>mac := mu\<rparr>)"
    and P_tx: "P s \<Longrightarrow> call_tx on_tx s = Some t \<Longrightarrow> P t"
begin

lemma P_chip_init: "P s \<Longrightarrow> P (chip_init s)"
  by (simp add: chip_init_def Let_def chip_init_mask_def rings_reset_loopback_count_def P_fields P_regs)

lemma P_chip_init_mask: "P s \<Longrightarrow> P (chip_init_mask s)"
  by (simp add: chip_init_mask_def P_fields P_regs)

lemma P_rings_enable: "P s \<Longrightarrow> P (rings_enable s)"
  by (simp add: rings_enable_def Let_def P_csr0)

lemma P_csr0_write:
  assumes s: "P s" and w: "csr0_write on_int on_tx v s = Some t"
  shows "P t"
proof -
  let ?u = "csr0_transition (csr s 0) (set_csr 0 (csr0_merge (csr s 0) v) s)"
  have u: "P ?u"
    unfolding csr0_transition_def Let_def
    by (simp add: s P_set_csr P_csr0 P_regs P_chip_init P_rings_enable)
  obtain d where d: "csr0_demand on_tx ?u = Some d" and t: "t = rethink on_int d"
    using w by (auto simp: csr0_write_def Let_def)
  have "P d"
    using d u P_tx [OF u] P_tx [OF P_rings_enable [OF P_csr0(2) [OF u]]]
    by (auto simp: csr0_demand_def intro!: P_csr0(2) split: if_splits bind_splits)
  then show ?thesis by (simp add: t P_rethink)
qed

lemma P_chip_wput:
  assumes s: "P s" and w: "chip_wput on_int on_tx r v s = Some t"
  shows "P t"
proof (cases "rap s = 0 \<and> r \<noteq> A2065_RAP_OFF")
  case True
  then have "csr0_write on_int on_tx v s = Some t" using w by (simp add: chip_wput_def)
  then show ?thesis by (rule P_csr0_write [OF s])
next
  case False
  then show ?thesis
    using w s by (auto simp: chip_wput_def P_set_csr P_regs P_chip_init_mask split: if_splits)
qed

end

text \<open>The configuration: everything of the chip that only register writes change. The ring walk leaves
  it alone, whatever the frames and the descriptors hold.\<close>

definition config_of :: "'a a2065_scheme \<Rightarrow>
  (u16 \<times> u64 \<times> u32 \<times> u32 \<times> u32 \<times> u32) \<times> mac_addr \<times> mac_unit \<times> u8 \<times> bool \<times> (nat \<Rightarrow> u16)" where
  "config_of s = ((am_mode s, am_ladrf s, am_rdr_rlen s, am_rdr_rdra s, am_tdr_tlen s, am_tdr_tdra s),
     fakemac s, mac s, rap s, am_initialized s, (\<lambda>n. csr s (Suc n)))"

sublocale int_callback \<subseteq> cfg: ring_closed on_int "\<lambda>s. boardram s = base \<and> config_of s = c" for c
proof
  fix s :: "'a a2065_scheme"
  assume "boardram s = base \<and> config_of s = c"
  then show "boardram (call_int on_int s) = base \<and> config_of (call_int on_int s) = c"
    using int_frame [of s] by (auto simp: same_chip_def config_of_def)
qed (simp_all add: config_of_def)

section \<open>Delivery of a frame\<close>

lemma in_block_elem: "i < n \<Longrightarrow> in_block a n (a + of_nat i)"
proof -
  assume "i < n"
  moreover have "unat (of_nat i :: ram_addr) \<le> i" by (simp add: unat_of_nat)
  ultimately show ?thesis by (simp add: in_block_def)
qed

lemma block_at_set_word:
  assumes "\<not> in_block a n x" and "\<not> in_block a n (x + 1)"
  shows "block_at (set_word f x v) a n = block_at f a n"
proof -
  have "a + of_nat i \<noteq> x" "a + of_nat i \<noteq> x + 1" if "i < n" for i
    using in_block_elem [OF that, of a] assms by auto
  then show ?thesis by (auto simp: block_at_def set_word_def)
qed

lemma word_at_set_block:
  assumes "\<not> in_block a (length bs) x" and "\<not> in_block a (length bs) (x + 1)" and "length bs \<le> 2 ^ 15"
  shows "word_at (set_block f a bs) x = word_at f x"
  using assms by (simp add: word_at_def set_block_outside)

lemma take_block_at: "m \<le> n \<Longrightarrow> block_at f a m = take m (block_at f a n)"
  by (simp add: block_at_def take_map min_def)

text \<open>The frame check sequence as it is stored, most significant byte first.\<close>

definition fcs_be :: "u32 \<Rightarrow> u8 list" where
  "fcs_be c = [ucast (drop_bit 24 c), ucast (drop_bit 16 c), ucast (drop_bit 8 c), ucast c]"

lemma rx_append_fcs_eq:
  assumes "crc_inv (crc s)" and "len + 4 \<le> length d"
  shows "rx_append_fcs d len s =
    Some (put_seg d len (fcs_be (crc32_ref (take len d))), s\<lparr>crc := snd (crc32_compute (crc s) (take len d))\<rparr>)"
proof -
  have "d[len := a, len + 1 := b, len + 2 := c, len + 3 := e] = put_seg d len [a, b, c, e]" for a b c e
    using assms(2) by (intro nth_equalityI) (auto simp: nth_put_seg nth_list_update nth_Cons')
  then show ?thesis
    using assms by (simp add: rx_append_fcs_def Let_def crc32_compute_ref fcs_be_def)
qed

lemma rx_append_fcs_overflow: "length d < len + 4 \<Longrightarrow> rx_append_fcs d len s = None"
  by (auto simp: rx_append_fcs_def wr8_def rdn_def Let_def)

text \<open>The descriptor that is next in the receive ring: its address, status word, buffer and room.\<close>

definition rx_slot :: "'a a2065_scheme \<Rightarrow> u32" where
  "rx_slot s = am_rdr_rdra s + of_nat (rdr_offset s mod unat (am_rdr_rlen s)) * 8"

definition rx_status :: "'a a2065_scheme \<Rightarrow> u16" where
  "rx_status s = get_ram_word s (rx_slot s + 2)"

definition rx_buffer :: "'a a2065_scheme \<Rightarrow> u32" where
  "rx_buffer s = desc_addr (get_ram_word s (rx_slot s + 0)) (rx_status s)"

definition rx_room :: "'a a2065_scheme \<Rightarrow> nat" where
  "rx_room s = desc_size (get_ram_word s (rx_slot s + 4))"

text \<open>The ring is valid and receiving is on.\<close>

definition rx_enabled :: "'a a2065_scheme \<Rightarrow> bool" where
  "rx_enabled s \<longleftrightarrow> has (csr s 0) CSR0_RXON \<and> am_rdr_rlen s \<noteq> 0 \<and> am_rdr_rlen s \<le> 512 \<and>
     am_rdr_rdra s + (am_rdr_rlen s - 1) * 8 \<le> RAM_MASK"

text \<open>The next descriptor is owned by the chip, its buffer can take \<open>n\<close> bytes and no more than the
  staging array has, and does not overlap the descriptor.\<close>

definition rx_ready :: "'a a2065_scheme \<Rightarrow> nat \<Rightarrow> bool" where
  "rx_ready s n \<longleftrightarrow> has (rx_status s) RX_OWN \<and> n \<le> rx_room s \<and> rx_room s \<le> MAX_PACKET_SIZE \<and>
     list_all (\<lambda>k. \<not> in_block (ucast (rx_buffer s)) (rx_room s) (ucast (rx_slot s) + of_nat k)) [0..<8]"

text \<open>The memory after one buffer has taken the whole of the \<open>n\<close> bytes \<open>d\<close>.\<close>

lemma rx_loop_single:
  assumes "rx_ready s n" and "length d = MAX_PACKET_SIZE" and "rlen = am_rdr_rlen s" and "rdra = am_rdr_rdra s"
  shows "\<exists>t. rx_loop on_int rdra rlen d n 0 True s = Some (True, t) \<and>
    boardram t = boardram s \<and> csr t = csr s \<and> config_of t = config_of s \<and>
    rdr_offset t = rdr_offset s mod unat (am_rdr_rlen s) + 1 \<and>
    ram_view t = set_word (set_word (set_block (ram_view s) (ucast (rx_buffer s)) (take (rx_room s) d))
      (ucast (rx_slot s) + 2) ((rx_status s AND NOT RX_OWN) OR RX_STP OR RX_ENP))
      (ucast (rx_slot s) + 6) (of_nat n)"
proof -
  let ?s = "s\<lparr>rdr_offset := rdr_offset s mod unat rlen\<rparr>"
  let ?t = "put_ram_word (put_ram_word (ram_write_block (?s\<lparr>rdr_offset := rdr_offset ?s + 1\<rparr>) (rx_buffer s) (take (rx_room s) d))
     (rx_slot s + 2) ((rx_status s AND NOT RX_OWN) OR RX_STP OR RX_ENP)) (rx_slot s + 6) (of_nat n)"
  have off: "rdra + of_nat (rdr_offset ?s) * 8 = rx_slot s"
    by (simp add: rx_slot_def assms(3,4))
  have own: "has (rx_status s) RX_OWN" and room: "n \<le> rx_room s" "rx_room s \<le> MAX_PACKET_SIZE"
    using assms(1) by (simp_all add: rx_ready_def)
  have "rx_desc on_int rdra rlen d n 0 True s = Some (Inl (True, ?t))"
    unfolding rx_desc_def Let_def off
    using own room assms(2)
    by (simp add: rx_status_def [symmetric] rx_buffer_def [simplified, symmetric] rx_room_def [symmetric] or.assoc)
  then have "rx_loop on_int rdra rlen d n 0 True s = Some (True, ?t)"
    by (simp add: rx_loop.simps)
  then show ?thesis
    by (intro exI [of _ ?t]) (simp add: flat.put_w_view flat.write_block_view config_of_def assms(3))
qed

text \<open>The frame as it is examined: staged in \<^verbatim>\<open>tmp\<close> and, unless the chip loops back, translated.\<close>

definition rx_staged :: "'a a2065_scheme \<Rightarrow> u8 list \<Rightarrow> u8 list \<Rightarrow> nat \<Rightarrow> u8 list option" where
  "rx_staged s tmp0 databuf len =
    (let d = put_seg tmp0 0 (take len databuf)
     in if has (am_mode s) MODE_LOOP then Some d else map_option fst (mungepacket (mac s) d len))"

lemma rx_staged_length:
  "mac_wf (mac s) \<Longrightarrow> len \<le> length databuf \<Longrightarrow> len \<le> length tmp0 \<Longrightarrow> rx_staged s tmp0 databuf len = Some d \<Longrightarrow> length d = length tmp0"
  by (auto simp: rx_staged_def Let_def dest: mungepacket_length(1) split: if_splits)

lemma gotfunc_eq:
  assumes "rx_enabled s" and "20 \<le> len" and "len \<le> length databuf" and "len \<le> length tmp0"
  shows "gotfunc on_int tmp0 databuf len s =
    (case rx_staged s tmp0 databuf len of
       None \<Rightarrow> None
     | Some d \<Rightarrow> if fst (rx_filter (fakemac s) d s)
         then rx_deliver on_int (am_rdr_rlen s) d len (snd (rx_filter (fakemac s) d s))
         else Some (snd (rx_filter (fakemac s) d s)))"
  using assms
  by (auto simp: gotfunc_def rx_enabled_def registers_csr0_def rx_staged_def Let_def not_less case_prod_beta
      split: option.splits)

lemma gotfunc_ignored:
  "\<not> rx_enabled s \<or> len < 20 \<Longrightarrow> gotfunc on_int tmp0 databuf len s = Some s"
  by (auto simp: gotfunc_def rx_enabled_def registers_csr0_def not_less)

text \<open>The filter changes the checksum table and nothing else.\<close>

lemma rx_ready_crc [simp]:
  "rx_slot (s\<lparr>crc := cu\<rparr>) = rx_slot s" "rx_status (s\<lparr>crc := cu\<rparr>) = rx_status s"
  "rx_buffer (s\<lparr>crc := cu\<rparr>) = rx_buffer s" "rx_room (s\<lparr>crc := cu\<rparr>) = rx_room s"
  "rx_ready (s\<lparr>crc := cu\<rparr>) n = rx_ready s n" "config_of (s\<lparr>crc := cu\<rparr>) = config_of s"
  by (simp_all add: rx_slot_def rx_status_def rx_buffer_def rx_room_def rx_ready_def config_of_def)

lemma rx_filter_snd:
  obtains cu where "snd (rx_filter fm d s) = s\<lparr>crc := cu\<rparr>" and "crc_inv (crc s) \<Longrightarrow> crc_inv cu"
  using rx_filter_crc [of fm d s]
proof
  assume *: "snd (rx_filter fm d s) = s"
  show thesis by (rule that [of "crc s"]) (simp_all add: *)
next
  assume *: "snd (rx_filter fm d s) = s\<lparr>crc := snd (crc32_compute (crc s) (take 6 d))\<rparr>"
  show thesis by (rule that [OF *]) (rule crc32_compute_inv)
qed

text \<open>What the memory holds after a frame \<open>bs\<close> (with its check sequence) was delivered into one buffer.\<close>

lemma delivered_view:
  fixes f :: "ram_addr \<Rightarrow> u8" and st c :: u16
  assumes clear: "list_all (\<lambda>k. \<not> in_block a room (o1 + of_nat k)) [0..<8]"
    and room: "room \<le> MAX_PACKET_SIZE" and d: "length d = MAX_PACKET_SIZE" and n: "n \<le> room"
  defines "g \<equiv> set_word (set_word (set_block f a (take room d)) (o1 + 2) st) (o1 + 6) c"
  shows "block_at g a n = take n d" "word_at g (o1 + 2) = st" "word_at g (o1 + 6) = c"
    "\<not> in_block a room x \<Longrightarrow> x \<notin> {o1 + 2, o1 + 3, o1 + 6, o1 + 7} \<Longrightarrow> g x = f x"
proof -
  have nb: "\<not> in_block a room (o1 + 2)" "\<not> in_block a room (o1 + 3)" "\<not> in_block a room (o1 + 6)" "\<not> in_block a room (o1 + 7)"
    using clear by (simp_all add: upt_rec numeral_eq_Suc add.assoc [symmetric])
  have len: "length (take room d) = room" using room d by simp
  have s1: "o1 + 2 + 1 = o1 + 3" "o1 + 6 + 1 = o1 + 7" by simp_all
  have "block_at g a room = take room d"
    using nb len room block_at_set_block [of "take room d" f a]
    by (simp add: g_def block_at_set_word s1)
  then show "block_at g a n = take n d"
    using take_block_at [OF n, of g a] n by (simp add: min_def)
  show "word_at g (o1 + 2) = st" "word_at g (o1 + 6) = c"
    by (simp_all add: g_def) (simp add: word_at_def set_word_def u16_halves)
  show "\<not> in_block a room x \<Longrightarrow> x \<notin> {o1 + 2, o1 + 3, o1 + 6, o1 + 7} \<Longrightarrow> g x = f x"
    using len room by (simp add: g_def set_word_def s1 set_block_outside)
qed

text \<open>What is examined and delivered, in one equation: an accepted frame goes to the delivery loop with
  its check sequence appended.\<close>

definition rx_payload :: "u8 list \<Rightarrow> nat \<Rightarrow> u8 list" where
  "rx_payload d len = take len d @ fcs_be (crc32_ref (take len d))"

lemma gotfunc_accepted:
  assumes cfg: "config_ok s" and en: "rx_enabled s" and len: "20 \<le> len" "len \<le> length databuf" "len + 4 \<le> MAX_PACKET_SIZE"
    and tmp0: "length tmp0 = MAX_PACKET_SIZE"
    and staged: "rx_staged s tmp0 databuf len = Some d" and pass: "fst (rx_filter (fakemac s) d s)"
  obtains d' cu where "length d' = MAX_PACKET_SIZE" and "take (len + 4) d' = rx_payload d len"
    and "gotfunc on_int tmp0 databuf len s =
      map_option (\<lambda>(ok, t). if ok then rx_finish on_int t else t)
        (rx_loop on_int (am_rdr_rdra s) (am_rdr_rlen s) d' (len + 4) 0 True (s\<lparr>crc := cu\<rparr>))"
proof -
  have wf: "mac_wf (mac s)" and ci: "crc_inv (crc s)"
    using cfg by (simp_all add: config_ok_def)
  have dl: "length d = MAX_PACKET_SIZE"
    using rx_staged_length [OF wf len(2) _ staged] len(3) tmp0 by simp
  obtain cu where f: "snd (rx_filter (fakemac s) d s) = s\<lparr>crc := cu\<rparr>" and cu: "crc_inv cu"
    using rx_filter_snd ci by metis
  define d' where "d' = put_seg d len (fcs_be (crc32_ref (take len d)))"
  show thesis
  proof (rule that [of d' "snd (crc32_compute cu (take len d))"])
    show "length d' = MAX_PACKET_SIZE" "take (len + 4) d' = rx_payload d len"
      using len(3) dl by (simp_all add: d'_def fcs_be_def put_seg_def rx_payload_def)
    have "rx_append_fcs d len (s\<lparr>crc := cu\<rparr>) = Some (d', s\<lparr>crc := snd (crc32_compute cu (take len d))\<rparr>)"
      using rx_append_fcs_eq [of "s\<lparr>crc := cu\<rparr>" len d] cu dl len(3) by (simp add: d'_def)
    then show "gotfunc on_int tmp0 databuf len s =
      map_option (\<lambda>(ok, t). if ok then rx_finish on_int t else t)
        (rx_loop on_int (am_rdr_rdra s) (am_rdr_rlen s) d' (len + 4) 0 True (s\<lparr>crc := snd (crc32_compute cu (take len d))\<rparr>))"
      using len(3) tmp0 by (simp add: gotfunc_eq [OF en len(1,2)] staged pass f rx_deliver_def split: option.splits)
        (auto split: bind_splits option.splits)
  qed
qed

lemma set_word_id: "set_word f a (word_at f a) = f"
proof -
  have "ucast (drop_bit 8 (push_bit 8 (ucast h) OR ucast l :: u16)) = h" "ucast (push_bit 8 (ucast h) OR ucast l :: u16) = l"
    for h l :: u8
    by (rule bit_word_eqI, auto simp: bit_simps dest: bit_imp_le_length)+
  then show ?thesis by (simp add: set_word_def word_at_def fun_eq_iff)
qed

context int_callback
begin

text \<open>A frame that passes the filter and finds a ready buffer is delivered there.\<close>

lemma rx_finish_chip:
  assumes "boardram t = base"
  shows "ram_view (rx_finish on_int t) = ram_view t" "csr (rx_finish on_int t) 0 = intr_of (csr t 0 OR CSR0_RINT)"
    "rdr_offset (rx_finish on_int t) = rdr_offset t" "config_of (rx_finish on_int t) = config_of t"
  using rethink_chip [of "registers_csr0_set CSR0_RINT t"] assms
  by (auto simp: rx_finish_def Let_def same_chip_def config_of_def registers_csr0_set_def)

lemma gotfunc_delivers:
  assumes run: "chip_inv base s" and en: "rx_enabled s" and ready: "rx_ready s (len + 4)"
    and len: "20 \<le> len" "len \<le> length databuf" and tmp0: "length tmp0 = MAX_PACKET_SIZE"
    and staged: "rx_staged s tmp0 databuf len = Some d" and pass: "fst (rx_filter (fakemac s) d s)"
  shows "\<exists>t. gotfunc on_int tmp0 databuf len s = Some t \<and>
    ram_read_block t (rx_buffer s) (len + 4) = rx_payload d len \<and>
    get_ram_word t (rx_slot s + 2) = (rx_status s AND NOT RX_OWN) OR RX_STP OR RX_ENP \<and>
    get_ram_word t (rx_slot s + 6) = of_nat (len + 4) \<and>
    rdr_offset t = rdr_offset s mod unat (am_rdr_rlen s) + 1 \<and> config_of t = config_of s \<and>
    csr t 0 = intr_of (csr s 0 OR CSR0_RINT) \<and>
    (\<forall>x. \<not> in_block (ucast (rx_buffer s)) (rx_room s) x \<and>
      x \<notin> {ucast (rx_slot s) + 2, ucast (rx_slot s) + 3, ucast (rx_slot s) + 6, ucast (rx_slot s) + 7} \<longrightarrow>
      ram_view t x = ram_view s x)"
proof -
  have base: "boardram s = base" and cfg: "config_ok s"
    using run by (simp_all add: chip_inv_def chip_busy_def)
  have rr: "list_all (\<lambda>k. \<not> in_block (ucast (rx_buffer s)) (rx_room s) (ucast (rx_slot s) + of_nat k)) [0..<8]"
    "rx_room s \<le> MAX_PACKET_SIZE" "len + 4 \<le> rx_room s"
    using ready by (simp_all add: rx_ready_def)
  then have len4: "len + 4 \<le> MAX_PACKET_SIZE" by simp
  obtain d' cu where d': "length d' = MAX_PACKET_SIZE" "take (len + 4) d' = rx_payload d len"
    and got: "gotfunc on_int tmp0 databuf len s =
      map_option (\<lambda>(ok, t). if ok then rx_finish on_int t else t)
        (rx_loop on_int (am_rdr_rdra s) (am_rdr_rlen s) d' (len + 4) 0 True (s\<lparr>crc := cu\<rparr>))"
    by (rule gotfunc_accepted [OF cfg en len len4 tmp0 staged pass])
  obtain t1 where loop: "rx_loop on_int (am_rdr_rdra s) (am_rdr_rlen s) d' (len + 4) 0 True (s\<lparr>crc := cu\<rparr>) = Some (True, t1)"
    and t1: "boardram t1 = base" "csr t1 = csr s" "config_of t1 = config_of s"
      "rdr_offset t1 = rdr_offset s mod unat (am_rdr_rlen s) + 1"
    and view: "ram_view t1 = set_word (set_word (set_block (ram_view s) (ucast (rx_buffer s)) (take (rx_room s) d'))
      (ucast (rx_slot s) + 2) ((rx_status s AND NOT RX_OWN) OR RX_STP OR RX_ENP))
      (ucast (rx_slot s) + 6) (of_nat (len + 4))"
    using rx_loop_single [of "s\<lparr>crc := cu\<rparr>" "len + 4" d' "am_rdr_rlen s" "am_rdr_rdra s" on_int] ready d'(1) base by auto
  note dv = delivered_view [where f = "ram_view s" and st = "(rx_status s AND NOT RX_OWN) OR RX_STP OR RX_ENP"
      and c = "of_nat (len + 4)", OF rr(1,2) d'(1) rr(3), folded view]
  show ?thesis
    using dv d'(2) rx_finish_chip [OF t1(1)] t1(2-4)
    by (intro exI [of _ "rx_finish on_int t1"])
      (simp add: got loop flat.read_block_view flat.get_w_view)
qed

lemma gotfunc_misses:
  assumes run: "chip_inv base s" and en: "rx_enabled s" and own: "\<not> has (rx_status s) RX_OWN"
    and len: "20 \<le> len" "len \<le> length databuf" "len + 4 \<le> MAX_PACKET_SIZE" and tmp0: "length tmp0 = MAX_PACKET_SIZE"
    and staged: "rx_staged s tmp0 databuf len = Some d" and pass: "fst (rx_filter (fakemac s) d s)"
  shows "\<exists>t. gotfunc on_int tmp0 databuf len s = Some t \<and> ram_view t = ram_view s \<and>
    csr t 0 = intr_of (csr s 0 OR CSR0_MISS) \<and> config_of t = config_of s \<and>
    rdr_offset t = rdr_offset s mod unat (am_rdr_rlen s)"
proof -
  have base: "boardram s = base" and cfg: "config_ok s"
    using run by (simp_all add: chip_inv_def chip_busy_def)
  obtain d' cu where "length d' = MAX_PACKET_SIZE" and "take (len + 4) d' = rx_payload d len"
    and got: "gotfunc on_int tmp0 databuf len s =
      map_option (\<lambda>(ok, t). if ok then rx_finish on_int t else t)
        (rx_loop on_int (am_rdr_rdra s) (am_rdr_rlen s) d' (len + 4) 0 True (s\<lparr>crc := cu\<rparr>))"
    by (rule gotfunc_accepted [OF cfg en len tmp0 staged pass])
  let ?u = "put_ram_word (registers_csr0_set CSR0_MISS (s\<lparr>crc := cu, rdr_offset := rdr_offset s mod unat (am_rdr_rlen s)\<rparr>))
     (rx_slot s + 2) (rx_status s)"
  have "rx_desc on_int (am_rdr_rdra s) (am_rdr_rlen s) d' (len + 4) 0 True (s\<lparr>crc := cu\<rparr>) = Some (Inl (False, rethink on_int ?u))"
    using own unfolding rx_desc_def Let_def by (simp add: rx_status_def rx_slot_def)
  then have g: "gotfunc on_int tmp0 databuf len s = Some (rethink on_int ?u)"
    by (simp add: got rx_loop.simps)
  have "ram_view ?u = ram_view s"
    using set_word_id [of "ram_view s" "ucast (rx_slot s) + 2"]
    by (simp add: flat.put_w_view rx_status_def flat.get_w_view)
  then show ?thesis
    using rethink_chip [of ?u] base
    by (intro exI [of _ "rethink on_int ?u"]) (auto simp: g same_chip_def config_of_def)
qed

end

section \<open>Which frames are accepted\<close>

text \<open>The address filter as the data sheet states it: promiscuous mode takes everything; a group
  address passes if it is the broadcast address or its hash bit is set in the logical address
  filter; an individual address passes if it is the station address. Frames the station sent to
  itself or to everyone are dropped.\<close>

definition ladrf_hash :: "mac_addr \<Rightarrow> nat" where
  "ladrf_hash dst = unat (drop_bit 26 (NOT (crc32_ref dst)))"

definition rx_accepts :: "bool \<Rightarrow> u64 \<Rightarrow> mac_addr \<Rightarrow> mac_addr \<Rightarrow> mac_addr \<Rightarrow> bool" where
  "rx_accepts prom ladrf station dst src \<longleftrightarrow>
     (prom \<or> (if bit (dst ! 0) 0 then dst = BROADCAST_MAC \<or> bit ladrf (ladrf_hash dst) else dst = station)) \<and>
     \<not> (src = station \<and> (dst = station \<or> dst = BROADCAST_MAC))"

lemma ladrf_hash_less: "ladrf_hash dst < 64"
proof -
  have "unat (drop_bit 26 w) < 64" for w :: u32
    using unsigned_less [of w, where 'a = nat] by (simp add: drop_bit_eq_div unat_div div_less_iff_less_mult)
  then show ?thesis by (simp add: ladrf_hash_def)
qed

lemma has_bit: "n < 64 \<Longrightarrow> has w (push_bit n 1) \<longleftrightarrow> bit w n" for w :: u64
proof
  assume "n < 64" and "bit w n"
  then have "bit (w AND push_bit n 1) n" by (simp add: bit_simps)
  then show "has w (push_bit n 1)" by (auto simp: has_def)
next
  assume "has w (push_bit n 1)"
  then obtain k where "bit (w AND push_bit n 1) k"
    by (auto simp: has_def bit_eq_iff)
  then show "bit w n" by (auto simp: bit_simps)
qed


text \<open>A frame of 4093 to 4096 bytes that reaches delivery (here in loopback mode, where nothing is
  filtered) makes the appended check sequence run past the end of the 4096-byte staging array.\<close>

theorem gotfunc_fcs_overflow:
  assumes "rx_enabled s" and "has (am_mode s) MODE_LOOP" and "length tmp0 = MAX_PACKET_SIZE"
    and "length databuf = MAX_PACKET_SIZE" and "4092 < len" and "len \<le> 4096"
  shows "gotfunc on_int tmp0 databuf len s = None"
proof -
  let ?d = "put_seg tmp0 0 (take len databuf)"
  have "rx_staged s tmp0 databuf len = Some ?d"
    using assms(2) by (simp add: rx_staged_def Let_def)
  moreover have "rx_filter (fakemac s) ?d s = (True, s)"
    using assms(2) by (simp add: rx_filter_def Let_def)
  moreover have "rx_append_fcs ?d len s = None"
    using assms by (intro rx_append_fcs_overflow) simp
  ultimately show ?thesis
    using assms gotfunc_eq [OF assms(1), of len databuf tmp0 on_int] by (simp add: rx_deliver_def)
qed

text \<open>C16: the transmit search stops at the first entry, in ring order from the current one, where a packet
  can start, and leaves the ring position alone when there is none.\<close>

theorem tx_find_first:
  assumes "tlen \<noteq> 0" and "start = tdr_offset s mod unat tlen"
  shows "case fst (tx_find tdra tlen s) of
      Some st \<Rightarrow> \<exists>j < unat tlen. tx_startable s tdra ((start + j) mod unat tlen) \<and>
        (\<forall>i < j. \<not> tx_startable s tdra ((start + i) mod unat tlen)) \<and>
        st = tx_status s tdra ((start + j) mod unat tlen) \<and>
        snd (tx_find tdra tlen s) = s\<lparr>tdr_offset := (start + j) mod unat tlen\<rparr>
    | None \<Rightarrow> (\<forall>e < unat tlen. \<not> tx_startable s tdra e) \<and> snd (tx_find tdra tlen s) = s\<lparr>tdr_offset := start\<rparr>"
proof (cases "find (\<lambda>j. tx_startable s tdra ((start + j) mod unat tlen)) [0..<unat tlen]")
  case None
  have "\<not> tx_startable s tdra e" if e: "e < unat tlen" for e
  proof -
    have "start < unat tlen" using assms e by simp
    define j where "j = (e + (unat tlen - start)) mod unat tlen"
    have "(start + j) mod unat tlen = (start + (e + (unat tlen - start))) mod unat tlen"
      by (simp add: j_def mod_simps)
    also have "\<dots> = e" using \<open>start < unat tlen\<close> e by simp
    finally have "(start + j) mod unat tlen = e" .
    moreover have "j < unat tlen" using e by (simp add: j_def)
    ultimately show ?thesis using None by (auto simp: find_None_iff)
  qed
  then show ?thesis
    using None by (simp add: tx_find_eq [OF assms(1)] Let_def assms(2) [symmetric])
next
  case (Some j)
  then have "j < unat tlen" "tx_startable s tdra ((start + j) mod unat tlen)"
    "\<forall>i < j. \<not> tx_startable s tdra ((start + i) mod unat tlen)"
    by (auto simp: find_Some_iff)
  then show ?thesis
    using Some by (auto simp: tx_find_eq [OF assms(1)] Let_def assms(2) [symmetric])
qed

section \<open>A running chip\<close>

text \<open>A started chip with one-entry rings at \<^verbatim>\<open>0x100\<close> and \<^verbatim>\<open>0x200\<close>, mode \<open>m\<close>, and the board RAM \<open>f\<close>.\<close>

definition running :: "u16 \<Rightarrow> (u32 \<Rightarrow> u8) \<Rightarrow> a2065" where
  "running m f = (static_init 0)\<lparr>map_w := f, csr := (\<lambda>_. 0)(0 := CSR0_STRT OR CSR0_RXON OR CSR0_TXON OR CSR0_INEA),
     am_initialized := True, am_mode := m, am_rdr_rlen := 1, am_rdr_rdra := 0x100, am_tdr_tlen := 1, am_tdr_tdra := 0x200,
     fakemac := mac_fakemac sample_mac, mac := sample_mac, sock_fd := 3\<rparr>"

lemma running_fields [simp]:
  "map_w (running m f) = f" "am_mode (running m f) = m" "boardram (running m f) = 0"
  "am_rdr_rlen (running m f) = 1" "am_rdr_rdra (running m f) = 0x100" "am_tdr_tlen (running m f) = 1"
  "am_tdr_tdra (running m f) = 0x200" "fakemac (running m f) = mac_fakemac sample_mac" "mac (running m f) = sample_mac"
  "crc (running m f) = crc_unit0" "rdr_offset (running m f) = 0" "tdr_offset (running m f) = 0"
  "sock_fd (running m f) = 3" "csr (running m f) 0 = CSR0_STRT OR CSR0_RXON OR CSR0_TXON OR CSR0_INEA"
  "am_ladrf (running m f) = 0" "sent (running m f) = []"
  by (simp_all add: running_def static_init_def)

lemma running_inv: "chip_inv 0 (running m f)"
  using static_init_config [of 0] sample_mac_wf(1)
  by (simp add: chip_inv_def chip_busy_def config_ok_def csr0_settled_def csr0_ok_def has_def running_def static_init_def
      sample_mac_def)

lemma running_rx_enabled: "rx_enabled (running m f)"
  by (simp add: rx_enabled_def has_def)


theorem gotfunc_fcs_overflow_witness:
  "gotfunc None (replicate 4096 0) (replicate 4096 0) 4093 (running MODE_LOOP (\<lambda>_. 0)) = None"
  using gotfunc_fcs_overflow [OF running_rx_enabled, of MODE_LOOP "\<lambda>_. 0" "replicate 4096 0" "replicate 4096 0" 4093 None]
  by (simp add: has_def)

theorem tx_find_first_witness: "fst (tx_find 0x200 1 (running 0 (\<lambda>_. 0))) = None"
proof -
  have "\<not> tx_startable (running 0 (\<lambda>_. 0)) 0x200 j" for j
    by (simp add: tx_startable_def tx_status_def get_ram_word_def get_ram_byte_def has_def)
  then show ?thesis
    using tx_find_first [of 1 0 "running 0 (\<lambda>_. 0)" "0x200"] by (simp split: option.splits)
qed

end
