(* ===== verification/Tx_Gather.thy ===== *)
theory Tx_Gather
  imports Desc_Rings
begin

text \<open>
  What the transmit side of \<^verbatim>\<open>rings.cpp\<close> sends: the specification of a packet that is spread over a
  chain of descriptors (\<open>tx_chain\<close>, \<open>tx_gather\<close>), and the proof that the gathering loop and
  \<open>do_transmit\<close> implement it.
\<close>

unbundle bit_operations_syntax

section \<open>The packet in the board RAM\<close>

text \<open>The address of entry \<open>j\<close> (counted around a ring of \<open>n\<close>) and what the entry says.\<close>

definition tx_slot :: "u32 \<Rightarrow> nat \<Rightarrow> nat \<Rightarrow> ram_addr" where
  "tx_slot tdra n j = ucast tdra + of_nat (8 * (j mod n))"

definition ent_status :: "(ram_addr \<Rightarrow> u8) \<Rightarrow> ram_addr \<Rightarrow> u16" where
  "ent_status f a = word_at f (a + 2)"

definition ent_size :: "(ram_addr \<Rightarrow> u8) \<Rightarrow> ram_addr \<Rightarrow> nat" where
  "ent_size f a = tx_size (word_at f (a + 4))"

definition ent_buffer :: "(ram_addr \<Rightarrow> u8) \<Rightarrow> ram_addr \<Rightarrow> ram_addr" where
  "ent_buffer f a = ucast (desc_addr (word_at f a) (word_at f (a + 2)))"

text \<open>\<open>k\<close> owned entries from entry \<open>j\<close>, of which the last and only the last ends the packet.\<close>

primrec tx_chain :: "(ram_addr \<Rightarrow> u8) \<Rightarrow> u32 \<Rightarrow> nat \<Rightarrow> nat \<Rightarrow> nat \<Rightarrow> bool" where
  "tx_chain f tdra n j 0 = False"
| "tx_chain f tdra n j (Suc k) =
    (has (ent_status f (tx_slot tdra n j)) TX_OWN \<and>
     (if k = 0 then has (ent_status f (tx_slot tdra n j)) TX_ENP
      else \<not> has (ent_status f (tx_slot tdra n j)) TX_ENP \<and> tx_chain f tdra n (Suc j) k))"

primrec tx_gather :: "(ram_addr \<Rightarrow> u8) \<Rightarrow> u32 \<Rightarrow> nat \<Rightarrow> nat \<Rightarrow> nat \<Rightarrow> u8 list" where
  "tx_gather f tdra n j 0 = []"
| "tx_gather f tdra n j (Suc k) =
    block_at f (ent_buffer f (tx_slot tdra n j)) (ent_size f (tx_slot tdra n j)) @ tx_gather f tdra n (Suc j) k"

text \<open>No buffer of the chain covers a status word of the chain.\<close>

definition tx_separate :: "(ram_addr \<Rightarrow> u8) \<Rightarrow> u32 \<Rightarrow> nat \<Rightarrow> nat \<Rightarrow> nat \<Rightarrow> bool" where
  "tx_separate f tdra n j k \<longleftrightarrow>
     (\<forall>i < k. \<forall>m < k. \<not> in_block (ent_buffer f (tx_slot tdra n (j + i))) (ent_size f (tx_slot tdra n (j + i))) (tx_slot tdra n (j + m) + 2) \<and>
        \<not> in_block (ent_buffer f (tx_slot tdra n (j + i))) (ent_size f (tx_slot tdra n (j + i))) (tx_slot tdra n (j + m) + 3))"

lemma ent_size_pos [simp]: "0 < ent_size f a"
  by (simp add: ent_size_def)

lemma ram_of_nat_inj: "(of_nat x :: ram_addr) = of_nat y \<Longrightarrow> x < 32768 \<Longrightarrow> y < 32768 \<Longrightarrow> x = y"
  by (drule arg_cong [of _ _ unat]) (simp add: unat_of_nat)

lemma tx_separateD:
  "tx_separate f tdra n j k \<Longrightarrow> i < k \<Longrightarrow> m < k \<Longrightarrow>
   \<not> in_block (ent_buffer f (tx_slot tdra n (j + i))) (ent_size f (tx_slot tdra n (j + i))) (tx_slot tdra n (j + m) + 2) \<and>
   \<not> in_block (ent_buffer f (tx_slot tdra n (j + i))) (ent_size f (tx_slot tdra n (j + i))) (tx_slot tdra n (j + m) + 3)"
  by (simp add: tx_separate_def)

text \<open>Entries of a ring of at most 512 do not overlap.\<close>

lemma tx_slot_distinct:
  assumes "n \<le> 512" and "j mod n \<noteq> i mod n" and "u < 8" and "w < 8" and "0 < n"
  shows "tx_slot tdra n j + of_nat u \<noteq> tx_slot tdra n i + of_nat w"
proof
  assume "tx_slot tdra n j + of_nat u = tx_slot tdra n i + of_nat w"
  then have "(of_nat (8 * (j mod n) + u) :: ram_addr) = of_nat (8 * (i mod n) + w)"
    by (simp add: tx_slot_def add.assoc)
  moreover have "j mod n < 512" "i mod n < 512"
    using assms(1,5) by (meson mod_less_divisor order.strict_trans2)+
  ultimately have "8 * (j mod n) + u = 8 * (i mod n) + w"
    using assms(3,4) by (intro ram_of_nat_inj) auto
  then show False using assms(2-4) by linarith
qed

text \<open>Clearing the ownership of one entry leaves the others, and what they point to, as they were.\<close>

lemma word_at_set_word_other:
  "x \<noteq> a \<Longrightarrow> x \<noteq> a + 1 \<Longrightarrow> x + 1 \<noteq> a \<Longrightarrow> x + 1 \<noteq> a + 1 \<Longrightarrow> word_at (set_word f a v) x = word_at f x"
  by (simp add: word_at_def set_word_def)

lemma ent_set_status:
  assumes "n \<le> 512" and "0 < n" and "j mod n \<noteq> i mod n" and g_def: "g = set_word f (tx_slot tdra n j + 2) v"
  shows "ent_status g (tx_slot tdra n i) = ent_status f (tx_slot tdra n i)"
    and "ent_size g (tx_slot tdra n i) = ent_size f (tx_slot tdra n i)"
    and "ent_buffer g (tx_slot tdra n i) = ent_buffer f (tx_slot tdra n i)"
proof -
  have "word_at g (tx_slot tdra n i + of_nat w) = word_at f (tx_slot tdra n i + of_nat w)" if "w < 7" for w
    using tx_slot_distinct [OF assms(1,3), of 2 w tdra] tx_slot_distinct [OF assms(1,3), of 3 w tdra]
      tx_slot_distinct [OF assms(1,3), of 2 "w + 1" tdra] tx_slot_distinct [OF assms(1,3), of 3 "w + 1" tdra] that assms(2)
    unfolding g_def by (intro word_at_set_word_other) (auto simp: algebra_simps)
  from this [of 0] this [of 2] this [of 4]
  show "ent_status g (tx_slot tdra n i) = ent_status f (tx_slot tdra n i)"
    "ent_size g (tx_slot tdra n i) = ent_size f (tx_slot tdra n i)"
    "ent_buffer g (tx_slot tdra n i) = ent_buffer f (tx_slot tdra n i)"
    by (simp_all add: ent_status_def ent_size_def ent_buffer_def)
qed

lemma tx_chain_cong:
  assumes "\<And>i. i < k \<Longrightarrow> ent_status g (tx_slot tdra n (j + i)) = ent_status f (tx_slot tdra n (j + i))"
  shows "tx_chain g tdra n j k = tx_chain f tdra n j k"
  using assms
proof (induction k arbitrary: j)
  case (Suc k)
  then have "tx_chain g tdra n (Suc j) k = tx_chain f tdra n (Suc j) k"
    using Suc.prems [of "Suc i" for i] by (intro Suc.IH) simp
  then show ?case using Suc.prems [of 0] by simp
qed simp

lemma tx_gather_cong:
  assumes "\<And>i. i < k \<Longrightarrow> ent_size g (tx_slot tdra n (j + i)) = ent_size f (tx_slot tdra n (j + i))"
    and "\<And>i. i < k \<Longrightarrow> ent_buffer g (tx_slot tdra n (j + i)) = ent_buffer f (tx_slot tdra n (j + i))"
    and "\<And>i. i < k \<Longrightarrow> block_at g (ent_buffer f (tx_slot tdra n (j + i))) (ent_size f (tx_slot tdra n (j + i))) =
      block_at f (ent_buffer f (tx_slot tdra n (j + i))) (ent_size f (tx_slot tdra n (j + i)))"
  shows "tx_gather g tdra n j k = tx_gather f tdra n j k"
  using assms
proof (induction k arbitrary: j)
  case (Suc k)
  then have "tx_gather g tdra n (Suc j) k = tx_gather f tdra n (Suc j) k"
    using Suc.prems(1) [of "Suc i" for i] Suc.prems(2) [of "Suc i" for i] Suc.prems(3) [of "Suc i" for i]
    by (intro Suc.IH) simp_all
  then show ?case using Suc.prems [of 0] by simp
qed simp

lemma tx_step_view:
  assumes n: "n \<le> 512" "0 < n" and k: "Suc k \<le> n" and sep: "tx_separate f tdra n j (Suc k)"
    and g_def: "g = set_word f (tx_slot tdra n j + 2) v"
  shows "tx_chain g tdra n (Suc j) k = tx_chain f tdra n (Suc j) k"
    and "tx_gather g tdra n (Suc j) k = tx_gather f tdra n (Suc j) k"
    and "tx_separate g tdra n (Suc j) k"
proof -
  have ne: "j mod n \<noteq> (Suc j + i) mod n" if "i < k" for i
  proof
    assume "j mod n = (Suc j + i) mod n"
    then have "n dvd Suc i" by (metis add_Suc_shift add_diff_cancel_left' mod_eq_dvd_iff_nat le_add1 mod_eq_self_iff_div_eq_0)
    then show False using that k by (auto dest: dvd_imp_le)
  qed
  note ent = ent_set_status [OF n ne g_def]
  have "block_at g (ent_buffer f (tx_slot tdra n (Suc j + i))) (ent_size f (tx_slot tdra n (Suc j + i))) =
      block_at f (ent_buffer f (tx_slot tdra n (Suc j + i))) (ent_size f (tx_slot tdra n (Suc j + i)))" if "i < k" for i
    using tx_separateD [OF sep, of "Suc i" 0] that unfolding g_def
    by (intro block_at_set_word) (simp_all add: add.assoc)
  then show "tx_gather g tdra n (Suc j) k = tx_gather f tdra n (Suc j) k"
    using ent by (intro tx_gather_cong) auto
  show "tx_chain g tdra n (Suc j) k = tx_chain f tdra n (Suc j) k"
    using ent by (intro tx_chain_cong) auto
  show "tx_separate g tdra n (Suc j) k"
    using tx_separateD [OF sep, of "Suc i" "Suc m" for i m] ent unfolding tx_separate_def [of g] by simp
qed

section \<open>The gathering loop\<close>

lemma ucast_entry: "(ucast (tdra + of_nat (j mod n) * 8) :: ram_addr) = tx_slot tdra n j"
proof -
  have "(of_nat (j mod n) * 8 :: u32) = of_nat (8 * (j mod n))" by simp
  then show ?thesis
    by (simp only: ucast_ram_add ucast_ram_of_nat tx_slot_def)
qed

text \<open>The words of the current entry, read by the loop.\<close>

lemma entry_words:
  fixes s :: "'a a2065_scheme"
  defines "off \<equiv> \<lambda>tdra n j. tdra + of_nat (j mod n) * 8 :: u32"
  shows "get_ram_word s (off tdra n j + 2) = ent_status (ram_view s) (tx_slot tdra n j)"
    and "tx_size (get_ram_word s (off tdra n j + 4)) = ent_size (ram_view s) (tx_slot tdra n j)"
    and "ucast (desc_addr (get_ram_word s (off tdra n j)) (get_ram_word s (off tdra n j + 2))) =
      ent_buffer (ram_view s) (tx_slot tdra n j)"
    and "get_ram_word s (off tdra n j + 6) = word_at (ram_view s) (tx_slot tdra n j + 6)"
  unfolding off_def
  by (simp_all add: flat.get_w_view ent_status_def ent_size_def ent_buffer_def ucast_entry [simplified])

definition pad60 :: "bool \<Rightarrow> u8 list \<Rightarrow> u8 list" where
  "pad60 loopback bs = (if loopback then bs else bs @ replicate (60 - length bs) 0)"

lemma length_pad60: "length (pad60 loopback bs) = (if loopback then length bs else max 60 (length bs))"
  by (auto simp: pad60_def max_def)

lemma take_put_seg_end:
  "i + length xs \<le> length b \<Longrightarrow> take (i + length xs) (put_seg b i xs) = take i b @ xs"
  by (simp add: put_seg_def)

text \<open>One owned entry whose bytes fit: what the turn of the loop does, in terms of the packet.\<close>

lemma tx_desc_owned:
  fixes s :: "'a a2065_scheme" and tdra tlen :: u32 and outsize :: nat
  defines "a \<equiv> tx_slot tdra (unat tlen) (tdr_offset s)" and "f \<equiv> ram_view s"
    and "off \<equiv> tdra + of_nat (tdr_offset s mod unat tlen) * 8"
  assumes own: "has (ent_status f a) TX_OWN"
    and fits: "outsize + ent_size f a \<le> MAX_PACKET_SIZE" and buf: "length (transmitbuffer s) = MAX_PACKET_SIZE"
  defines "n \<equiv> outsize + ent_size f a"
    and "buf1 \<equiv> put_seg (transmitbuffer s) outsize (block_at f (ent_buffer f a) (ent_size f a))"
    and "idx \<equiv> tdr_offset s mod unat tlen"
  shows "tx_desc tdra tlen outsize s =
    (if has (ent_status f a) TX_ENP then
       map_option (\<lambda>(b, m). Inl (\<lparr>tx_err = False, tx_off = off, tx_tmd1 = ent_status f a AND NOT TX_OWN,
           tx_tmd3 = word_at f (a + 6), tx_outsize = m\<rparr>, s\<lparr>transmitbuffer := b, tdr_offset := idx + 1\<rparr>))
         (if n < 60 \<and> \<not> has (am_mode s) MODE_LOOP then tx_pad buf1 n else Some (buf1, n))
     else Some (Inr (n, put_ram_word (put_ram_word (s\<lparr>transmitbuffer := buf1, tdr_offset := idx + 1\<rparr>) (off + 2) (ent_status f a AND NOT TX_OWN))
       (off + 6) (word_at f (a + 6)))))"
proof -
  define blk where "blk = block_at f (ent_buffer f a) (ent_size f a)"
  have n: "n \<le> MAX_PACKET_SIZE" using fits by (simp add: n_def)
  have words: "get_ram_word s (off + 2) = ent_status f a"
    "tx_size (get_ram_word s (off + 4)) = ent_size f a"
    "ucast (desc_addr (get_ram_word s off) (get_ram_word s (off + 2))) = ent_buffer f a"
    "get_ram_word s (off + 6) = word_at f (a + 6)"
    unfolding off_def f_def a_def by (rule entry_words)+
  have rd: "ram_read_block s (desc_addr (get_ram_word s off) (ent_status f a)) (ent_size f a) = blk"
    using words(1,3) by (simp add: flat.read_block_view blk_def f_def)
  have w: "wrn (transmitbuffer s) outsize blk = Some buf1"
    using buf n by (simp add: buf1_def n_def blk_def)
  have e: "has (ent_status f a AND NOT TX_OWN) TX_ENP = has (ent_status f a) TX_ENP"
    by (auto simp: flag_bits)
  show ?thesis
    unfolding tx_desc_def Let_def
    using n
    by (simp add: off_def [symmetric] words rd w own e [simplified] n_def [symmetric] idx_def cong: if_cong split del: if_split)
      (auto split: bind_splits option.splits)
qed

text \<open>An entry that ends the packet.\<close>

lemma tx_desc_last:
  fixes s :: "'a a2065_scheme" and tdra tlen :: u32 and outsize :: nat
  defines "a \<equiv> tx_slot tdra (unat tlen) (tdr_offset s)" and "f \<equiv> ram_view s"
  assumes own: "has (ent_status f a) TX_OWN" and enp: "has (ent_status f a) TX_ENP"
    and fits: "outsize + ent_size f a \<le> MAX_PACKET_SIZE" and buf: "length (transmitbuffer s) = MAX_PACKET_SIZE"
  defines "frame \<equiv> pad60 (has (am_mode s) MODE_LOOP) (take outsize (transmitbuffer s) @ block_at f (ent_buffer f a) (ent_size f a))"
  shows "\<exists>l t. tx_desc tdra tlen outsize s = Some (Inl (l, t)) \<and> \<not> tx_err l \<and>
    tx_off l = tdra + of_nat (tdr_offset s mod unat tlen) * 8 \<and> tx_tmd1 l = ent_status f a AND NOT TX_OWN \<and>
    tx_tmd3 l = word_at f (a + 6) \<and> tx_outsize l = length frame \<and>
    take (length frame) (transmitbuffer t) = frame \<and> length (transmitbuffer t) = MAX_PACKET_SIZE \<and>
    tdr_offset t = tdr_offset s mod unat tlen + 1 \<and> ram_view t = f \<and> boardram t = boardram s \<and>
    csr t = csr s \<and> config_of t = config_of s \<and> sent t = sent s \<and> sock_fd t = sock_fd s"
proof -
  define blk where "blk = block_at f (ent_buffer f a) (ent_size f a)"
  define buf1 where "buf1 = put_seg (transmitbuffer s) outsize blk"
  define n where "n = outsize + ent_size f a"
  define loop where "loop = has (am_mode s) MODE_LOOP"
  have n: "n \<le> MAX_PACKET_SIZE" using fits by (simp add: n_def)
  have b1: "length buf1 = MAX_PACKET_SIZE" "take n buf1 = take outsize (transmitbuffer s) @ blk"
    using fits buf take_put_seg_end [of outsize blk "transmitbuffer s"] by (simp_all add: buf1_def n_def blk_def)
  have ln: "length (take n buf1) = n"
    using b1(1) n by (simp only: length_take min.absorb2)
  define buf2 where "buf2 = (if n < 60 \<and> \<not> loop then put_seg buf1 n (replicate (60 - n) 0) else buf1)"
  have frame: "frame = pad60 loop (take n buf1)"
    using b1 by (simp add: frame_def blk_def [symmetric] loop_def)
  have b2: "length buf2 = MAX_PACKET_SIZE" "length frame = (if n < 60 \<and> \<not> loop then 60 else n)"
    using b1 n ln by (auto simp: buf2_def frame length_pad60)
  have b2t: "take (length frame) buf2 = frame"
    using b1 n ln b2(2) take_put_seg_end [of n "replicate (60 - n) 0" buf1]
    by (auto simp: buf2_def frame pad60_def)
  have pd: "(if n < 60 \<and> \<not> loop then tx_pad buf1 n else Some (buf1, n)) = Some (buf2, length frame)"
    using tx_pad_eq [of buf1 n] b1(1) by (auto simp: buf2_def b2(2))
  note d = tx_desc_owned [of s tdra tlen outsize, folded a_def f_def, OF own fits buf, folded blk_def loop_def,
      folded buf1_def, folded n_def, unfolded pd]
  then show ?thesis
    using enp b2 b2t by (simp add: f_def config_of_def)
qed

text \<open>An entry that does not end the packet: its bytes are taken and its ownership is returned.\<close>

lemma tx_desc_middle:
  fixes s :: "'a a2065_scheme" and tdra tlen :: u32 and outsize :: nat
  defines "a \<equiv> tx_slot tdra (unat tlen) (tdr_offset s)" and "f \<equiv> ram_view s"
  assumes own: "has (ent_status f a) TX_OWN" and enp: "\<not> has (ent_status f a) TX_ENP"
    and fits: "outsize + ent_size f a \<le> MAX_PACKET_SIZE" and buf: "length (transmitbuffer s) = MAX_PACKET_SIZE"
  shows "\<exists>t. tx_desc tdra tlen outsize s = Some (Inr (outsize + ent_size f a, t)) \<and>
    take (outsize + ent_size f a) (transmitbuffer t) =
      take outsize (transmitbuffer s) @ block_at f (ent_buffer f a) (ent_size f a) \<and>
    length (transmitbuffer t) = MAX_PACKET_SIZE \<and> tdr_offset t = tdr_offset s mod unat tlen + 1 \<and>
    boardram t = boardram s \<and> csr t = csr s \<and> config_of t = config_of s \<and>
    sent t = sent s \<and> sock_fd t = sock_fd s \<and>
    ram_view t = set_word f (a + 2) (ent_status f a AND NOT TX_OWN)"
proof -
  have o: "(ucast (tdra + of_nat (tdr_offset s mod unat tlen) * 8) :: ram_addr) = a"
    unfolding a_def by (rule ucast_entry)
  have "word_at (set_word f (a + 2) v) (a + 6) = word_at f (a + 6)" for v
    by (rule word_at_set_word_other) simp_all
  then have keep: "set_word (set_word f (a + 2) v) (a + 6) (word_at f (a + 6)) = set_word f (a + 2) v" for v
    using set_word_id [of "set_word f (a + 2) v" "a + 6"] by simp
  show ?thesis
    using tx_desc_owned [of s tdra tlen outsize, folded a_def f_def, OF own fits buf] enp buf fits
      take_put_seg_end [of outsize "block_at f (ent_buffer f a) (ent_size f a)" "transmitbuffer s"]
    by (simp add: config_of_def flat.put_w_view o [simplified] keep f_def [symmetric])
qed

text \<open>The memory after the ownership of \<open>k\<close> entries was returned.\<close>

primrec tx_released :: "(ram_addr \<Rightarrow> u8) \<Rightarrow> u32 \<Rightarrow> nat \<Rightarrow> nat \<Rightarrow> nat \<Rightarrow> ram_addr \<Rightarrow> u8" where
  "tx_released f tdra n j 0 = f"
| "tx_released f tdra n j (Suc k) =
     tx_released (set_word f (tx_slot tdra n j + 2) (ent_status f (tx_slot tdra n j) AND NOT TX_OWN)) tdra n (Suc j) k"

text \<open>What the loop leaves behind: the frame in the transmit buffer, and nothing else of the chip changed.\<close>

definition tx_gathered :: "u8 list \<Rightarrow> 'a a2065_scheme \<Rightarrow> tx_locals \<Rightarrow> 'a a2065_scheme \<Rightarrow> bool" where
  "tx_gathered frame s l t \<longleftrightarrow> \<not> tx_err l \<and> tx_outsize l = length frame \<and>
     take (length frame) (transmitbuffer t) = frame \<and> length (transmitbuffer t) = MAX_PACKET_SIZE \<and>
     boardram t = boardram s \<and> csr t = csr s \<and> config_of t = config_of s \<and> sent t = sent s \<and> sock_fd t = sock_fd s"

lemma config_of_mode: "config_of t = config_of s \<Longrightarrow> am_mode t = am_mode s \<and> fakemac t = fakemac s \<and> mac t = mac s"
  by (simp add: config_of_def)

lemma tx_gatheredD:
  assumes "tx_gathered frame s l t"
  shows "am_mode t = am_mode s" "fakemac t = fakemac s" "mac t = mac s" "sock_fd t = sock_fd s" "sent t = sent s"
    "csr t = csr s" "boardram t = boardram s" "tx_outsize l = length frame" "\<not> tx_err l"
    "length (transmitbuffer t) = MAX_PACKET_SIZE" "take (length frame) (transmitbuffer t) = frame"
  using assms unfolding tx_gathered_def config_of_def by (elim conjE; simp)+

lemma tx_loop_gather:
  fixes tlen :: u32
  defines "n \<equiv> unat tlen"
  assumes "0 < n" "n \<le> 512" "k \<le> n" and "tx_chain f tdra n j k" and "tx_separate f tdra n j k"
    and "outsize + length (tx_gather f tdra n j k) \<le> MAX_PACKET_SIZE"
    and "length (transmitbuffer s) = MAX_PACKET_SIZE" and "tdr_offset s mod n = j mod n" and "ram_view s = f"
  shows "\<exists>l t. tx_loop tdra tlen outsize s = Some (l, t) \<and>
    tx_gathered (pad60 (has (am_mode s) MODE_LOOP) (take outsize (transmitbuffer s) @ tx_gather f tdra n j k)) s l t \<and>
    tdr_offset t = (j + k - 1) mod n + 1 \<and> tx_off l = tdra + of_nat ((j + k - 1) mod n) * 8 \<and>
    ram_view t = tx_released f tdra n j (k - 1) \<and>
    tx_tmd1 l = ent_status (ram_view t) (tx_slot tdra n (j + k - 1)) AND NOT TX_OWN \<and>
    tx_tmd3 l = word_at (ram_view t) (tx_slot tdra n (j + k - 1) + 6)"
  using assms(2-)
proof (induction k arbitrary: f j outsize s)
  case (Suc k)
  let ?a = "tx_slot tdra n j"
  have slot: "tx_slot tdra (unat tlen) (tdr_offset s) = ?a"
    using Suc.prems(8) by (simp add: tx_slot_def n_def)
  have own: "has (ent_status f ?a) TX_OWN" using Suc.prems(4) by simp
  have fits: "outsize + ent_size f ?a \<le> MAX_PACKET_SIZE"
    using Suc.prems(6) by simp
  show ?case
  proof (cases "k = 0")
    case True
    then have "has (ent_status f ?a) TX_ENP" using Suc.prems(4) by simp
    then obtain l t where step: "tx_desc tdra tlen outsize s = Some (Inl (l, t))"
      and "tx_gathered (pad60 (has (am_mode s) MODE_LOOP) (take outsize (transmitbuffer s) @ tx_gather f tdra n j 1)) s l t"
      and "tdr_offset t = j mod n + 1" "tx_off l = tdra + of_nat (j mod n) * 8" "ram_view t = f"
        "tx_tmd1 l = ent_status f ?a AND NOT TX_OWN" "tx_tmd3 l = word_at f (?a + 6)"
      using tx_desc_last [of s tdra tlen outsize] own fits Suc.prems(7-9)
      by (auto simp: slot tx_gathered_def n_def)
    then show ?thesis
      using True by (simp add: tx_loop.simps)
  next
    case False
    then have enp: "\<not> has (ent_status f ?a) TX_ENP" and chain: "tx_chain f tdra n (Suc j) k"
      using Suc.prems(4) by simp_all
    let ?g = "set_word f (?a + 2) (ent_status f ?a AND NOT TX_OWN)"
    obtain u where step: "tx_desc tdra tlen outsize s = Some (Inr (outsize + ent_size f ?a, u))"
      and buf: "take (outsize + ent_size f ?a) (transmitbuffer u) =
        take outsize (transmitbuffer s) @ block_at f (ent_buffer f ?a) (ent_size f ?a)"
      and u: "length (transmitbuffer u) = MAX_PACKET_SIZE" "tdr_offset u = j mod n + 1"
        "boardram u = boardram s" "csr u = csr s" "config_of u = config_of s" "sent u = sent s" "sock_fd u = sock_fd s"
        "ram_view u = ?g"
      using tx_desc_middle [of s tdra tlen outsize] own enp fits Suc.prems(7-9)
      by (auto simp: slot n_def)
    note g = tx_step_view [OF Suc.prems(2,1,3,5) refl, of "ent_status f ?a AND NOT TX_OWN"]
    have off: "tdr_offset u mod n = Suc j mod n"
      using u(2) by (simp add: mod_Suc_eq)
    have len: "outsize + ent_size f ?a + length (tx_gather ?g tdra n (Suc j) k) \<le> MAX_PACKET_SIZE"
      using Suc.prems(6) g(2) by simp
    obtain l t where loop: "tx_loop tdra tlen (outsize + ent_size f ?a) u = Some (l, t)"
      and "tx_gathered (pad60 (has (am_mode u) MODE_LOOP)
          (take (outsize + ent_size f ?a) (transmitbuffer u) @ tx_gather ?g tdra n (Suc j) k)) u l t"
        "tdr_offset t = (Suc j + k - 1) mod n + 1" "tx_off l = tdra + of_nat ((Suc j + k - 1) mod n) * 8"
        "ram_view t = tx_released ?g tdra n (Suc j) (k - 1)"
        "tx_tmd1 l = ent_status (ram_view t) (tx_slot tdra n (Suc j + k - 1)) AND NOT TX_OWN"
        "tx_tmd3 l = word_at (ram_view t) (tx_slot tdra n (Suc j + k - 1) + 6)"
      using Suc.IH [OF Suc.prems(1,2) _ g(1) [THEN iffD2, OF chain] g(3) len u(1) off u(8)] Suc.prems(3) by auto
    moreover have "tx_loop tdra tlen outsize s = Some (l, t)"
      using step loop by (subst tx_loop.simps) simp
    moreover have "tx_released f tdra n j k = tx_released ?g tdra n (Suc j) (k - 1)"
      using False by (cases k) simp_all
    ultimately show ?thesis
      using buf u g(2) config_of_mode [OF u(5)] by (simp add: tx_gathered_def)
  qed
qed simp

section \<open>Sending\<close>

lemma tx_released_snoc:
  "tx_released f tdra n j (Suc k) =
    (let g = tx_released f tdra n j k; a = tx_slot tdra n (j + k)
     in set_word g (a + 2) (ent_status g a AND NOT TX_OWN))"
proof (induction k arbitrary: f j)
  case (Suc k)
  let ?g = "set_word f (tx_slot tdra n j + 2) (ent_status f (tx_slot tdra n j) AND NOT TX_OWN)"
  have "tx_released f tdra n j (Suc (Suc k)) = tx_released ?g tdra n (Suc j) (Suc k)"
    by (rule tx_released.simps(2))
  moreover have "tx_released f tdra n j (Suc k) = tx_released ?g tdra n (Suc j) k"
    by (rule tx_released.simps(2))
  ultimately show ?case
    using Suc.IH [of ?g "Suc j"] by (simp only: add_Suc_shift)
qed (simp add: Let_def)

text \<open>Writing the status words of the last entry back returns its ownership.\<close>

lemma put_status:
  assumes "(ucast off :: ram_addr) = a"
  shows "ram_view (put_ram_word (put_ram_word s (off + 2) (ent_status (ram_view s) a AND NOT TX_OWN)) (off + 6) (word_at (ram_view s) (a + 6)))
    = set_word (ram_view s) (a + 2) (ent_status (ram_view s) a AND NOT TX_OWN)"
proof -
  have "word_at (set_word f (a + 2) v) (a + 6) = word_at f (a + 6)" for f :: "ram_addr \<Rightarrow> u8" and v
    by (rule word_at_set_word_other) simp_all
  then have "set_word (set_word f (a + 2) v) (a + 6) (word_at f (a + 6)) = set_word f (a + 2) v" for f :: "ram_addr \<Rightarrow> u8" and v
    using set_word_id [of "set_word f (a + 2) v" "a + 6"] by simp
  then show ?thesis by (simp add: flat.put_w_view assms)
qed

definition tx_enabled :: "'a a2065_scheme \<Rightarrow> bool" where
  "tx_enabled s \<longleftrightarrow> has (csr s 0) CSR0_TXON \<and> am_tdr_tlen s \<noteq> 0 \<and> am_tdr_tlen s \<le> 512 \<and>
     am_tdr_tdra s + (am_tdr_tlen s - 1) * 8 \<le> RAM_MASK"

lemma tx_enabled_ring: "tx_enabled s \<Longrightarrow> 0 < unat (am_tdr_tlen s) \<and> unat (am_tdr_tlen s) \<le> 512"
  by (auto simp: tx_enabled_def unat_gt_0 word_le_nat_alt)

lemma do_transmit_unfold:
  assumes "tx_enabled s" and "tx_find (am_tdr_tdra s) (am_tdr_tlen s) s = (Some st, u)"
    and "tx_loop (am_tdr_tdra s) (am_tdr_tlen s) 0 u = Some (l, t)"
    and "\<not> tx_err l" and "60 \<le> tx_outsize l \<or> has (am_mode t) MODE_LOOP"
  shows "do_transmit on_int tmp0 s =
    map_option (\<lambda>v. (1, rethink on_int (registers_csr0_set CSR0_TINT v))) (tx_dispatch on_int tmp0 (has st TX_ADD_FCS) l t)"
  using assms
  by (auto simp: do_transmit_def tx_enabled_def registers_csr0_def Let_def not_less split: bind_splits option.splits)

text \<open>The number of bytes handed to the socket: without the last four when the driver supplies the
  check sequence itself.\<close>

definition wire_len :: "'a a2065_scheme \<Rightarrow> u16 \<Rightarrow> nat \<Rightarrow> nat" where
  "wire_len s st n = (if has (am_mode s) MODE_DTCR \<and> \<not> has st TX_ADD_FCS then n - 4 else n)"

lemma tx_dispatch_wire:
  assumes "\<not> has (am_mode s) MODE_LOOP" and "\<not> has (am_mode s) MODE_COLL"
    and "length (transmitbuffer s) = MAX_PACKET_SIZE" and "60 \<le> tx_outsize l" "tx_outsize l \<le> MAX_PACKET_SIZE"
    and "take 6 (transmitbuffer s) \<noteq> fakemac s" and "0 \<le> sock_fd s" and "mac_wf (mac s)"
    and "mungepacket (mac s) (transmitbuffer s) (wire_len s st (tx_outsize l)) = Some (buf, m)"
  shows "\<exists>v. tx_dispatch on_int tmp0 (has st TX_ADD_FCS) l s = Some v \<and>
    sent v = sent s @ [take (wire_len s st (tx_outsize l)) buf] \<and>
    transmitlen v = wire_len s st (tx_outsize l) \<and> csr v = csr s \<and> boardram v = boardram s \<and>
    ram_view v = ram_view (put_ram_word (put_ram_word s (tx_off l + 2) (tx_tmd1 l)) (tx_off l + 6) (tx_tmd3 l))"
proof -
  define n where "n = wire_len s st (tx_outsize l)"
  have n: "n \<noteq> 0" "n \<le> MAX_PACKET_SIZE"
    using assms(4,5) by (auto simp: n_def wire_len_def)
  have "length buf = MAX_PACKET_SIZE"
    using mungepacket_length(1) [OF assms(8,9)] assms(3) by simp
  then show ?thesis
    using assms n unfolding n_def [symmetric]
    by (simp add: tx_dispatch_def Let_def wire_len_def [symmetric] n_def [symmetric] ethernet_send_some)
qed

context int_callback
begin

text \<open>A packet that lies in a chain of descriptors goes out as one frame: gathered, padded to the
  minimal length, translated, and reported by TINT; the ownership of all its entries is returned.\<close>

lemma do_transmit_sends:
  assumes run: "chip_busy base s" and en: "tx_enabled s" and open_: "0 \<le> sock_fd s"
    and mode: "\<not> has (am_mode s) MODE_LOOP" "\<not> has (am_mode s) MODE_COLL"
  defines "n \<equiv> unat (am_tdr_tlen s)" and "f \<equiv> ram_view s"
  assumes start: "tx_find (am_tdr_tdra s) (am_tdr_tlen s) s = (Some st, s\<lparr>tdr_offset := j\<rparr>)" "j < n"
    and chain: "tx_chain f (am_tdr_tdra s) n j k" and sep: "tx_separate f (am_tdr_tdra s) n j k" and k: "k \<le> n"
    and size: "length (tx_gather f (am_tdr_tdra s) n j k) \<le> MAX_PACKET_SIZE"
  defines "frame \<equiv> pad60 False (tx_gather f (am_tdr_tdra s) n j k)"
  assumes dst: "take 6 frame \<noteq> fakemac s"
  shows "\<exists>buf. length buf = MAX_PACKET_SIZE \<and> take (length frame) buf = frame \<and>
    (\<forall>buf' m. mungepacket (mac s) buf (wire_len s st (length frame)) = Some (buf', m) \<longrightarrow>
      (\<exists>t. do_transmit on_int tmp0 s = Some (1, t) \<and>
        sent t = sent s @ [take (wire_len s st (length frame)) buf'] \<and>
        ram_view t = tx_released f (am_tdr_tdra s) n j k \<and> csr t 0 = intr_of (csr s 0 OR CSR0_TINT)))"
proof -
  let ?tdra = "am_tdr_tdra s" and ?tlen = "am_tdr_tlen s"
  have base: "boardram s = base" and wf: "mac_wf (mac s)" and buf: "length (transmitbuffer s) = MAX_PACKET_SIZE"
    and fm: "length (fakemac s) = 6"
    using run by (simp_all add: chip_busy_def config_ok_def)
  have n: "0 < n" "n \<le> 512" using tx_enabled_ring [OF en] by (simp_all add: n_def)
  have k0: "0 < k" using chain by (cases k) simp_all
  obtain l t where loop: "tx_loop ?tdra ?tlen 0 (s\<lparr>tdr_offset := j\<rparr>) = Some (l, t)"
    and gath: "tx_gathered frame (s\<lparr>tdr_offset := j\<rparr>) l t"
    and off: "tx_off l = ?tdra + of_nat ((j + k - 1) mod n) * 8"
    and view: "ram_view t = tx_released f ?tdra n j (k - 1)"
    and tmd: "tx_tmd1 l = ent_status (ram_view t) (tx_slot ?tdra n (j + k - 1)) AND NOT TX_OWN"
      "tx_tmd3 l = word_at (ram_view t) (tx_slot ?tdra n (j + k - 1) + 6)"
    using tx_loop_gather [of ?tlen k f ?tdra j 0 "s\<lparr>tdr_offset := j\<rparr>", folded n_def, OF n k chain sep]
      size buf mode(1) by (auto simp: frame_def f_def)
  have lf: "60 \<le> length frame" "length frame \<le> MAX_PACKET_SIZE"
    using size by (simp_all add: frame_def length_pad60)
  note same = tx_gatheredD [OF gath, simplified]
  have wl: "wire_len t = wire_len s" by (simp add: wire_len_def fun_eq_iff same)
  have dst': "take 6 (transmitbuffer t) \<noteq> fakemac t"
  proof -
    have "take 6 (transmitbuffer t) = take 6 (take (length frame) (transmitbuffer t))"
      using lf(1) by (simp add: min_def)
    then show ?thesis using dst same by simp
  qed
  have final: "\<exists>t'. do_transmit on_int tmp0 s = Some (1, t') \<and>
      sent t' = sent s @ [take (wire_len s st (length frame)) buf'] \<and>
      ram_view t' = tx_released f ?tdra n j k \<and> csr t' 0 = intr_of (csr s 0 OR CSR0_TINT)"
    if m: "mungepacket (mac s) (transmitbuffer t) (wire_len s st (length frame)) = Some (buf', m)" for buf' m
  proof -
    obtain v where v: "tx_dispatch on_int tmp0 (has st TX_ADD_FCS) l t = Some v"
      "sent v = sent s @ [take (wire_len s st (length frame)) buf']" "csr v = csr s" "boardram v = boardram s"
      "ram_view v = ram_view (put_ram_word (put_ram_word t (tx_off l + 2) (tx_tmd1 l)) (tx_off l + 6) (tx_tmd3 l))"
      using tx_dispatch_wire [of t l st buf' m on_int tmp0] m mode same wf lf dst' open_ by (auto simp: wl)
    have "ram_view v = tx_released f ?tdra n j k"
      using v(5) put_status [of "tx_off l" "tx_slot ?tdra n (j + k - 1)" t] tx_released_snoc [of f ?tdra n j "k - 1"] k0
      by (simp add: off tmd ucast_entry [simplified] view Let_def)
    then show ?thesis
      using do_transmit_unfold [OF en start(1) loop same(9), of on_int tmp0] lf v same(8)
        rethink_chip [of "registers_csr0_set CSR0_TINT v"]
      by (auto simp: same_chip_def registers_csr0_set_def base)
  qed
  then show ?thesis
    using same by (intro exI [of _ "transmitbuffer t"]) blast
qed

end

end
