(* ===== verification/Doorbell.thy ===== *)
theory Doorbell
  imports Tx_Gather
begin

text \<open>
  \<^verbatim>\<open>src/arm/src/main_doorbell.cpp\<close> with \<^verbatim>\<open>include/a2065_ddr3_flat.h\<close>: the daemon that serves the
  card over a shared DDR3 window. The FPGA leaves a register write of the 68k in the command slot;
  the daemon applies it, clears the slot and publishes CSR0 to CSR3 and the interrupt line in two more
  slots. The 68k does not wait: it reads the published copy (theory \<open>Fpga_Regfile\<close>). A second thread receives frames.

  \<open>poll_step\<close> is one turn of the main loop and \<open>rx_step\<close> one turn of the receive thread, each run
  without the other in between; the theory \<open>Interleaving\<close> lets them alternate. The two signed
  counters of the main loop overflow after 2147483647 turns, which is undefined and \<open>None\<close> here.
  Host name, process id, clock and the answers of the kernel are arguments.
\<close>

unbundle bit_operations_syntax

section \<open>The window\<close>

abbreviation DDR3_BRAM_OFF :: u32 where "DDR3_BRAM_OFF \<equiv> 0x0000"
abbreviation DDR3_CMD_OFF :: u32 where "DDR3_CMD_OFF \<equiv> 0x8000"
abbreviation DDR3_CSR_OFF :: u32 where "DDR3_CSR_OFF \<equiv> 0x8010"
abbreviation DDR3_INT_OFF :: u32 where "DDR3_INT_OFF \<equiv> 0x8018"
abbreviation DDR3_MAC_OFF :: u32 where "DDR3_MAC_OFF \<equiv> 0x8028"
abbreviation DDR3_CMD_PENDING_BIT :: u64 where "DDR3_CMD_PENDING_BIT \<equiv> 1"
abbreviation DDR3_CMD_RAP_SHIFT :: nat where "DDR3_CMD_RAP_SHIFT \<equiv> 1"
abbreviation DDR3_CMD_RAP_MASK :: u64 where "DDR3_CMD_RAP_MASK \<equiv> 0x7F"
abbreviation DDR3_CMD_DATA_SHIFT :: nat where "DDR3_CMD_DATA_SHIFT \<equiv> 8"
abbreviation DDR3_CMD_DATA_MASK :: u64 where "DDR3_CMD_DATA_MASK \<equiv> 0xFFFF"

abbreviation INT_MAX :: int where "INT_MAX \<equiv> 2147483647"

record doorbell = a2065 +
  idle :: int
  dbg_cnt :: int
  poll_cnt :: int

section \<open>Publishing\<close>

definition csr_packed :: "'a a2065_scheme \<Rightarrow> u64" where
  "csr_packed s =
    (let c0 = registers_csr0 s; c1 = registers_csr 1 s; c2 = registers_csr 2 s; c3 = registers_csr 3 s
     in ucast c0 OR push_bit 16 (ucast c1) OR push_bit 32 (ucast c2) OR push_bit 48 (ucast c3))"

definition push_csr_shadow :: "'a a2065_scheme \<Rightarrow> 'a a2065_scheme" where
  "push_csr_shadow s = wr64 s DDR3_CSR_OFF (csr_packed s)"

definition int_value :: "u16 \<Rightarrow> u64" where
  "int_value csr0 = (if has csr0 CSR0_INTR \<and> has csr0 CSR0_INEA then 1 else 0)"

definition update_int_state :: "'a a2065_scheme \<Rightarrow> 'a a2065_scheme" where
  "update_int_state s = wr64 s DDR3_INT_OFF (int_value (registers_csr0 s))"

definition on_interrupt_cb :: "'a a2065_scheme \<Rightarrow> 'a a2065_scheme" where
  "on_interrupt_cb s = update_int_state (push_csr_shadow s)"

definition on_transmit_cb :: "u8 list \<Rightarrow> 'a a2065_scheme \<Rightarrow> (nat \<times> 'a a2065_scheme) option" where
  "on_transmit_cb tmp0 s = do {
     (r, s) \<leftarrow> do_transmit (Some on_interrupt_cb) tmp0 s;
     let s = push_csr_shadow s;
     let s = update_int_state s;
     Some (r, s)
   }"

section \<open>The two loops\<close>

text \<open>One turn of \<^verbatim>\<open>rx_thread\<close>, on the answer of \<^verbatim>\<open>recv\<close> and the previous contents of \<^verbatim>\<open>rxbuf\<close>.\<close>

definition rx_step ::
  "u8 list \<Rightarrow> u8 list option \<Rightarrow> u8 list \<Rightarrow> 'a a2065_scheme \<Rightarrow> (u8 list \<times> 'a a2065_scheme) option" where
  "rx_step tmp0 answer rxbuf s = do {
     (len, rxbuf) \<leftarrow> ethernet_recv answer rxbuf s;
     if len > 0 then do {
       s \<leftarrow> gotfunc (Some on_interrupt_cb) tmp0 rxbuf (nat len) s;
       let s = push_csr_shadow s;
       let s = update_int_state s;
       Some (rxbuf, s)
     } else Some (rxbuf, s)
   }"

definition int_incr :: "int \<Rightarrow> int option" where
  "int_incr n = (if n < INT_MAX then Some (n + 1) else None)"

text \<open>The critical section of a pending command (lines 329 to 332).\<close>

definition cmd_apply :: "u8 list \<Rightarrow> u64 \<Rightarrow> 'a a2065_scheme \<Rightarrow> ('a a2065_scheme) option" where
  "cmd_apply tmp0 cmd s = do {
     let rap_v = (ucast (drop_bit DDR3_CMD_RAP_SHIFT cmd AND DDR3_CMD_RAP_MASK) :: u8);
     let data = (ucast (drop_bit DDR3_CMD_DATA_SHIFT cmd AND DDR3_CMD_DATA_MASK) :: u16);
     s \<leftarrow> chip_wput (Some on_interrupt_cb) (Some (on_transmit_cb tmp0)) A2065_RAP_OFF (ucast rap_v) s;
     chip_wput (Some on_interrupt_cb) (Some (on_transmit_cb tmp0)) A2065_RDP_OFF data s
   }"

definition poll_step :: "u8 list \<Rightarrow> 'a doorbell_scheme \<Rightarrow> ('a doorbell_scheme) option" where
  "poll_step tmp0 s = do {
     let cmd = rd64 s DDR3_CMD_OFF;
     s \<leftarrow> (if has cmd DDR3_CMD_PENDING_BIT then do {
              let s = s\<lparr>idle := 0\<rparr>;
              n \<leftarrow> int_incr (dbg_cnt s);
              let s = s\<lparr>dbg_cnt := n\<rparr>;
              s \<leftarrow> cmd_apply tmp0 cmd s;
              let s = wr64 s DDR3_CMD_OFF 0;
              let s = push_csr_shadow s;
              Some (update_int_state s)
            } else if idle s < 1000 then Some (s\<lparr>idle := idle s + 1\<rparr>)
            else if idle s < 50000 then Some (s\<lparr>idle := idle s + 1\<rparr>)
            else Some s);
     n \<leftarrow> int_incr (poll_cnt s);
     Some (s\<lparr>poll_cnt := n\<rparr>)
   }"

section \<open>Start-up\<close>

definition write_mbx_mac :: "mac_addr \<Rightarrow> 'a a2065_scheme \<Rightarrow> 'a a2065_scheme" where
  "write_mbx_mac fm s =
     wr64 s DDR3_MAC_OFF
       (1 OR push_bit 32 (ucast (fm ! 2)) OR push_bit 40 (ucast (fm ! 3)) OR
        push_bit 48 (ucast (fm ! 4)) OR push_bit 56 (ucast (fm ! 5)))"

definition mac_low_is_zero :: "mac_addr \<Rightarrow> bool" where
  "mac_low_is_zero m \<longleftrightarrow> (m ! 3 OR m ! 4 OR m ! 5) = 0"

definition derive_unique_low :: "u8 list \<Rightarrow> u32 \<Rightarrow> u32 \<Rightarrow> mac_addr \<Rightarrow> mac_addr" where
  "derive_unique_low host pid now m =
    (let h = foldl (\<lambda>h p. (h XOR ucast p) * 16777619) 2166136261 host;
         h = h XOR pid;
         h = h XOR now;
         m = m[3 := ucast (drop_bit 16 h AND 0xff), 4 := ucast (drop_bit 8 h AND 0xff), 5 := ucast (h AND 0xff)]
     in if mac_low_is_zero m then m[5 := 1] else m)"

text \<open>What the start-up learns from outside: the fallback interface, host name, pid and time.\<close>

record boot_env =
  eth0_sock :: bool
  eth0_hwaddr :: "mac_addr option"
  env_host :: "u8 list"
  env_pid :: u32
  env_time :: u32

definition daemon_set_default_mac :: "boot_env \<Rightarrow> 'a a2065_scheme \<Rightarrow> 'a a2065_scheme" where
  "daemon_set_default_mac env s =
    (let realmac = ethernet_get_mac s;
         realmac = (if mac_low_is_zero realmac then
             (let (ok, fb) = ethernet_read_iface_mac (eth0_sock env) (eth0_hwaddr env)
              in if ok then fb else derive_unique_low (env_host env) (env_pid env) (env_time env) realmac)
           else realmac);
         fm = [0x00, 0x80, 0x10, realmac ! 3, realmac ! 4, realmac ! 5];
         realmac = realmac[0 := 0x00, 1 := 0x80, 2 := 0x10];
         s = s\<lparr>mac := mac_set_addresses fm realmac (mac s)\<rparr>
     in registers_set_fakemac fm s)"

text \<open>Lines 269 to 301, from the mapped window to the first publication.\<close>

definition daemon_start :: "nic_env \<Rightarrow> boot_env \<Rightarrow> 'a a2065_scheme \<Rightarrow> 'a a2065_scheme" where
  "daemon_start nic env s =
    (let s = s\<lparr>boardram := DDR3_BRAM_OFF\<rparr>;
         s = wr64 s DDR3_CMD_OFF 0;
         s = wr64 s DDR3_CSR_OFF 0;
         s = wr64 s DDR3_INT_OFF 0;
         s = registers_reset s;
         s = registers_set_boardram (boardram s) s;
         s = snd (ethernet_open nic s);
         s = daemon_set_default_mac env s;
         s = write_mbx_mac (fakemac s) s;
         s = push_csr_shadow s
     in update_int_state s)"

text \<open>\<^verbatim>\<open>--test-boardram\<close>: the number of failed comparisons decides the exit status.\<close>

definition test_boardram :: "'a window_scheme \<Rightarrow> nat \<times> 'a window_scheme" where
  "test_boardram s =
    (let s = put_ram_word s 0x0000 0xDEAD;
         s = put_ram_word s 0x0002 0xBEEF;
         s = put_ram_word s 0x7FFE 0x1234;
         s = put_ram_word s 0x0100 0xAAAA;
         s = put_ram_word s 0x0102 0x5555;
         f = (if get_ram_word s 0x0000 = 0xDEAD then 0 else 1);
         f = (if get_ram_word s 0x0002 = 0xBEEF then f else f + 1);
         f = (if get_ram_word s 0x7FFE = 0x1234 then f else f + 1);
         f = (if get_ram_word s 0x0100 = 0xAAAA then f else f + 1);
         f = (if get_ram_word s 0x0102 = 0x5555 then f else f + 1);
         s = put_ram_word s 0x0200 0x0000;
         s = put_ram_byte s 0x0200 0xCA;
         s = put_ram_byte s 0x0201 0xFE;
         f = (if get_ram_word s 0x0200 = 0xCAFE then f else f + 1)
     in (if f \<noteq> (0 :: nat) then 1 else 0, s))"

section \<open>The slots and the board RAM do not overlap\<close>

text \<open>A slot of eight bytes that lies outside the 32 KB of the board RAM.\<close>

definition slot_outside :: "u32 \<Rightarrow> u32 \<Rightarrow> bool" where
  "slot_outside base off \<longleftrightarrow> 0x8000 \<le> off - base \<and> off - base \<le> 0xFFFFFFF8"

lemma ram_index_less: "(x AND RAM_MASK) < 0x8000" for x :: u32
  using and_RAM_MASK_le [of x] by (simp add: word_less_nat_alt word_le_nat_alt)

lemma slot_outside_ram:
  assumes "slot_outside base off"
  shows "8 \<le> (base + (x AND RAM_MASK)) - off"
proof -
  define d where "d = off - base"
  define y where "y = x AND RAM_MASK"
  have "unat y < 0x8000" using ram_index_less [of x] by (simp add: y_def word_less_nat_alt)
  moreover have "0x8000 \<le> unat d" "unat d \<le> 0xFFFFFFF8"
    using assms by (simp_all add: slot_outside_def d_def word_le_nat_alt)
  ultimately have "8 \<le> unat (y - d)"
    by (simp add: unat_sub_if_size word_size)
  then have "8 \<le> y - d" by (simp add: word_le_nat_alt)
  moreover have "(base + y) - off = y - d" by (simp add: d_def algebra_simps)
  ultimately show ?thesis by (simp only: y_def [symmetric])
qed

lemma ram_view_wr64 [simp]: "slot_outside (boardram s) off \<Longrightarrow> ram_view (wr64 s off v) = ram_view s"
  by (rule ext) (simp add: ram_view_def wr64_map_w_other slot_outside_ram)

lemma rd64_put_ram_byte:
  assumes "slot_outside (boardram s) off"
  shows "rd64 (put_ram_byte s o1 v) off = rd64 s off"
proof -
  let ?a = "boardram s + ((o1 XOR 1) AND RAM_MASK)"
  have "8 \<le> ?a - off" by (rule slot_outside_ram [OF assms])
  then have "?a \<noteq> off + j" if "j < 8" for j
    using that by auto
  from this [of 0] this [of 1] this [of 2] this [of 3] this [of 4] this [of 5] this [of 6] this [of 7]
  show ?thesis by (simp add: rd64_def put_ram_byte_def)
qed

lemma rd64_put_ram_word: "slot_outside (boardram s) off \<Longrightarrow> rd64 (put_ram_word s o1 v) off = rd64 s off"
  by (simp add: put_ram_word_def rd64_put_ram_byte)

lemma rd64_ram_write_block: "slot_outside (boardram s) off \<Longrightarrow> rd64 (ram_write_block s o1 bs) off = rd64 s off"
proof (induction bs arbitrary: s o1)
  case (Cons b bs)
  then show ?case
    using rd64_put_ram_byte [of s off o1 b] by (simp add: put_ram_byte_def)
qed simp

lemma slots_outside [simp]:
  "slot_outside 0 DDR3_CMD_OFF" "slot_outside 0 DDR3_CSR_OFF" "slot_outside 0 DDR3_INT_OFF" "slot_outside 0 DDR3_MAC_OFF"
  by (simp_all add: slot_outside_def)

lemma slots_apart [simp]:
  "apart DDR3_CMD_OFF DDR3_CSR_OFF" "apart DDR3_CMD_OFF DDR3_INT_OFF" "apart DDR3_CMD_OFF DDR3_MAC_OFF"
  "apart DDR3_CSR_OFF DDR3_CMD_OFF" "apart DDR3_CSR_OFF DDR3_INT_OFF" "apart DDR3_CSR_OFF DDR3_MAC_OFF"
  "apart DDR3_INT_OFF DDR3_CMD_OFF" "apart DDR3_INT_OFF DDR3_CSR_OFF" "apart DDR3_INT_OFF DDR3_MAC_OFF"
  "apart DDR3_MAC_OFF DDR3_CMD_OFF" "apart DDR3_MAC_OFF DDR3_CSR_OFF" "apart DDR3_MAC_OFF DDR3_INT_OFF"
  by (simp_all add: apart_def)

section \<open>The callbacks keep their contract\<close>

lemma wr64_same_chip: "boardram s = 0 \<Longrightarrow> slot_outside 0 off \<Longrightarrow> same_chip (wr64 s off v) s"
  by (simp add: same_chip_def)

lemma publish_same_chip:
  assumes "boardram s = 0"
  shows "same_chip (push_csr_shadow s) s" "same_chip (update_int_state s) s" "same_chip (on_interrupt_cb s) s"
proof -
  show 1: "same_chip (push_csr_shadow s) s" and "same_chip (update_int_state s) s"
    using assms by (simp_all add: push_csr_shadow_def update_int_state_def wr64_same_chip)
  have "same_chip (update_int_state (push_csr_shadow s)) (push_csr_shadow s)"
    using assms by (simp add: push_csr_shadow_def update_int_state_def wr64_same_chip)
  then show "same_chip (on_interrupt_cb s) s"
    using 1 same_chip_trans by (auto simp: on_interrupt_cb_def)
qed

interpretation db: int_callback "Some on_interrupt_cb" 0
  by unfold_locales (simp add: call_int_def publish_same_chip)

interpretation db: tx_callback "Some on_interrupt_cb" 0 "Some (on_transmit_cb tmp0)" for tmp0
proof
  fix s t
  assume s: "chip_busy 0 s" and "call_tx (Some (on_transmit_cb tmp0)) s = Some t"
  then obtain r u where "do_transmit (Some on_interrupt_cb) tmp0 s = Some (r, u)"
    and t: "t = update_int_state (push_csr_shadow u)"
    by (auto simp: call_tx_def on_transmit_cb_def bind_eq_Some_conv)
  then have u: "chip_busy 0 u"
    using db.do_transmit_busy s by blast
  then have "same_chip t u"
    using publish_same_chip(3) [of u] by (simp add: t on_interrupt_cb_def chip_busy_def)
  then show "chip_busy 0 t"
    using same_chip_inv u by blast
qed

section \<open>What the daemon publishes\<close>

lemma rd64_chip [simp]:
  "rd64 (s\<lparr>rdr_offset := n\<rparr>) off = rd64 s off" "rd64 (s\<lparr>tdr_offset := n\<rparr>) off = rd64 s off"
  "rd64 (s\<lparr>crc := cu\<rparr>) off = rd64 s off" "rd64 (s\<lparr>loopback_iter := n\<rparr>) off = rd64 s off"
  "rd64 (s\<lparr>transmitbuffer := b\<rparr>) off = rd64 s off" "rd64 (s\<lparr>transmitlen := n\<rparr>) off = rd64 s off"
  "rd64 (s\<lparr>sent := fs\<rparr>) off = rd64 s off" "rd64 (set_csr k v s) off = rd64 s off"
  "rd64 (registers_csr0_set v s) off = rd64 s off" "rd64 (registers_csr0_clr v s) off = rd64 s off"
  by (simp_all add: rd64_def registers_csr0_set_def registers_csr0_clr_def)

text \<open>The command slot and the address slot are not touched while a ring is walked or an
  interrupt is reported.\<close>

interpretation cmd_slot: ring_closed "Some on_interrupt_cb" "\<lambda>s. boardram s = 0 \<and> rd64 s DDR3_CMD_OFF = v" for v
  by unfold_locales
    (simp_all add: rd64_put_ram_word rd64_ram_write_block call_int_def on_interrupt_cb_def
      push_csr_shadow_def update_int_state_def)

interpretation mac_slot: ring_closed "Some on_interrupt_cb" "\<lambda>s. boardram s = 0 \<and> rd64 s DDR3_MAC_OFF = v" for v
  by unfold_locales
    (simp_all add: rd64_put_ram_word rd64_ram_write_block call_int_def on_interrupt_cb_def
      push_csr_shadow_def update_int_state_def)

lemma publish_chip [simp]:
  "csr (push_csr_shadow s) = csr s" "csr (update_int_state s) = csr s"
  "boardram (push_csr_shadow s) = boardram s" "boardram (update_int_state s) = boardram s"
  by (simp_all add: push_csr_shadow_def update_int_state_def wr64_def)

lemma csr_packed_cong: "csr s = csr t \<Longrightarrow> csr_packed s = csr_packed t"
  by (simp add: csr_packed_def registers_csr0_def registers_csr_def)

lemma published:
  fixes s :: "'a a2065_scheme"
  defines "t \<equiv> update_int_state (push_csr_shadow s)"
  shows "rd64 t DDR3_CSR_OFF = csr_packed t" and "rd64 t DDR3_INT_OFF = int_value (csr t 0)"
    and "rd64 t DDR3_CMD_OFF = rd64 s DDR3_CMD_OFF" and "rd64 t DDR3_MAC_OFF = rd64 s DDR3_MAC_OFF"
proof -
  have "csr_packed t = csr_packed s"
    by (rule csr_packed_cong) (simp add: t_def)
  then show "rd64 t DDR3_CSR_OFF = csr_packed t"
    by (simp add: t_def update_int_state_def push_csr_shadow_def)
  show "rd64 t DDR3_INT_OFF = int_value (csr t 0)" "rd64 t DDR3_CMD_OFF = rd64 s DDR3_CMD_OFF"
    "rd64 t DDR3_MAC_OFF = rd64 s DDR3_MAC_OFF"
    by (simp_all add: t_def update_int_state_def registers_csr0_def) (simp_all add: push_csr_shadow_def)
qed

text \<open>Between turns the chip is consistent and the two slots show its state.\<close>

definition db_inv :: "'a a2065_scheme \<Rightarrow> bool" where
  "db_inv s \<longleftrightarrow> chip_inv 0 s \<and> rd64 s DDR3_CSR_OFF = csr_packed s \<and> rd64 s DDR3_INT_OFF = int_value (csr s 0)"

lemma publish_inv: "chip_inv 0 s \<Longrightarrow> db_inv (update_int_state (push_csr_shadow s))"
  using publish_same_chip(3) [of s] same_chip_inv [of "update_int_state (push_csr_shadow s)" s 0] published [of s]
  by (simp add: db_inv_def on_interrupt_cb_def chip_inv_def chip_busy_def)

lemma bit_masks_cmd: "bit (0x7F :: int) n \<longleftrightarrow> n < 7" "bit (0xFFFF :: int) n \<longleftrightarrow> n < 16"
proof -
  have e: "(0x7F :: int) = mask 7" "(0xFFFF :: int) = mask 16" by (simp_all add: mask_eq_exp_minus_1)
  show "bit (0x7F :: int) n \<longleftrightarrow> n < 7" "bit (0xFFFF :: int) n \<longleftrightarrow> n < 16"
    unfolding e by (simp_all add: bit_simps)
qed

text \<open>The published word holds CSR0 to CSR3, each in its own sixteen bits.\<close>

theorem csr_packed_lanes:
  assumes "n < 4"
  shows "ucast (drop_bit (16 * n) (csr_packed s)) = csr s n"
proof -
  have "n = 0 \<or> n = 1 \<or> n = 2 \<or> n = 3" using assms by auto
  then show ?thesis
    unfolding csr_packed_def registers_csr0_def registers_csr_def Let_def
    by (elim disjE) (simp_all, (rule bit_word_eqI, auto simp: bit_simps dest: bit_imp_le_length)+)
qed

section \<open>One turn of each loop\<close>

lemma counters_chip [simp]:
  "chip_inv base (s\<lparr>idle := i\<rparr>) = chip_inv base s" "chip_inv base (s\<lparr>dbg_cnt := i\<rparr>) = chip_inv base s"
  "chip_inv base (s\<lparr>poll_cnt := i\<rparr>) = chip_inv base s"
  "rd64 (s\<lparr>idle := i\<rparr>) off = rd64 s off" "rd64 (s\<lparr>dbg_cnt := i\<rparr>) off = rd64 s off"
  "rd64 (s\<lparr>poll_cnt := i\<rparr>) off = rd64 s off"
  "csr_packed (s\<lparr>idle := i\<rparr>) = csr_packed s" "csr_packed (s\<lparr>poll_cnt := i\<rparr>) = csr_packed s"
  by (simp_all add: chip_inv_def chip_busy_def config_ok_def rd64_def csr_packed_def registers_csr0_def registers_csr_def)

lemma same_chip_counters [simp]: "same_chip (s\<lparr>poll_cnt := i\<rparr>) u = same_chip s u"
  by (simp add: same_chip_def ram_view_def [abs_def])

lemma cmd_apply_inv:
  assumes "chip_inv 0 s" and "cmd_apply tmp0 cmd s = Some t"
  shows "chip_inv 0 t"
proof -
  obtain r v r' v' u where "chip_wput (Some on_interrupt_cb) (Some (on_transmit_cb tmp0)) r v s = Some u"
    and "chip_wput (Some on_interrupt_cb) (Some (on_transmit_cb tmp0)) r' v' u = Some t"
    using assms(2) by (auto simp: cmd_apply_def Let_def bind_eq_Some_conv)
  then show ?thesis
    using db.chip_wput_inv assms(1) by blast
qed

text \<open>C31: Whatever the 68k writes to either port, every register stays within its width: RAP selects one of 128
  registers, CSR1 is even, CSR2 has eight bits and CSR3 three, both rings start inside the board RAM, CSR0
  never stores the error summary, and a stopped chip has no direction on and no cause pending.\<close>

theorem registers_in_range:
  assumes "chip_inv 0 s" and "chip_wput (Some on_interrupt_cb) (Some (on_transmit_cb tmp0)) reg v s = Some t"
  shows "rap t < RAP_SIZE \<and> \<not> bit (csr t 1) 0 \<and> csr t 2 \<le> 0xff \<and> csr t 3 \<le> 7 \<and>
    am_rdr_rdra t \<le> RAM_MASK \<and> am_tdr_tdra t \<le> RAM_MASK \<and> \<not> has (csr t 0) CSR0_ERR \<and>
    (has (csr t 0) CSR0_STOP \<longrightarrow>
       \<not> has (csr t 0) (CSR0_RXON OR CSR0_TXON OR CSR0_INIT OR CSR0_STRT OR CSR0_IDON OR CSR0_RINT OR CSR0_TINT))"
proof -
  have "chip_inv 0 t" using assms db.chip_wput_inv by blast
  then show ?thesis
    by (auto simp: chip_inv_def chip_busy_def config_ok_def csr0_ok_def flag_bits)
qed

lemma wr64_inv: "chip_inv 0 s \<Longrightarrow> slot_outside 0 off \<Longrightarrow> chip_inv 0 (wr64 s off v)"
  using wr64_same_chip [of s off v] same_chip_inv by (auto simp: chip_inv_def chip_busy_def)

lemma poll_step_applies:
  assumes "chip_inv 0 s" and "has (rd64 s DDR3_CMD_OFF) DDR3_CMD_PENDING_BIT" and "poll_step tmp0 s = Some t"
  shows "\<exists>u. cmd_apply tmp0 (rd64 s DDR3_CMD_OFF) (s\<lparr>idle := 0, dbg_cnt := dbg_cnt s + 1\<rparr>) = Some u \<and>
    same_chip t u \<and> db_inv t \<and> rd64 t DDR3_CMD_OFF = 0"
proof -
  let ?s = "s\<lparr>idle := 0, dbg_cnt := dbg_cnt s + 1\<rparr>" and ?cmd = "rd64 s DDR3_CMD_OFF"
  obtain u where u: "cmd_apply tmp0 ?cmd ?s = Some u" and
    t: "t = (update_int_state (push_csr_shadow (wr64 u DDR3_CMD_OFF 0)))\<lparr>poll_cnt := poll_cnt (update_int_state (push_csr_shadow (wr64 u DDR3_CMD_OFF 0))) + 1\<rparr>"
    using assms(2,3) by (auto simp: poll_step_def Let_def int_incr_def bind_eq_Some_conv split: if_splits)
  let ?v = "wr64 u DDR3_CMD_OFF 0"
  have iu: "chip_inv 0 u"
    using cmd_apply_inv [OF _ u] assms(1) by simp
  then have b: "boardram u = 0" by (simp add: chip_inv_def chip_busy_def)
  have "db_inv (update_int_state (push_csr_shadow ?v))"
    by (rule publish_inv [OF wr64_inv [OF iu]]) simp
  moreover have "same_chip (update_int_state (push_csr_shadow ?v)) u"
    using publish_same_chip(3) [of ?v] wr64_same_chip [of u DDR3_CMD_OFF 0] b same_chip_trans
    by (fastforce simp: on_interrupt_cb_def)
  ultimately show ?thesis
    using u t published(3) [of ?v] by (simp add: db_inv_def)
qed

text \<open>C3: a turn of the main loop that finds a command pending applies it, clears the command slot and leaves the
  published registers and the interrupt line in agreement with the chip.\<close>

theorem poll_step_pending:
  assumes "chip_inv 0 s" and "has (rd64 s DDR3_CMD_OFF) DDR3_CMD_PENDING_BIT" and "poll_step tmp0 s = Some t"
  shows "\<exists>u. cmd_apply tmp0 (rd64 s DDR3_CMD_OFF) (s\<lparr>idle := 0, dbg_cnt := dbg_cnt s + 1\<rparr>) = Some u \<and>
    same_chip t u \<and> db_inv t \<and> rd64 t DDR3_CMD_OFF = 0"
  using assms by (rule poll_step_applies)

lemma poll_step_keeps:
  assumes "db_inv s" and "poll_step tmp0 s = Some t"
  shows "db_inv t"
proof (cases "has (rd64 s DDR3_CMD_OFF) DDR3_CMD_PENDING_BIT")
  case True
  obtain u where u: "cmd_apply tmp0 (rd64 s DDR3_CMD_OFF) (s\<lparr>idle := 0, dbg_cnt := dbg_cnt s + 1\<rparr>) = Some u"
    and t: "\<exists>n. t = (update_int_state (push_csr_shadow (wr64 u DDR3_CMD_OFF 0)))\<lparr>poll_cnt := n\<rparr>"
    using assms(2) True by (auto simp: poll_step_def Let_def int_incr_def bind_eq_Some_conv split: if_splits)
  have "chip_inv 0 u"
    using cmd_apply_inv [OF _ u] assms(1) by (simp add: db_inv_def)
  then have "db_inv (update_int_state (push_csr_shadow (wr64 u DDR3_CMD_OFF 0)))"
    by (rule publish_inv [OF wr64_inv]) simp
  then show ?thesis
    using t by (auto simp: db_inv_def)
next
  case False
  then obtain i n where "t = s\<lparr>poll_cnt := n\<rparr> \<or> t = s\<lparr>idle := i, poll_cnt := n\<rparr>"
    using assms(2) by (auto simp: poll_step_def Let_def int_incr_def bind_eq_Some_conv split: if_splits)
  then show ?thesis
    using assms(1) by (auto simp: db_inv_def)
qed

text \<open>C1: every turn of the main loop keeps the invariant: the chip is consistent, and what the FPGA
  reads is what the chip holds.\<close>

theorem poll_step_inv:
  assumes "db_inv s" and "poll_step tmp0 s = Some t"
  shows "db_inv t"
  using assms by (rule poll_step_keeps)

lemma rx_step_keeps:
  assumes "db_inv s" and "rx_step tmp0 answer rxbuf s = Some (rxbuf', t)"
  shows "db_inv t \<and> rd64 t DDR3_CMD_OFF = rd64 s DDR3_CMD_OFF"
proof -
  consider "t = s" | len u where "gotfunc (Some on_interrupt_cb) tmp0 rxbuf' len s = Some u"
      and "t = update_int_state (push_csr_shadow u)"
    using assms(2) by (auto simp: rx_step_def Let_def bind_eq_Some_conv split: if_splits)
  then show ?thesis
  proof cases
    case 1
    then show ?thesis using assms(1) by simp
  next
    case 2
    have "chip_inv 0 s" and b: "boardram s = 0"
      using assms(1) by (simp_all add: db_inv_def chip_inv_def chip_busy_def)
    then have "chip_inv 0 u"
      using db.gotfunc_inv 2(1) by blast
    moreover have "rd64 u DDR3_CMD_OFF = rd64 s DDR3_CMD_OFF"
      using cmd_slot.P_gotfunc [OF _ 2(1)] b by simp
    ultimately show ?thesis
      using publish_inv 2(2) published(3) [of u] by simp
  qed
qed

text \<open>C2: a turn of the receive thread, whatever the network delivers, keeps the invariant and leaves a
  pending command in its slot.\<close>

theorem rx_step_inv:
  assumes "db_inv s" and "rx_step tmp0 answer rxbuf s = Some (rxbuf', t)"
  shows "db_inv t \<and> rd64 t DDR3_CMD_OFF = rd64 s DDR3_CMD_OFF"
  using assms by (rule rx_step_keeps)

text \<open>The word the FPGA writes for a register write: pending bit, register number, data.\<close>

definition cmd_word :: "u8 \<Rightarrow> u16 \<Rightarrow> u64" where
  "cmd_word r data = DDR3_CMD_PENDING_BIT OR push_bit DDR3_CMD_RAP_SHIFT (ucast r) OR push_bit DDR3_CMD_DATA_SHIFT (ucast data)"

lemma bit_cmd_word:
  assumes "r < RAP_SIZE"
  shows "bit (cmd_word r data) n \<longleftrightarrow> n = 0 \<or> 1 \<le> n \<and> n < 8 \<and> bit r (n - 1) \<or> 8 \<le> n \<and> n < 24 \<and> bit data (n - 8)"
    and "7 \<le> k \<Longrightarrow> \<not> bit r k"
proof -
  have r: "take_bit 7 r = r"
    using assms by (simp add: word_unat_eq_iff take_bit_eq_mod unat_mod word_less_nat_alt)
  show hi: "\<not> bit r k" if "7 \<le> k" for k
    using that by (subst r [symmetric]) (simp add: bit_take_bit_iff)
  have "n < 8" if "bit r (n - 1)"
    using hi [of "n - 1"] that by linarith
  moreover have "n < 24" if "bit data (n - 8)"
    using that by (auto dest: bit_imp_le_length)
  ultimately show "bit (cmd_word r data) n \<longleftrightarrow> n = 0 \<or> 1 \<le> n \<and> n < 8 \<and> bit r (n - 1) \<or> 8 \<le> n \<and> n < 24 \<and> bit data (n - 8)"
    unfolding cmd_word_def bit_or_iff
    by (auto simp only: bit_push_bit_iff bit_unsigned_iff bit_1_iff possible_bit_word) auto
qed

text \<open>A command word built as the FPGA builds it (pending bit, register number, data) is applied as a
  write of the register number to the address port followed by a write of the data to the data port.\<close>

theorem cmd_apply_decodes:
  assumes "r < RAP_SIZE"
  shows "has (cmd_word r data) DDR3_CMD_PENDING_BIT \<and> cmd_apply tmp0 (cmd_word r data) s =
    chip_wput (Some on_interrupt_cb) (Some (on_transmit_cb tmp0)) A2065_RDP_OFF data (s\<lparr>rap := r\<rparr>)"
proof -
  note c = bit_cmd_word(1) [OF assms, where data = data] bit_cmd_word(2) [OF assms]
  have r7: "n < 7" if "bit r n" for n
    using c(2) that by (meson not_less)
  have "cmd_word r data AND 1 \<noteq> 0"
    using c(1) [where n = 0] by (simp add: and_one_eq bit_0 odd_iff_mod_2_eq_one)
  moreover have "ucast (drop_bit DDR3_CMD_RAP_SHIFT (cmd_word r data) AND DDR3_CMD_RAP_MASK) = r"
    by (rule bit_word_eqI) (auto simp: bit_simps bit_masks_cmd c not_less dest: bit_imp_le_length r7)
  moreover have "ucast (drop_bit DDR3_CMD_DATA_SHIFT (cmd_word r data) AND DDR3_CMD_DATA_MASK) = data"
    by (rule bit_word_eqI) (auto simp: bit_simps bit_masks_cmd c not_less dest: bit_imp_le_length r7)
  moreover have "ucast (ucast r AND 0x7f :: u16) = r"
    by (rule bit_word_eqI) (auto simp: bit_simps bit_masks_cmd c not_less dest: bit_imp_le_length r7)
  ultimately show ?thesis
    by (simp add: has_def cmd_apply_def chip_wput_def [where reg_offset = A2065_RAP_OFF])
qed

text \<open>The board RAM self test passes on every memory.\<close>

theorem test_boardram_passes: "fst (test_boardram s) = 0"
  by (simp add: test_boardram_def Let_def flat.get_w_view flat.put_w_view flat.put_view word_at_def set_word_def)

text \<open>An idle main loop counts its turns in a signed integer: the turn after 2147483647 turns
  overflows it, which is undefined.\<close>

theorem poll_step_overflow:
  assumes "\<not> has (rd64 s DDR3_CMD_OFF) DDR3_CMD_PENDING_BIT"
  shows "poll_step tmp0 s = None \<longleftrightarrow> INT_MAX \<le> poll_cnt s"
  using assms by (auto simp: poll_step_def Let_def int_incr_def)

section \<open>Start-up\<close>

lemma low_bytes_masks: "ucast (h AND 0xff :: u32) = (ucast h :: u8)"
  by (rule bit_word_eqI) (auto simp: bit_simps bit_low_masks)

lemma derive_unique_low_nonzero:
  "length m = 6 \<Longrightarrow> \<not> mac_low_is_zero (derive_unique_low host pid now m) \<and> length (derive_unique_low host pid now m) = 6"
  by (simp add: derive_unique_low_def Let_def mac_low_is_zero_def nth_list_update or_eq_0_iff)

text \<open>Whatever the interfaces report, the address the daemon starts with has the Commodore prefix
  and a last half that is not zero; the register file and both sides of the translation agree on it,
  so no frame is rewritten until the driver programs an address.\<close>

theorem default_mac:
  assumes "length (host_mac s) = 6" and "\<And>a. eth0_hwaddr env = Some a \<Longrightarrow> length a = 6"
  shows "take 3 (fakemac (daemon_set_default_mac env s)) = [0x00, 0x80, 0x10] \<and>
    \<not> mac_low_is_zero (fakemac (daemon_set_default_mac env s)) \<and>
    mac_fakemac (mac (daemon_set_default_mac env s)) = fakemac (daemon_set_default_mac env s) \<and>
    mac_realmac (mac (daemon_set_default_mac env s)) = fakemac (daemon_set_default_mac env s)"
proof -
  define m where "m = (if mac_low_is_zero (ethernet_get_mac s) then
      (let (ok, fb) = ethernet_read_iface_mac (eth0_sock env) (eth0_hwaddr env)
       in if ok then fb else derive_unique_low (env_host env) (env_pid env) (env_time env) (ethernet_get_mac s))
    else ethernet_get_mac s)"
  have len: "length m = 6" and nz: "\<not> mac_low_is_zero m"
    using assms derive_unique_low_nonzero [of "host_mac s"]
    by (auto simp: m_def ethernet_get_mac_def ethernet_read_iface_mac_def mac_low_is_zero_def Let_def
        split: option.splits if_splits)
  have upd: "m[0 := 0x00, 1 := 0x80, 2 := 0x10] = [0x00, 0x80, 0x10, m ! 3, m ! 4, m ! 5]"
    using len by (intro nth_equalityI) (auto simp: nth_list_update nth_Cons' numeral_eq_Suc less_Suc_eq)
  have "daemon_set_default_mac env s = registers_set_fakemac [0x00, 0x80, 0x10, m ! 3, m ! 4, m ! 5]
      (s\<lparr>mac := mac_set_addresses [0x00, 0x80, 0x10, m ! 3, m ! 4, m ! 5] (m[0 := 0x00, 1 := 0x80, 2 := 0x10]) (mac s)\<rparr>)"
    unfolding daemon_set_default_mac_def m_def [symmetric] by (simp add: Let_def m_def)
  then show ?thesis
    using nz by (simp add: upd [unfolded One_nat_def] registers_set_fakemac_def mac_set_addresses_def mac_low_is_zero_def)
qed

lemma mac_word_bytes:
  fixes a b c d :: u8
  defines "w \<equiv> 1 OR push_bit 32 (ucast a) OR push_bit 40 (ucast b) OR push_bit 48 (ucast c) OR push_bit 56 (ucast d) :: u64"
  shows "has w 1" "ucast (drop_bit 32 w) = a" "ucast (drop_bit 40 w) = b" "ucast (drop_bit 48 w) = c" "ucast (drop_bit 56 w) = d"
proof -
  have "bit w 0" by (simp add: w_def bit_or_iff bit_push_bit_iff)
  then show "has w 1" by (simp add: has_def and_one_eq bit_0 odd_iff_mod_2_eq_one)
  show "ucast (drop_bit 32 w) = a" "ucast (drop_bit 40 w) = b" "ucast (drop_bit 48 w) = c" "ucast (drop_bit 56 w) = d"
    unfolding w_def by (rule bit_word_eqI, auto simp: bit_simps dest: bit_imp_le_length)+
qed

lemma rd64_open: "rd64 (snd (ethernet_open env s)) off = rd64 s off"
  by (simp add: rd64_def)

lemma default_mac_frame [simp]:
  "csr (daemon_set_default_mac env s) = csr s" "boardram (daemon_set_default_mac env s) = boardram s"
  "rd64 (daemon_set_default_mac env s) off = rd64 s off"
  by (simp_all add: daemon_set_default_mac_def registers_set_fakemac_def Let_def rd64_def)

lemma default_mac_config:
  assumes "config_ok s" and "length (host_mac s) = 6" and "\<And>a. eth0_hwaddr env = Some a \<Longrightarrow> length a = 6"
  shows "config_ok (daemon_set_default_mac env s)"
proof -
  have "length (derive_unique_low h p n (host_mac s)) = 6" for h p n
    using derive_unique_low_nonzero assms(2) by blast
  then show ?thesis
    using assms
    by (auto simp: daemon_set_default_mac_def registers_set_fakemac_def Let_def config_ok_def mac_wf_def
        mac_set_addresses_def ethernet_get_mac_def ethernet_read_iface_mac_def split: option.splits)
qed

lemma reset_frame [simp]:
  "host_mac (registers_reset s) = host_mac s" "boardram (registers_reset s) = boardram s"
  "rd64 (registers_reset s) off = rd64 s off" "csr (registers_reset s) 0 = CSR0_STOP"
  "registers_set_boardram (boardram s) s = s"
  by (simp_all add: registers_reset_def registers_set_boardram_def rd64_def)

lemma chip_inv_stopped: "csr s 0 = CSR0_STOP \<Longrightarrow> chip_inv base s \<longleftrightarrow> boardram s = base \<and> config_ok s"
  by (auto simp: chip_inv_def chip_busy_def csr0_settled_def csr0_ok_def has_def)

lemma daemon_start_facts:
  assumes "config_ok s" and "length (host_mac s) = 6"
    and "\<And>a. env_hwaddr nic = Some a \<Longrightarrow> length a = 6" and "\<And>a. eth0_hwaddr env = Some a \<Longrightarrow> length a = 6"
  defines "t \<equiv> daemon_start nic env s"
  shows "db_inv t \<and> csr t 0 = CSR0_STOP \<and> rd64 t DDR3_CMD_OFF = 0 \<and> rd64 t DDR3_INT_OFF = 0 \<and>
    has (rd64 t DDR3_MAC_OFF) 1 \<and>
    map (\<lambda>k. ucast (drop_bit k (rd64 t DDR3_MAC_OFF)) :: u8) [32, 40, 48, 56] = drop 2 (fakemac t)"
proof -
  define s1 where "s1 = registers_reset (wr64 (wr64 (wr64 (s\<lparr>boardram := 0\<rparr>) DDR3_CMD_OFF 0) DDR3_CSR_OFF 0) DDR3_INT_OFF 0)"
  define s2 where "s2 = snd (ethernet_open nic s1)"
  define s3 where "s3 = daemon_set_default_mac env s2"
  define s4 where "s4 = write_mbx_mac (fakemac s3) s3"
  have t: "t = update_int_state (push_csr_shadow s4)"
    by (simp add: t_def daemon_start_def Let_def s1_def s2_def s3_def s4_def)
  have "config_ok s1"
    using assms(1) by (simp add: s1_def config_ok_def registers_reset_def)
  then have "config_ok s2"
    by (simp add: s2_def config_ok_def)
  moreover have "length (host_mac s2) = 6"
    using assms(2,3) by (simp add: s2_def s1_def ethernet_open_def Let_def split: option.splits)
  ultimately have c3: "config_ok s3"
    unfolding s3_def using assms(4) by (rule default_mac_config)
  have csr3: "csr s3 0 = CSR0_STOP" and b3: "boardram s3 = 0"
    by (simp_all add: s3_def s2_def s1_def)
  have "chip_inv 0 s3"
    using c3 csr3 b3 by (simp add: chip_inv_stopped)
  then have "chip_inv 0 s4"
    by (simp add: s4_def write_mbx_mac_def wr64_inv)
  then have inv: "db_inv t"
    unfolding t by (rule publish_inv)
  have stop: "csr t 0 = CSR0_STOP"
    using csr3 by (simp add: t s4_def write_mbx_mac_def)
  have cmd: "rd64 t DDR3_CMD_OFF = 0"
    by (simp add: t published(3) s4_def write_mbx_mac_def s3_def s2_def s1_def rd64_open)
  have mac: "rd64 t DDR3_MAC_OFF = 1 OR push_bit 32 (ucast (fakemac t ! 2)) OR push_bit 40 (ucast (fakemac t ! 3)) OR
      push_bit 48 (ucast (fakemac t ! 4)) OR push_bit 56 (ucast (fakemac t ! 5))" (is "_ = ?w")
    by (simp add: t published(4)) (simp add: s4_def write_mbx_mac_def update_int_state_def push_csr_shadow_def)
  have "length (fakemac t) = 6"
    using inv by (simp add: db_inv_def chip_inv_def chip_busy_def config_ok_def)
  then have "drop 2 (fakemac t) = [fakemac t ! 2, fakemac t ! 3, fakemac t ! 4, fakemac t ! 5]"
    by (intro nth_equalityI) (auto simp: nth_Cons' numeral_eq_Suc less_Suc_eq)
  moreover have "rd64 t DDR3_INT_OFF = 0"
    using inv stop by (simp add: db_inv_def int_value_def has_def)
  ultimately show ?thesis
    using inv stop cmd mac_word_bytes [of "fakemac t ! 2" "fakemac t ! 3" "fakemac t ! 4" "fakemac t ! 5"]
    by (simp add: mac)
qed

text \<open>After start-up the chip is stopped, no command is pending, the interrupt line is low, the
  published registers agree with the chip, and the address slot is valid and holds the last four bytes
  of the card's address.\<close>

theorem daemon_start_inv:
  assumes "config_ok s" and "length (host_mac s) = 6"
    and "\<And>a. env_hwaddr nic = Some a \<Longrightarrow> length a = 6" and "\<And>a. eth0_hwaddr env = Some a \<Longrightarrow> length a = 6"
  shows "db_inv (daemon_start nic env s) \<and> csr (daemon_start nic env s) 0 = CSR0_STOP \<and>
    rd64 (daemon_start nic env s) DDR3_CMD_OFF = 0 \<and> rd64 (daemon_start nic env s) DDR3_INT_OFF = 0 \<and>
    has (rd64 (daemon_start nic env s) DDR3_MAC_OFF) 1 \<and>
    map (\<lambda>k. ucast (drop_bit k (rd64 (daemon_start nic env s) DDR3_MAC_OFF)) :: u8) [32, 40, 48, 56] =
      drop 2 (fakemac (daemon_start nic env s))"
  by (rule daemon_start_facts) (use assms in simp_all)

section \<open>A started daemon\<close>

definition doorbell_init :: doorbell where
  "doorbell_init = a2065.extend (static_init 0) \<lparr>idle = 0, dbg_cnt = 0, poll_cnt = 0\<rparr>"

definition sample_nic :: nic_env where
  "sample_nic = \<lparr>env_socket = 3, env_ifindex = True, env_hwaddr = Some [0x00, 0x1b, 0x21, 0x0a, 0x0b, 0x0c], env_bind = True\<rparr>"

definition sample_boot :: boot_env where
  "sample_boot = \<lparr>eth0_sock = True, eth0_hwaddr = None, env_host = [0x6d], env_pid = 7, env_time = 9\<rparr>"

definition booted :: doorbell where
  "booted = daemon_start sample_nic sample_boot doorbell_init"

lemma doorbell_init_ok: "config_ok doorbell_init" "length (host_mac doorbell_init) = 6"
  by (simp_all add: doorbell_init_def static_init_def a2065.defs config_ok_def mac_wf_def)

lemma booted_facts:
  "db_inv booted" "csr booted 0 = CSR0_STOP" "rd64 booted DDR3_CMD_OFF = 0"
  using daemon_start_facts [OF doorbell_init_ok, of sample_nic sample_boot]
  by (auto simp: booted_def sample_nic_def sample_boot_def)

lemma counters_frame [simp]:
  "idle (wr64 s off v) = idle s" "dbg_cnt (wr64 s off v) = dbg_cnt s" "poll_cnt (wr64 s off v) = poll_cnt s"
  "idle (registers_reset s) = idle s" "dbg_cnt (registers_reset s) = dbg_cnt s" "poll_cnt (registers_reset s) = poll_cnt s"
  "idle (daemon_set_default_mac env s) = idle s" "dbg_cnt (daemon_set_default_mac env s) = dbg_cnt s"
  "poll_cnt (daemon_set_default_mac env s) = poll_cnt s"
  "idle (registers_set_boardram b s) = idle s" "dbg_cnt (registers_set_boardram b s) = dbg_cnt s"
  "poll_cnt (registers_set_boardram b s) = poll_cnt s"
  for s :: "'a doorbell_scheme"
  by (simp_all add: wr64_def registers_reset_def daemon_set_default_mac_def registers_set_fakemac_def
      registers_set_boardram_def Let_def split del: if_split)

lemma open_counters [simp]:
  "idle (snd (ethernet_open env s)) = idle s" "dbg_cnt (snd (ethernet_open env s)) = dbg_cnt s"
  "poll_cnt (snd (ethernet_open env s)) = poll_cnt s"
  for s :: "'a doorbell_scheme"
  by (simp_all add: ethernet_open_def Let_def split: option.splits)

lemma start_chip_frame [simp]:
  "rap (registers_reset s) = 0" "sock_fd (registers_reset s) = sock_fd s"
  "rap (daemon_set_default_mac env s) = rap s" "sock_fd (daemon_set_default_mac env s) = sock_fd s"
  "rap (registers_set_boardram b s) = rap s" "sock_fd (registers_set_boardram b s) = sock_fd s"
  by (simp_all add: registers_reset_def daemon_set_default_mac_def registers_set_fakemac_def
      registers_set_boardram_def Let_def split del: if_split)

lemma sample_open: "sock_fd (snd (ethernet_open sample_nic s)) = 3"
  by (simp add: ethernet_open_def sample_nic_def)

lemma booted_fields: "rap booted = 0" "sock_fd booted = 3" "dbg_cnt booted = 0" "poll_cnt booted = 0" "idle booted = 0"
  by (simp_all only: booted_def daemon_start_def Let_def update_int_state_def push_csr_shadow_def write_mbx_mac_def)
    (simp_all add: wr64_chip sample_open, simp_all add: doorbell_init_def a2065.defs)

theorem daemon_start_inv_witness: "db_inv (daemon_start sample_nic sample_boot doorbell_init)"
  using daemon_start_inv [OF doorbell_init_ok, of sample_nic sample_boot] by (simp add: sample_nic_def sample_boot_def)

theorem default_mac_witness:
  "\<not> mac_low_is_zero (fakemac (daemon_set_default_mac sample_boot doorbell_init))"
  using default_mac [OF doorbell_init_ok(2), of sample_boot] by (simp add: sample_boot_def)

theorem csr_packed_lanes_witness: "ucast (drop_bit (16 * 3) (csr_packed booted)) = csr booted 3"
  using csr_packed_lanes [of 3 booted] by simp

text \<open>A command that selects CSR1 and writes \<^verbatim>\<open>0x1235\<close>, waiting in the slot.\<close>

definition commanded :: doorbell where
  "commanded = wr64 booted DDR3_CMD_OFF (cmd_word 1 0x1235)"

lemma commanded_facts: "db_inv commanded" "rd64 commanded DDR3_CMD_OFF = cmd_word 1 0x1235" "csr commanded = csr booted"
  using booted_facts(1) wr64_inv [of booted DDR3_CMD_OFF "cmd_word 1 0x1235"]
    csr_packed_cong [of "wr64 booted DDR3_CMD_OFF (cmd_word 1 0x1235)" booted]
  by (simp_all add: commanded_def db_inv_def)

lemma cmd_word_sample: "cmd_word 1 0x1235 = 0x123503"
  by (simp add: cmd_word_def)

lemma commanded_step: "\<exists>t. poll_step tmp0 commanded = Some t"
proof -
  have "rap commanded = 0" "dbg_cnt commanded = 0" "poll_cnt commanded = 0" "has (csr commanded 0) CSR0_STOP"
    using booted_fields booted_facts(2) by (simp_all add: commanded_def wr64_chip has_def)
  then show ?thesis
    using commanded_facts(2)
    by (simp add: poll_step_def Let_def cmd_word_sample has_def int_incr_def cmd_apply_def chip_wput_def word_le_nat_alt
        update_int_state_def push_csr_shadow_def set_csr_def)
qed

theorem poll_step_inv_witness: "\<exists>t. poll_step [] commanded = Some t \<and> db_inv t"
  using commanded_step [of "[]"] poll_step_inv [OF commanded_facts(1)] by blast

theorem poll_step_pending_witness: "\<exists>t. poll_step [] commanded = Some t \<and> rd64 t DDR3_CMD_OFF = 0"
proof -
  have "chip_inv 0 commanded" using commanded_facts(1) by (simp add: db_inv_def)
  moreover have "has (rd64 commanded DDR3_CMD_OFF) DDR3_CMD_PENDING_BIT"
    by (simp add: commanded_facts(2) cmd_word_sample has_def)
  ultimately show ?thesis
    using commanded_step [of "[]"] poll_step_pending [of commanded "[]"] by blast
qed

theorem rx_step_inv_witness:
  "\<exists>b t. rx_step [] (Some [1, 2, 3]) (replicate 4096 0) booted = Some (b, t) \<and> db_inv t \<and> rd64 t DDR3_CMD_OFF = 0"
proof -
  have "\<exists>b t. rx_step [] (Some [1, 2, 3]) (replicate 4096 0) booted = Some (b, t)"
    using booted_fields(2) booted_facts(2)
    by (simp add: rx_step_def ethernet_recv_def gotfunc_def registers_csr0_def has_def)
  then show ?thesis
    using rx_step_inv [OF booted_facts(1)] booted_facts(3) by metis
qed

theorem registers_in_range_witness:
  "\<exists>t. chip_wput (Some on_interrupt_cb) (Some (on_transmit_cb [])) A2065_RAP_OFF 0xFFFF booted = Some t \<and> rap t < RAP_SIZE"
proof -
  have i: "chip_inv 0 booted" using booted_facts(1) by (simp add: db_inv_def)
  obtain t where t: "chip_wput (Some on_interrupt_cb) (Some (on_transmit_cb [])) A2065_RAP_OFF 0xFFFF booted = Some t"
    by (simp add: chip_wput_def)
  then show ?thesis using registers_in_range [OF i t] by blast
qed

theorem cmd_apply_decodes_witness:
  "cmd_apply [] (cmd_word 1 0x1235) booted =
     chip_wput (Some on_interrupt_cb) (Some (on_transmit_cb [])) A2065_RDP_OFF 0x1235 (booted\<lparr>rap := 1\<rparr>)"
  using cmd_apply_decodes [of 1 "0x1235" "[]" booted] by (simp add: word_less_nat_alt)

theorem poll_step_overflow_witness: "poll_step [] (booted\<lparr>poll_cnt := 2147483647\<rparr>) = None"
  using poll_step_overflow [of "booted\<lparr>poll_cnt := 2147483647\<rparr>" "[]"] booted_facts(3) by (simp add: has_def)

end
