(* ===== verification/Frames.thy ===== *)
theory Frames
  imports Doorbell
begin

text \<open>
  A frame through the whole doorbell daemon: from the socket into the receive ring of the driver and
  to its interrupt, and from the driver's transmit ring to the socket. The ring lemmas hold for every
  interrupt callback (locale \<open>int_callback\<close>); here they are used at the daemon's callback through the
  interpretation \<open>db\<close> and joined with what the daemon publishes.
\<close>

unbundle bit_operations_syntax

section \<open>Receive\<close>

lemma rx_step_unfold:
  assumes "0 \<le> sock_fd s" and "bytes \<noteq> []" and "length bytes \<le> length rxbuf"
  shows "rx_step tmp0 (Some bytes) rxbuf s =
    map_option (\<lambda>u. (put_seg rxbuf 0 bytes, update_int_state (push_csr_shadow u)))
      (gotfunc (Some on_interrupt_cb) tmp0 (put_seg rxbuf 0 bytes) (length bytes) s)"
  using assms by (auto simp: rx_step_def ethernet_recv_def split: bind_splits option.splits)

lemma publish_view: "boardram u = 0 \<Longrightarrow> ram_view (update_int_state (push_csr_shadow u)) = ram_view u"
  using publish_same_chip(3) [of u] by (simp add: on_interrupt_cb_def same_chip_def)

lemma publish_get_ram_word:
  "boardram u = 0 \<Longrightarrow> get_ram_word (update_int_state (push_csr_shadow u)) off = get_ram_word u off"
  by (simp add: flat.get_w_view publish_view)

lemma publish_read_block:
  "boardram u = 0 \<Longrightarrow> ram_read_block (update_int_state (push_csr_shadow u)) off n = ram_read_block u off n"
  by (simp add: flat.read_block_view publish_view)

text \<open>A status bit that was just set raises the interrupt line exactly when interrupts are enabled.\<close>

lemma int_value_status:
  "st \<in> {CSR0_RINT, CSR0_TINT, CSR0_MISS} \<Longrightarrow>
   int_value (intr_of (c OR st)) = (if has c CSR0_INEA then 1 else 0)"
  by (auto simp: int_value_def intr_of_def flag_bits)

text \<open>C10: a frame that arrives while the driver has a buffer ready and that the filter accepts is copied into
  that buffer with its check sequence, the descriptor goes back to the driver as a whole packet with
  its length, RINT is set, the interrupt line is raised if interrupts are enabled, nothing outside
  the buffer and the descriptor changes, and the published registers stay right.\<close>

theorem rx_step_delivers:
  fixes s :: "'a a2065_scheme" and bytes :: "u8 list"
  defines "n \<equiv> length bytes"
  assumes inv: "db_inv s" and fd: "0 \<le> sock_fd s" and en: "rx_enabled s" and ready: "rx_ready s (n + 4)" and n: "20 \<le> n"
    and bufs: "length rxbuf = MAX_PACKET_SIZE" "length tmp0 = MAX_PACKET_SIZE"
    and staged: "rx_staged s tmp0 (put_seg rxbuf 0 bytes) n = Some d" and pass: "fst (rx_filter (fakemac s) d s)"
  shows "\<exists>t. rx_step tmp0 (Some bytes) rxbuf s = Some (put_seg rxbuf 0 bytes, t) \<and>
    ram_read_block t (rx_buffer s) (n + 4) = rx_payload d n \<and>
    get_ram_word t (rx_slot s + 2) = (rx_status s AND NOT RX_OWN) OR RX_STP OR RX_ENP \<and>
    get_ram_word t (rx_slot s + 6) = of_nat (n + 4) \<and>
    csr t 0 = intr_of (csr s 0 OR CSR0_RINT) \<and>
    rd64 t DDR3_INT_OFF = (if has (csr s 0) CSR0_INEA then 1 else 0) \<and> db_inv t \<and>
    (\<forall>x. \<not> in_block (ucast (rx_buffer s)) (rx_room s) x \<and>
      x \<notin> {ucast (rx_slot s) + 2, ucast (rx_slot s) + 3, ucast (rx_slot s) + 6, ucast (rx_slot s) + 7} \<longrightarrow>
      ram_view t x = ram_view s x)"
proof -
  have chip: "chip_inv 0 s" using inv by (simp add: db_inv_def)
  have fit: "n \<le> MAX_PACKET_SIZE" using ready by (simp add: rx_ready_def)
  have buf: "n \<le> length (put_seg rxbuf 0 bytes)" using fit bufs(1) by (simp add: n_def)
  obtain u where u: "gotfunc (Some on_interrupt_cb) tmp0 (put_seg rxbuf 0 bytes) n s = Some u"
    and read: "ram_read_block u (rx_buffer s) (n + 4) = rx_payload d n"
    and desc: "get_ram_word u (rx_slot s + 2) = (rx_status s AND NOT RX_OWN) OR RX_STP OR RX_ENP"
      "get_ram_word u (rx_slot s + 6) = of_nat (n + 4)"
    and csr: "csr u 0 = intr_of (csr s 0 OR CSR0_RINT)"
    and frame: "\<forall>x. \<not> in_block (ucast (rx_buffer s)) (rx_room s) x \<and>
      x \<notin> {ucast (rx_slot s) + 2, ucast (rx_slot s) + 3, ucast (rx_slot s) + 6, ucast (rx_slot s) + 7} \<longrightarrow>
      ram_view u x = ram_view s x"
    using db.gotfunc_delivers [OF chip en ready n buf bufs(2) staged pass] by blast
  have iu: "chip_inv 0 u" using db.gotfunc_inv chip u by blast
  then have b: "boardram u = 0" by (simp add: chip_inv_def chip_busy_def)
  have step: "rx_step tmp0 (Some bytes) rxbuf s = Some (put_seg rxbuf 0 bytes, update_int_state (push_csr_shadow u))"
    using fd n fit bufs(1) u by (subst rx_step_unfold) (auto simp: n_def)
  show ?thesis
    unfolding step using publish_inv [OF iu] read desc csr frame
    by (simp add: publish_read_block publish_get_ram_word publish_view b published(2) int_value_status)
qed

text \<open>C17: a frame the filter accepts while the driver has no buffer ready is dropped and reported: MISS is set,
  the interrupt line follows the enable bit, and the board RAM is untouched.\<close>

theorem rx_step_misses:
  fixes s :: "'a a2065_scheme" and bytes :: "u8 list"
  defines "n \<equiv> length bytes"
  assumes inv: "db_inv s" and fd: "0 \<le> sock_fd s" and en: "rx_enabled s" and own: "\<not> has (rx_status s) RX_OWN"
    and n: "20 \<le> n" "n \<le> 4092" and bufs: "length rxbuf = MAX_PACKET_SIZE" "length tmp0 = MAX_PACKET_SIZE"
    and staged: "rx_staged s tmp0 (put_seg rxbuf 0 bytes) n = Some d" and pass: "fst (rx_filter (fakemac s) d s)"
  shows "\<exists>t. rx_step tmp0 (Some bytes) rxbuf s = Some (put_seg rxbuf 0 bytes, t) \<and> ram_view t = ram_view s \<and>
    csr t 0 = intr_of (csr s 0 OR CSR0_MISS) \<and>
    rd64 t DDR3_INT_OFF = (if has (csr s 0) CSR0_INEA then 1 else 0) \<and> db_inv t"
proof -
  have chip: "chip_inv 0 s" using inv by (simp add: db_inv_def)
  have buf: "n \<le> length (put_seg rxbuf 0 bytes)" "n + 4 \<le> MAX_PACKET_SIZE" using n bufs(1) by (simp_all add: n_def)
  obtain u where u: "gotfunc (Some on_interrupt_cb) tmp0 (put_seg rxbuf 0 bytes) n s = Some u"
    and view: "ram_view u = ram_view s" and csr: "csr u 0 = intr_of (csr s 0 OR CSR0_MISS)"
    using db.gotfunc_misses [OF chip en own n(1) buf bufs(2) staged pass] by blast
  have iu: "chip_inv 0 u" using db.gotfunc_inv chip u by blast
  then have b: "boardram u = 0" by (simp add: chip_inv_def chip_busy_def)
  have step: "rx_step tmp0 (Some bytes) rxbuf s = Some (put_seg rxbuf 0 bytes, update_int_state (push_csr_shadow u))"
    using fd n bufs(1) u by (subst rx_step_unfold) (auto simp: n_def)
  show ?thesis
    unfolding step using publish_inv [OF iu] view csr
    by (simp add: publish_view b published(2) int_value_status)
qed

section \<open>Transmit\<close>

text \<open>The translation of a frame that is not UDP looks at its first 38 bytes only, so it can be read off
  the frame instead of the array the frame lies in.\<close>

lemma take_put_seg_within:
  "i + length xs \<le> n \<Longrightarrow> n \<le> length b \<Longrightarrow> take n (put_seg b i xs) = put_seg (take n b) i xs"
  by (intro nth_equalityI) (auto simp: nth_put_seg)

lemma take_sw:
  assumes "mac_wf m" and "k + 6 \<le> n" and "n \<le> length p"
  shows "take n (sw m k p) = sw m k (take n p)"
proof -
  have "mac_at (take n p) k = mac_at p k" using assms by (simp add: take_drop min_def)
  moreover have "length (swap_mac m (mac_at p k)) = 6" using assms by simp
  ultimately show ?thesis using assms by (simp add: sw_def take_put_seg_within)
qed

lemma take_munge_plain:
  assumes "mac_wf m" and "38 \<le> n" and "n \<le> length p"
  shows "take n (munge_plain m p) = munge_plain m (take n p)"
  using assms by (simp add: munge_plain_def is_arp_def ether_type_def take_sw)

lemma is_udp_take: "24 \<le> n \<Longrightarrow> is_udp (take n p) = is_udp p"
  by (simp add: is_udp_def ether_type_def)

text \<open>C11: when transmission is demanded and a packet lies in the ring, in one descriptor or scattered over a
  chain of them, exactly that packet goes to the socket: gathered in ring order, padded to 60 bytes,
  without the driver's own check sequence where the mode says so, and with the card's address
  replaced by the host's. Every descriptor of the chain goes back to the driver with only its
  ownership bit changed, TINT is set and the interrupt line follows the enable bit.\<close>

theorem on_transmit_cb_sends:
  fixes s :: "'a a2065_scheme"
  defines "n \<equiv> unat (am_tdr_tlen s)" and "f \<equiv> ram_view s"
  assumes run: "chip_busy 0 s" and en: "tx_enabled s" and open_: "0 \<le> sock_fd s"
    and mode: "\<not> has (am_mode s) MODE_LOOP" "\<not> has (am_mode s) MODE_COLL"
    and start: "tx_find (am_tdr_tdra s) (am_tdr_tlen s) s = (Some st, s\<lparr>tdr_offset := j\<rparr>)" "j < n"
    and chain: "tx_chain f (am_tdr_tdra s) n j k" and sep: "tx_separate f (am_tdr_tdra s) n j k" and k: "k \<le> n"
    and size: "length (tx_gather f (am_tdr_tdra s) n j k) \<le> MAX_PACKET_SIZE"
    and frame: "frame = pad60 False (tx_gather f (am_tdr_tdra s) n j k)"
    and dst: "take 6 frame \<noteq> fakemac s" and plain: "\<not> is_udp frame" "mac_fakemac (mac s) \<noteq> mac_realmac (mac s)"
  shows "\<exists>t. on_transmit_cb tmp0 s = Some (1, t) \<and>
    sent t = sent s @ [munge_plain (mac s) (take (wire_len s st (length frame)) frame)] \<and>
    ram_view t = tx_released f (am_tdr_tdra s) n j k \<and> csr t 0 = intr_of (csr s 0 OR CSR0_TINT) \<and>
    rd64 t DDR3_INT_OFF = (if has (csr s 0) CSR0_INEA then 1 else 0)"
proof -
  let ?w = "wire_len s st (length frame)"
  have wf: "mac_wf (mac s)" using run by (simp add: chip_busy_def config_ok_def)
  have len: "60 \<le> length frame" "length frame \<le> MAX_PACKET_SIZE"
    using size by (simp_all add: frame length_pad60)
  then have w: "56 \<le> ?w" "?w \<le> length frame" by (auto simp: wire_len_def)
  obtain buf where buf: "length buf = MAX_PACKET_SIZE" "take (length frame) buf = frame"
    and sends: "\<And>buf' m. mungepacket (mac s) buf ?w = Some (buf', m) \<Longrightarrow>
      \<exists>t. do_transmit (Some on_interrupt_cb) tmp0 s = Some (1, t) \<and> sent t = sent s @ [take ?w buf'] \<and>
        ram_view t = tx_released f (am_tdr_tdra s) n j k \<and> csr t 0 = intr_of (csr s 0 OR CSR0_TINT)"
    using db.do_transmit_sends [OF run en open_ mode start [unfolded n_def] chain [unfolded n_def f_def]
        sep [unfolded n_def f_def] k [unfolded n_def] size [unfolded n_def f_def]] dst
    unfolding frame n_def f_def by blast
  have "\<not> is_udp buf"
    using plain(1) buf(2) is_udp_take [of "length frame" buf] len(1) by simp
  then have "mungepacket (mac s) buf ?w = Some (munge_plain (mac s) buf, ?w)"
    using mungepacket_plain [OF wf plain(2), of buf ?w] buf(1) w(1) by simp
  then obtain t where t: "do_transmit (Some on_interrupt_cb) tmp0 s = Some (1, t)"
      "sent t = sent s @ [take ?w (munge_plain (mac s) buf)]"
      "ram_view t = tx_released f (am_tdr_tdra s) n j k" "csr t 0 = intr_of (csr s 0 OR CSR0_TINT)"
    using sends by blast
  have "take ?w buf = take ?w frame"
    using buf(2) w(2) by (metis min.absorb1 take_take)
  then have "take ?w (munge_plain (mac s) buf) = munge_plain (mac s) (take ?w frame)"
    using take_munge_plain [OF wf, of ?w buf] w buf(1) len(2) by simp
  moreover have "boardram t = 0"
    using db.do_transmit_busy [OF run t(1)] by (simp add: chip_busy_def)
  ultimately show ?thesis
    using t publish_same_chip(3) [of t]
    by (simp add: on_transmit_cb_def publish_view published(2) int_value_status on_interrupt_cb_def same_chip_def)
qed

section \<open>Concrete rings\<close>

text \<open>A receive descriptor at \<^verbatim>\<open>0x100\<close> with the 1536-byte buffer \<^verbatim>\<open>0x1000\<close>, owned by the chip or not, and a
  transmit descriptor at \<^verbatim>\<open>0x200\<close> with a 60-byte packet at \<^verbatim>\<open>0x1000\<close>; in the window each word has its
  bytes swapped.\<close>

definition rx_ram :: "bool \<Rightarrow> u32 \<Rightarrow> u8" where
  "rx_ram own = (\<lambda>_. 0)(0x101 := 0x10, 0x103 := if own then 0x80 else 0, 0x105 := 0xFA)"

definition sending :: a2065 where
  "sending = put_ram_word (put_ram_word (put_ram_word (running 0 (\<lambda>_. 0)) 0x200 0x1000) 0x202 0x8300) 0x204 0xFFC4"

definition receiving :: "bool \<Rightarrow> a2065" where
  "receiving own = update_int_state (push_csr_shadow (running MODE_LOOP (rx_ram own)))"

lemma publish_fields:
  "sock_fd (update_int_state (push_csr_shadow s)) = sock_fd s" "am_mode (update_int_state (push_csr_shadow s)) = am_mode s"
  "am_rdr_rlen (update_int_state (push_csr_shadow s)) = am_rdr_rlen s"
  "am_rdr_rdra (update_int_state (push_csr_shadow s)) = am_rdr_rdra s"
  "rdr_offset (update_int_state (push_csr_shadow s)) = rdr_offset s"
  by (simp_all add: update_int_state_def push_csr_shadow_def wr64_chip)

lemma receiving_facts:
  "db_inv (receiving own)" "0 \<le> sock_fd (receiving own)" "rx_enabled (receiving own)" "has (am_mode (receiving own)) MODE_LOOP"
  using publish_inv [OF running_inv] running_rx_enabled [of MODE_LOOP "rx_ram own"]
  by (simp_all add: receiving_def publish_fields rx_enabled_def has_def)

lemma receiving_INEA: "has (csr (receiving own) 0) CSR0_INEA"
  by (simp add: receiving_def has_def)

lemma receiving_slot: "rx_slot (receiving own) = 0x100"
  by (simp add: receiving_def rx_slot_def publish_fields)

lemma receiving_desc:
  "rx_status (receiving own) = (if own then 0x8000 else 0)" "rx_buffer (receiving own) = 0x1000" "rx_room (receiving own) = 1536"
  by (simp_all add: rx_status_def rx_buffer_def rx_room_def receiving_slot)
    (simp_all add: receiving_def publish_get_ram_word, simp_all add: get_ram_word_def get_ram_byte_def rx_ram_def desc_addr_def desc_size_def)

lemma receiving_ready: "rx_ready (receiving True) 64"
  by (simp add: rx_ready_def receiving_desc receiving_slot has_def in_block_def upt_rec word_less_nat_alt)

lemma receiving_staged:
  "rx_staged (receiving own) tmp0 buf len = Some (put_seg tmp0 0 (take len buf))"
  "fst (rx_filter fm d (receiving own))"
  using receiving_facts(4) by (simp_all add: rx_staged_def rx_filter_def Let_def)

theorem rx_step_delivers_witness:
  "\<exists>t. rx_step (replicate 4096 0) (Some (replicate 60 7)) (replicate 4096 0) (receiving True) =
      Some (put_seg (replicate 4096 0) 0 (replicate 60 7), t) \<and>
    get_ram_word t 0x102 = 0x0300 \<and> get_ram_word t 0x106 = 64"
  using rx_step_delivers [OF receiving_facts(1-3), of True "replicate 60 7" "replicate 4096 0" "replicate 4096 0",
      unfolded length_replicate, simplified, OF receiving_ready receiving_staged]
  by (auto simp: receiving_slot receiving_desc)

theorem rx_step_misses_witness:
  "\<exists>t. rx_step (replicate 4096 0) (Some (replicate 60 7)) (replicate 4096 0) (receiving False) =
      Some (put_seg (replicate 4096 0) 0 (replicate 60 7), t) \<and> rd64 t DDR3_INT_OFF = 1"
  using rx_step_misses [OF receiving_facts(1-3), of False "replicate 60 7" "replicate 4096 0" "replicate 4096 0",
      unfolded length_replicate, simplified, OF _ receiving_staged]
  by (auto simp: receiving_desc receiving_INEA has_def [of 0])

lemma sending_fields:
  "am_tdr_tdra sending = 0x200" "am_tdr_tlen sending = 1" "am_mode sending = 0" "sock_fd sending = 3" "sent sending = []"
  "fakemac sending = mac_fakemac sample_mac" "mac sending = sample_mac" "tdr_offset sending = 0"
  "csr sending 0 = CSR0_STRT OR CSR0_RXON OR CSR0_TXON OR CSR0_INEA"
  by (simp_all add: sending_def)

lemma sending_view: "ram_view sending = (\<lambda>_. 0)(0x200 := 0x10, 0x202 := 0x83, 0x204 := 0xFF, 0x205 := 0xC4)"
proof -
  have "ram_view (running 0 (\<lambda>_. 0)) = (\<lambda>_. 0)" by (simp add: ram_view_def fun_eq_iff)
  then show ?thesis by (simp add: sending_def flat.put_w_view set_word_def fun_eq_iff)
qed

lemma sending_slot: "tx_slot 0x200 (Suc 0) j = 0x200"
  by (simp add: tx_slot_def)

lemma sending_entry:
  "ent_status (ram_view sending) 0x200 = 0x8300" "ent_size (ram_view sending) 0x200 = 60" "ent_buffer (ram_view sending) 0x200 = 0x1000"
  by (simp_all add: ent_status_def ent_size_def ent_buffer_def word_at_def sending_view tx_size_def desc_size_def desc_addr_def)

lemma sending_payload: "block_at (ram_view sending) 0x1000 60 = replicate 60 0"
proof -
  have "ram_view sending x = 0" if "0x1000 \<le> unat x" for x
    using that by (auto simp: sending_view)
  moreover have "0x1000 \<le> unat (0x1000 + of_nat i :: ram_addr)" if "i < 60" for i
    using that by (simp add: unat_word_ariths unat_of_nat)
  ultimately have "ram_view sending (0x1000 + of_nat i) = 0" if "i < 60" for i
    using that by blast
  then show ?thesis by (intro nth_equalityI) (simp_all add: block_at_def)
qed

lemma sending_ring:
  "tx_enabled sending" "tx_find 0x200 1 sending = (Some 0x8300, sending\<lparr>tdr_offset := 0\<rparr>)"
  "tx_chain (ram_view sending) 0x200 1 0 1" "tx_separate (ram_view sending) 0x200 1 0 1"
  "tx_gather (ram_view sending) 0x200 1 0 1 = replicate 60 0"
proof -
  have st: "get_ram_word sending 0x202 = 0x8300"
    using sending_entry(1) by (simp add: flat.get_w_view ent_status_def)
  show "tx_enabled sending" by (simp add: tx_enabled_def sending_fields has_def)
  show "tx_find 0x200 1 sending = (Some 0x8300, sending\<lparr>tdr_offset := 0\<rparr>)"
    by (simp add: tx_find_def Let_def sending_fields st has_def)
  show "tx_chain (ram_view sending) 0x200 1 0 1"
    by (simp add: sending_slot sending_entry has_def)
  show "tx_separate (ram_view sending) 0x200 1 0 1"
    by (simp add: tx_separate_def sending_slot sending_entry in_block_def)
  show "tx_gather (ram_view sending) 0x200 1 0 1 = replicate 60 0"
    by (simp add: sending_slot sending_entry sending_payload)
qed

lemma sending_busy: "chip_busy 0 sending"
  using running_inv [of 0 "\<lambda>_. 0"] by (simp add: chip_inv_def chip_busy_def sending_def)

theorem on_transmit_cb_sends_witness:
  "\<exists>t. on_transmit_cb [] sending = Some (1, t) \<and> sent t = [munge_plain sample_mac (replicate 60 0)]"
proof -
  have "\<not> is_udp (replicate 60 0)"
    by (simp add: is_udp_def ether_type_def)
  moreover have "replicate 6 (0 :: u8) \<noteq> mac_fakemac sample_mac"
    by (auto simp: sample_mac_def dest: arg_cong [of _ _ "\<lambda>xs. xs ! 1"])
  ultimately show ?thesis
    using on_transmit_cb_sends [OF sending_busy sending_ring(1), of "0x8300" 0 1 "replicate 60 0" "[]"]
      sending_ring sample_mac_wf
    by (simp add: sending_fields sending_slot sending_entry has_def pad60_def wire_len_def)
      (auto simp: min_def)
qed

end
