(* ===== verification/Interleaving.thy ===== *)
theory Interleaving
  imports Frames
begin

text \<open>
  The two threads of \<^verbatim>\<open>main_doorbell.cpp\<close> side by side, with the FPGA as the third party. What runs under
  \<^verbatim>\<open>registers_lock\<close> is one step; every access to a slot outside the lock is a step of its own. A thread
  publishes in four steps: it reads the registers under the lock, writes the CSR slot, reads CSR0
  under the lock again, and writes the interrupt slot.

  The chip itself is safe in every interleaving, and so is the command slot. The published copy is
  not: the value written may be older than what the other thread has published meanwhile.
\<close>

section \<open>The threads\<close>

datatype pub = Pub_Csr | Pub_Csr_Write u64 | Pub_Int | Pub_Int_Write u64

datatype main_pc = Poll | Apply u64 | Clear u64 | Publish pub

datatype rx_pc = Recv | Rx_Publish pub

record 's ilv =
  shared :: 's
  mpc :: main_pc
  rpc :: rx_pc

fun pub_step :: "pub \<Rightarrow> 'a a2065_scheme \<Rightarrow> pub option \<times> 'a a2065_scheme" where
  "pub_step Pub_Csr s = (Some (Pub_Csr_Write (csr_packed s)), s)"
| "pub_step (Pub_Csr_Write v) s = (Some Pub_Int, wr64 s DDR3_CSR_OFF v)"
| "pub_step Pub_Int s = (Some (Pub_Int_Write (int_value (registers_csr0 s))), s)"
| "pub_step (Pub_Int_Write v) s = (None, wr64 s DDR3_INT_OFF v)"

fun main_next :: "pub option \<Rightarrow> main_pc" where
  "main_next None = Poll"
| "main_next (Some p) = Publish p"

fun rx_next :: "pub option \<Rightarrow> rx_pc" where
  "rx_next None = Recv"
| "rx_next (Some p) = Rx_Publish p"

inductive ilv_step :: "('a a2065_scheme) ilv \<Rightarrow> ('a a2065_scheme) ilv \<Rightarrow> bool" where
  main_poll: "mpc c = Poll \<Longrightarrow> rd64 (shared c) DDR3_CMD_OFF = cmd \<Longrightarrow> has cmd DDR3_CMD_PENDING_BIT \<Longrightarrow>
    ilv_step c (c\<lparr>mpc := Apply cmd\<rparr>)"
| main_apply: "mpc c = Apply cmd \<Longrightarrow> cmd_apply tmp0 cmd (shared c) = Some t \<Longrightarrow>
    ilv_step c (c\<lparr>shared := t, mpc := Clear cmd\<rparr>)"
| main_clear: "mpc c = Clear cmd \<Longrightarrow>
    ilv_step c (c\<lparr>shared := wr64 (shared c) DDR3_CMD_OFF 0, mpc := Publish Pub_Csr\<rparr>)"
| main_publish: "mpc c = Publish p \<Longrightarrow> pub_step p (shared c) = (p', t) \<Longrightarrow>
    ilv_step c (c\<lparr>shared := t, mpc := main_next p'\<rparr>)"
| rx_recv: "rpc c = Recv \<Longrightarrow> gotfunc (Some on_interrupt_cb) tmp0 rxbuf len (shared c) = Some t \<Longrightarrow>
    ilv_step c (c\<lparr>shared := t, rpc := Rx_Publish Pub_Csr\<rparr>)"
| rx_publish: "rpc c = Rx_Publish p \<Longrightarrow> pub_step p (shared c) = (p', t) \<Longrightarrow>
    ilv_step c (c\<lparr>shared := t, rpc := rx_next p'\<rparr>)"
| fpga_command: "\<not> has (rd64 (shared c) DDR3_CMD_OFF) DDR3_CMD_PENDING_BIT \<Longrightarrow>
    ilv_step c (c\<lparr>shared := wr64 (shared c) DDR3_CMD_OFF (cmd_word r d)\<rparr>)"

abbreviation ilv_reach :: "('a a2065_scheme) ilv \<Rightarrow> ('a a2065_scheme) ilv \<Rightarrow> bool" where
  "ilv_reach \<equiv> ilv_step\<^sup>*\<^sup>*"

definition at_rest :: "'s \<Rightarrow> 's ilv" where
  "at_rest s = \<lparr>shared = s, mpc = Poll, rpc = Recv\<rparr>"

text \<open>Left alone, the four steps are the publication of the sequential model.\<close>

lemma publish_alone_main:
  "ilv_reach (\<lparr>shared = s, mpc = Publish Pub_Csr, rpc = r\<rparr>) (\<lparr>shared = update_int_state (push_csr_shadow s), mpc = Poll, rpc = r\<rparr>)"
proof -
  let ?c = "\<lambda>s p. \<lparr>shared = s, mpc = p, rpc = r\<rparr>"
  let ?s1 = "push_csr_shadow s"
  have "ilv_step (?c s (Publish Pub_Csr)) (?c s (Publish (Pub_Csr_Write (csr_packed s))))"
    using main_publish [of "?c s (Publish Pub_Csr)" Pub_Csr] by simp
  moreover have "ilv_step (?c s (Publish (Pub_Csr_Write (csr_packed s)))) (?c ?s1 (Publish Pub_Int))"
    using main_publish [of "?c s (Publish (Pub_Csr_Write (csr_packed s)))" "Pub_Csr_Write (csr_packed s)"]
    by (simp add: push_csr_shadow_def)
  moreover have "ilv_step (?c ?s1 (Publish Pub_Int)) (?c ?s1 (Publish (Pub_Int_Write (int_value (registers_csr0 ?s1)))))"
    using main_publish [of "?c ?s1 (Publish Pub_Int)" Pub_Int] by simp
  moreover have "ilv_step (?c ?s1 (Publish (Pub_Int_Write (int_value (registers_csr0 ?s1))))) (?c (update_int_state ?s1) Poll)"
    using main_publish [of "?c ?s1 (Publish (Pub_Int_Write (int_value (registers_csr0 ?s1))))" "Pub_Int_Write (int_value (registers_csr0 ?s1))"]
    by (simp add: update_int_state_def)
  ultimately show ?thesis by (meson converse_rtranclp_into_rtranclp rtranclp.rtrancl_refl)
qed

section \<open>What every interleaving keeps\<close>

text \<open>The chip is consistent, and while the main thread holds a command the slot still shows it.\<close>

definition ilv_inv :: "('a a2065_scheme) ilv \<Rightarrow> bool" where
  "ilv_inv c \<longleftrightarrow> chip_inv 0 (shared c) \<and>
    (case mpc c of
       Apply cmd \<Rightarrow> rd64 (shared c) DDR3_CMD_OFF = cmd \<and> has cmd DDR3_CMD_PENDING_BIT
     | Clear cmd \<Rightarrow> rd64 (shared c) DDR3_CMD_OFF = cmd \<and> has cmd DDR3_CMD_PENDING_BIT
     | _ \<Rightarrow> True)"

interpretation cmd_slot: chip_closed "Some on_interrupt_cb" "\<lambda>s. boardram s = 0 \<and> rd64 s DDR3_CMD_OFF = v"
  "Some (on_transmit_cb tmp0)" for v tmp0
  by unfold_locales
    (simp_all add: call_tx_def on_transmit_cb_def bind_eq_Some_conv, auto dest!: cmd_slot.P_do_transmit [rotated] simp: published(3),
     simp_all add: rd64_def)

lemma cmd_apply_slot:
  assumes "boardram s = 0" and "cmd_apply tmp0 cmd s = Some t"
  shows "rd64 t DDR3_CMD_OFF = rd64 s DDR3_CMD_OFF"
proof -
  obtain u where "chip_wput (Some on_interrupt_cb) (Some (on_transmit_cb tmp0)) A2065_RAP_OFF
      (ucast (ucast (drop_bit DDR3_CMD_RAP_SHIFT cmd AND DDR3_CMD_RAP_MASK) :: u8)) s = Some u"
    "chip_wput (Some on_interrupt_cb) (Some (on_transmit_cb tmp0)) A2065_RDP_OFF
      (ucast (drop_bit DDR3_CMD_DATA_SHIFT cmd AND DDR3_CMD_DATA_MASK)) u = Some t"
    using assms(2) unfolding cmd_apply_def by (auto simp: Let_def bind_eq_Some_conv)
  then show ?thesis
    using cmd_slot.P_chip_wput assms(1) by blast
qed

lemma pub_step_inv:
  assumes "chip_inv 0 s" and "pub_step p s = (p', t)"
  shows "chip_inv 0 t \<and> rd64 t DDR3_CMD_OFF = rd64 s DDR3_CMD_OFF"
  using assms by (cases p) (auto simp: wr64_inv)

lemma gotfunc_step:
  assumes "chip_inv 0 s" and "gotfunc (Some on_interrupt_cb) tmp0 rxbuf len s = Some t"
  shows "chip_inv 0 t \<and> rd64 t DDR3_CMD_OFF = rd64 s DDR3_CMD_OFF"
  using db.gotfunc_inv [OF assms] cmd_slot.P_gotfunc [OF _ assms(2)] assms(1)
  by (simp add: chip_inv_def chip_busy_def)

lemma ilv_step_inv:
  assumes "ilv_step c d" and "ilv_inv c"
  shows "ilv_inv d"
  using assms
proof (induction rule: ilv_step.induct)
  case (main_apply c cmd tmp0 t)
  then have "chip_inv 0 t" "rd64 t DDR3_CMD_OFF = rd64 (shared c) DDR3_CMD_OFF"
    using cmd_apply_inv cmd_apply_slot [of "shared c"] by (auto simp: ilv_inv_def chip_inv_def chip_busy_def)
  then show ?case using main_apply by (simp add: ilv_inv_def)
next
  case (main_publish c p p' t)
  then show ?case
    using pub_step_inv [of "shared c" p p' t] by (cases p') (auto simp: ilv_inv_def)
next
  case (rx_recv c tmp0 rxbuf len t)
  then show ?case
    using gotfunc_step [of "shared c" tmp0 rxbuf len t] by (auto simp: ilv_inv_def split: main_pc.splits)
next
  case (rx_publish c p p' t)
  then show ?case
    using pub_step_inv [of "shared c" p p' t] by (auto simp: ilv_inv_def split: main_pc.splits)
next
  case (fpga_command c r d)
  then show ?case by (auto simp: ilv_inv_def wr64_inv split: main_pc.splits)
qed (auto simp: ilv_inv_def wr64_inv)


section \<open>A lost interrupt\<close>

text \<open>A started chip with a receive buffer ready, nothing pending and interrupts enabled.\<close>

lemma receiving_applies:
  fixes s :: "'a a2065_scheme"
  assumes "\<not> has (csr s 0) CSR0_STOP"
  shows "cmd_apply tmp0 (cmd_word 1 0) s = Some (s\<lparr>rap := 1\<rparr>)"
proof -
  have "cmd_word 1 0 = 3" by (simp add: cmd_word_def)
  then show ?thesis using assms by (simp add: cmd_apply_def chip_wput_def word_le_nat_alt)
qed

lemma rx_ready_cong:
  assumes "same_chip s t"
  shows "rx_slot s = rx_slot t" "rx_status s = rx_status t" "rx_buffer s = rx_buffer t" "rx_room s = rx_room t"
    "rx_ready s n = rx_ready t n" "rx_enabled s = rx_enabled t"
  using assms
  by (simp_all add: same_chip_def rx_slot_def rx_status_def rx_buffer_def rx_room_def rx_ready_def rx_enabled_def flat.get_w_view)

lemma rx_ready_rap [simp]: "rx_ready (s\<lparr>rap := r\<rparr>) n = rx_ready s n" "rx_enabled (s\<lparr>rap := r\<rparr>) = rx_enabled s"
proof -
  have "get_ram_word (s\<lparr>rap := r\<rparr>) off = get_ram_word s off" for off
    by (simp add: get_ram_word_def get_ram_byte_def)
  then show "rx_ready (s\<lparr>rap := r\<rparr>) n = rx_ready s n" "rx_enabled (s\<lparr>rap := r\<rparr>) = rx_enabled s"
    by (simp_all add: rx_ready_def rx_slot_def rx_status_def rx_buffer_def rx_room_def rx_enabled_def)
qed

lemma loopback_frame:
  fixes s :: "'a a2065_scheme"
  assumes "chip_inv 0 s" and "rx_enabled s" and "rx_ready s 64" and "has (am_mode s) MODE_LOOP"
  shows "\<exists>t. gotfunc (Some on_interrupt_cb) (replicate 4096 0) (replicate 60 7) 60 s = Some t \<and> csr t 0 = intr_of (csr s 0 OR CSR0_RINT)"
proof -
  let ?d = "put_seg (replicate 4096 0) 0 (replicate 60 7)"
  have "rx_staged s (replicate 4096 0) (replicate 60 7) 60 = Some ?d" "fst (rx_filter (fakemac s) ?d s)"
    using assms(4) by (simp_all add: rx_staged_def rx_filter_def Let_def)
  then show ?thesis
    using db.gotfunc_delivers [OF assms(1,2), of 60 "replicate 60 7" "replicate 4096 0" ?d] assms(3) by auto
qed

lemma publish_alone_rx:
  "ilv_reach (\<lparr>shared = s, mpc = m, rpc = Rx_Publish Pub_Csr\<rparr>) (\<lparr>shared = update_int_state (push_csr_shadow s), mpc = m, rpc = Recv\<rparr>)"
proof -
  let ?c = "\<lambda>s p. \<lparr>shared = s, mpc = m, rpc = p\<rparr>"
  let ?s1 = "push_csr_shadow s"
  have "ilv_step (?c s (Rx_Publish Pub_Csr)) (?c s (Rx_Publish (Pub_Csr_Write (csr_packed s))))"
    using rx_publish [of "?c s (Rx_Publish Pub_Csr)" Pub_Csr] by simp
  moreover have "ilv_step (?c s (Rx_Publish (Pub_Csr_Write (csr_packed s)))) (?c ?s1 (Rx_Publish Pub_Int))"
    using rx_publish [of "?c s (Rx_Publish (Pub_Csr_Write (csr_packed s)))" "Pub_Csr_Write (csr_packed s)"]
    by (simp add: push_csr_shadow_def)
  moreover have "ilv_step (?c ?s1 (Rx_Publish Pub_Int)) (?c ?s1 (Rx_Publish (Pub_Int_Write (int_value (registers_csr0 ?s1)))))"
    using rx_publish [of "?c ?s1 (Rx_Publish Pub_Int)" Pub_Int] by simp
  moreover have "ilv_step (?c ?s1 (Rx_Publish (Pub_Int_Write (int_value (registers_csr0 ?s1))))) (?c (update_int_state ?s1) Recv)"
    using rx_publish [of "?c ?s1 (Rx_Publish (Pub_Int_Write (int_value (registers_csr0 ?s1))))" "Pub_Int_Write (int_value (registers_csr0 ?s1))"]
    by (simp add: update_int_state_def)
  ultimately show ?thesis by (meson converse_rtranclp_into_rtranclp rtranclp.rtrancl_refl)
qed

text \<open>The main thread serves a command up to the moment before it writes the interrupt slot.\<close>

lemma command_before_int:
  fixes s :: "'a a2065_scheme"
  assumes "\<not> has (csr s 0) CSR0_STOP" and "rd64 s DDR3_CMD_OFF = 0"
  defines "u \<equiv> push_csr_shadow (wr64 ((wr64 s DDR3_CMD_OFF (cmd_word 1 0))\<lparr>rap := 1\<rparr>) DDR3_CMD_OFF 0)"
  shows "ilv_reach (at_rest s) \<lparr>shared = u, mpc = Publish (Pub_Int_Write (int_value (csr s 0))), rpc = Recv\<rparr>"
proof -
  let ?c = "\<lambda>s p. \<lparr>shared = s, mpc = p, rpc = Recv\<rparr>"
  let ?w = "cmd_word 1 0" and ?s1 = "wr64 s DDR3_CMD_OFF (cmd_word 1 0)"
  let ?s2 = "?s1\<lparr>rap := 1\<rparr>"
  let ?s3 = "wr64 ?s2 DDR3_CMD_OFF 0"
  have w: "has ?w DDR3_CMD_PENDING_BIT" by (simp add: cmd_word_def has_def)
  have "ilv_step (at_rest s) (?c ?s1 Poll)"
    using fpga_command [of "at_rest s" 1 0] assms(2) by (simp add: at_rest_def has_def)
  moreover have "ilv_step (?c ?s1 Poll) (?c ?s1 (Apply ?w))"
    using main_poll [of "?c ?s1 Poll" ?w] w by simp
  moreover have "ilv_step (?c ?s1 (Apply ?w)) (?c ?s2 (Clear ?w))"
    using main_apply [of "?c ?s1 (Apply ?w)" ?w "[]" ?s2] receiving_applies [of ?s1 "[]"] assms(1) by simp
  moreover have "ilv_step (?c ?s2 (Clear ?w)) (?c ?s3 (Publish Pub_Csr))"
    using main_clear [of "?c ?s2 (Clear ?w)" ?w] by simp
  moreover have "ilv_step (?c ?s3 (Publish Pub_Csr)) (?c ?s3 (Publish (Pub_Csr_Write (csr_packed ?s3))))"
    using main_publish [of "?c ?s3 (Publish Pub_Csr)" Pub_Csr] by simp
  moreover have "ilv_step (?c ?s3 (Publish (Pub_Csr_Write (csr_packed ?s3)))) (?c u (Publish Pub_Int))"
    using main_publish [of "?c ?s3 (Publish (Pub_Csr_Write (csr_packed ?s3)))" "Pub_Csr_Write (csr_packed ?s3)"]
    by (simp add: u_def push_csr_shadow_def)
  moreover have "ilv_step (?c u (Publish Pub_Int)) (?c u (Publish (Pub_Int_Write (int_value (csr s 0)))))"
    using main_publish [of "?c u (Publish Pub_Int)" Pub_Int] by (simp add: u_def registers_csr0_def)
  ultimately show ?thesis by (meson converse_rtranclp_into_rtranclp rtranclp.rtrancl_refl)
qed

text \<open>C37: an interrupt can be lost. The two threads can meet so that the main thread writes the interrupt slot with the
  value it read before a frame arrived: both threads are idle again, the chip asks for an interrupt
  and has it enabled, and the line that the FPGA sees is low.\<close>

theorem lost_interrupt_reachable:
  "\<exists>s c. db_inv s \<and> ilv_reach (at_rest (s :: a2065)) c \<and> mpc c = Poll \<and> rpc c = Recv \<and>
    has (csr (shared c) 0) CSR0_INTR \<and> has (csr (shared c) 0) CSR0_INEA \<and> rd64 (shared c) DDR3_INT_OFF = 0"
proof -
  let ?s = "receiving True"
  let ?s2 = "(wr64 ?s DDR3_CMD_OFF (cmd_word 1 0))\<lparr>rap := 1\<rparr>"
  define u where "u = push_csr_shadow (wr64 ?s2 DDR3_CMD_OFF 0)"
  have csr: "csr ?s 0 = CSR0_STRT OR CSR0_RXON OR CSR0_TXON OR CSR0_INEA"
    by (simp add: receiving_def)
  have inv: "chip_inv 0 ?s" and base: "boardram ?s = 0"
    using receiving_facts(1) by (simp_all add: db_inv_def chip_inv_def chip_busy_def)
  have cmd: "rd64 ?s DDR3_CMD_OFF = 0"
    unfolding receiving_def published(3) by (simp add: rd64_def rx_ram_def)
  let ?m = "Publish (Pub_Int_Write (int_value (csr ?s 0)))"
  have 1: "ilv_reach (at_rest ?s) \<lparr>shared = u, mpc = ?m, rpc = Recv\<rparr>"
    unfolding u_def by (rule command_before_int) (simp_all add: csr cmd has_def)
  let ?s1 = "wr64 ?s DDR3_CMD_OFF (cmd_word 1 0)"
  have s1: "same_chip ?s1 ?s" by (rule wr64_same_chip [OF base]) simp
  have us2: "same_chip u ?s2"
    unfolding u_def using base publish_same_chip(1) [of "wr64 ?s2 DDR3_CMD_OFF 0"] wr64_same_chip [of ?s2 DDR3_CMD_OFF 0] same_chip_trans
    by fastforce
  have i2: "chip_inv 0 ?s2"
    using same_chip_inv [OF s1, of 0] inv by (simp add: chip_inv_def chip_busy_def config_ok_def)
  have u: "chip_inv 0 u" "rx_enabled u" "rx_ready u 64"
    using same_chip_inv [OF us2, of 0] i2 rx_ready_cong(5,6) [OF us2] rx_ready_cong(5,6) [OF s1] receiving_ready receiving_facts(3)
    by simp_all
  have u': "has (am_mode u) MODE_LOOP" "csr u 0 = csr ?s 0"
    using us2 s1 receiving_facts(4) [of True] by (simp_all add: same_chip_def)
  obtain t where t: "gotfunc (Some on_interrupt_cb) (replicate 4096 0) (replicate 60 7) 60 u = Some t" "csr t 0 = intr_of (csr ?s 0 OR CSR0_RINT)"
    using loopback_frame [OF u u'(1)] u'(2) by auto
  have 2: "ilv_step \<lparr>shared = u, mpc = ?m, rpc = Recv\<rparr> \<lparr>shared = t, mpc = ?m, rpc = Rx_Publish Pub_Csr\<rparr>"
    using rx_recv [of "\<lparr>shared = u, mpc = ?m, rpc = Recv\<rparr>" "replicate 4096 0" "replicate 60 7" 60 t] t(1) by simp
  let ?v = "update_int_state (push_csr_shadow t)"
  have 3: "ilv_step \<lparr>shared = ?v, mpc = ?m, rpc = Recv\<rparr> \<lparr>shared = wr64 ?v DDR3_INT_OFF 0, mpc = Poll, rpc = Recv\<rparr>"
    using main_publish [of "\<lparr>shared = ?v, mpc = ?m, rpc = Recv\<rparr>" "Pub_Int_Write 0"] by (simp add: csr int_value_def has_def)
  have "ilv_reach (at_rest ?s) \<lparr>shared = wr64 ?v DDR3_INT_OFF 0, mpc = Poll, rpc = Recv\<rparr>"
    using rtranclp_trans [OF rtranclp.rtrancl_into_rtrancl [OF 1 2] rtranclp.rtrancl_into_rtrancl [OF publish_alone_rx 3]] .
  moreover have "has (csr t 0) CSR0_INTR" "has (csr t 0) CSR0_INEA"
    by (simp_all add: t(2) csr intr_of_def has_def)
  ultimately show ?thesis
    using receiving_facts(1) by (intro exI [of _ ?s] exI [of _ "\<lparr>shared = wr64 ?v DDR3_INT_OFF 0, mpc = Poll, rpc = Recv\<rparr>"]) simp
qed


end
