(* ===== verification/Reg_Lock.thy ===== *)
theory Reg_Lock
  imports Prelude
begin

text \<open>
  The register lock of \<^verbatim>\<open>registers.cpp\<close>: a recursive mutex that \<^verbatim>\<open>registers_lock\<close> and \<^verbatim>\<open>registers_unlock\<close> use only
  after \<^verbatim>\<open>registers_lock_init\<close>. The doorbell and the DDR3 daemon initialise it before they start the receive
  thread; the bridge daemon never does. \<open>None\<close> is a call that has to wait.

  \<open>lock_step\<close> lets any thread call any of the two, and counts in \<open>held\<close> the calls of a thread that have
  returned and are not yet undone. A thread unlocks only what it holds.
\<close>

record reg_lock =
  reg_lock_init_done :: bool
  owner :: "nat option"
  depth :: nat

definition registers_lock_init :: "reg_lock \<Rightarrow> reg_lock" where
  "registers_lock_init l = \<lparr>reg_lock_init_done = True, owner = None, depth = 0\<rparr>"

definition registers_lock :: "nat \<Rightarrow> reg_lock \<Rightarrow> reg_lock option" where
  "registers_lock t l =
    (if reg_lock_init_done l then
       (case owner l of
          None \<Rightarrow> Some (l\<lparr>owner := Some t, depth := 1\<rparr>)
        | Some u \<Rightarrow> if u = t then Some (l\<lparr>depth := depth l + 1\<rparr>) else None)
     else Some l)"

definition registers_unlock :: "nat \<Rightarrow> reg_lock \<Rightarrow> reg_lock" where
  "registers_unlock t l =
    (if reg_lock_init_done l \<and> owner l = Some t then
       (if depth l \<le> 1 then l\<lparr>owner := None, depth := 0\<rparr> else l\<lparr>depth := depth l - 1\<rparr>)
     else l)"

section \<open>Threads\<close>

inductive lock_step :: "reg_lock \<times> (nat \<Rightarrow> nat) \<Rightarrow> reg_lock \<times> (nat \<Rightarrow> nat) \<Rightarrow> bool" where
  acquire: "registers_lock t l = Some l' \<Longrightarrow> lock_step (l, held) (l', held(t := held t + 1))"
| release: "0 < held t \<Longrightarrow> lock_step (l, held) (registers_unlock t l, held(t := held t - 1))"

inductive lock_reach :: "reg_lock \<Rightarrow> reg_lock \<times> (nat \<Rightarrow> nat) \<Rightarrow> bool" for l0 where
  start: "lock_reach l0 (l0, \<lambda>_. 0)"
| step: "lock_reach l0 c \<Longrightarrow> lock_step c c' \<Longrightarrow> lock_reach l0 c'"

inductive_cases lock_stepE: "lock_step (l, held) c"

text \<open>The owner is the thread that holds the lock, as deep as it has locked it.\<close>

definition lock_ok :: "reg_lock \<times> (nat \<Rightarrow> nat) \<Rightarrow> bool" where
  "lock_ok c \<longleftrightarrow> (case c of (l, held) \<Rightarrow> reg_lock_init_done l \<and>
     (case owner l of None \<Rightarrow> depth l = 0 \<and> (\<forall>t. held t = 0) | Some u \<Rightarrow> 0 < depth l \<and> (\<forall>t. held t = (if t = u then depth l else 0))))"

lemma lock_ok_step: "lock_step c c' \<Longrightarrow> lock_ok c \<Longrightarrow> lock_ok c'"
proof (induction rule: lock_step.induct)
  case (acquire t l l' held)
  then show ?case by (auto simp: registers_lock_def lock_ok_def split: option.splits if_splits)
next
  case (release held t l)
  then show ?case by (auto simp: registers_unlock_def lock_ok_def split: option.splits if_splits)
qed

lemma lock_ok_reach: "lock_reach (registers_lock_init l) c \<Longrightarrow> lock_ok c"
  by (induction rule: lock_reach.induct) (simp_all add: lock_ok_step, simp add: lock_ok_def registers_lock_init_def)


text \<open>A thread that holds the lock can always take it again, which the callbacks of the chip do, and a thread that
  has released all its locks leaves it free for the others.\<close>

theorem lock_recursive:
  assumes "lock_reach (registers_lock_init l) (l', held)"
  shows "(0 < held t \<longrightarrow> (\<exists>m. registers_lock t l' = Some m \<and> registers_unlock t m = l')) \<and>
    ((\<forall>t. held t = 0) \<longrightarrow> (\<forall>u. registers_lock u l' \<noteq> None))"
  using lock_ok_reach [OF assms]
  by (cases l') (auto simp: lock_ok_def registers_lock_def registers_unlock_def split: option.splits if_splits)

text \<open>Without the initialisation, as in the bridge daemon, both threads are let in.\<close>

theorem lock_uninitialised:
  assumes "\<not> reg_lock_init_done l"
  shows "\<exists>held. lock_reach l (l, held) \<and> 0 < held 0 \<and> 0 < held 1"
proof -
  have free: "registers_lock t l = Some l" for t using assms by (simp add: registers_lock_def)
  have "lock_reach l (l, (\<lambda>_. 0)(0 := 1))"
    using lock_reach.step [OF lock_reach.start lock_step.acquire [OF free [of 0]]] by simp
  from lock_reach.step [OF this lock_step.acquire [OF free [of 1]]]
  show ?thesis by (intro exI [of _ "(\<lambda>_. 0)(0 := 1, 1 := 1)"]) simp
qed

section \<open>Sample runs\<close>

definition fresh_lock :: reg_lock where
  "fresh_lock = \<lparr>reg_lock_init_done = False, owner = None, depth = 0\<rparr>"


theorem lock_recursive_witness: "registers_lock 1 (registers_lock_init fresh_lock) \<noteq> None"
  using lock_recursive [OF lock_reach.start [of "registers_lock_init fresh_lock"], of 0] by simp

theorem lock_uninitialised_witness: "\<exists>held. lock_reach fresh_lock (fresh_lock, held) \<and> 0 < held 0 \<and> 0 < held 1"
  by (rule lock_uninitialised) (simp add: fresh_lock_def)

end
