(* ===== verification/Remote.thy ===== *)
theory Remote
  imports Boardram
begin

text \<open>
  \<^verbatim>\<open>src/arm/src/boardram_remote.cpp\<close> and the \<^verbatim>\<open>BOARDRAM_REMOTE\<close> half of \<^verbatim>\<open>include/boardram_access.h\<close>: the board
  RAM lies in the FPGA and every access is a word transfer through two mailbox slots, polled at most
  three times 10000 rounds, with the register service running between two polls.

  The FPGA side of the transfer is not in the repository: it is an argument \<open>env\<close>, the change the
  FPGA makes to the shared window before each poll, and \<open>serves\<close> states what the daemon relies on.
  Polls are counted down, so a transfer that nobody answers ends, with \<^verbatim>\<open>0xFFFF\<close>. \<open>None\<close> is only an
  undefined behaviour of the register service.
\<close>

unbundle bit_operations_syntax

type_synonym 's fpga = "'s \<Rightarrow> 's"
type_synonym 's reg_service = "('s \<Rightarrow> 's option) option"

section \<open>A transfer\<close>

abbreviation MBX_RAM_REQ :: u32 where "MBX_RAM_REQ \<equiv> 0x8010"
abbreviation MBX_RAM_RSP :: u32 where "MBX_RAM_RSP \<equiv> 0x8018"

definition xfer_request :: "u16 \<Rightarrow> bool \<Rightarrow> u16 \<Rightarrow> u64" where
  "xfer_request off write wdata =
     1 OR push_bit 1 (if write then 1 else 0) OR push_bit 2 (ucast (off AND 0x7FFE)) OR push_bit 17 (ucast wdata)"

definition call_service :: "'s reg_service \<Rightarrow> 's \<Rightarrow> 's option" where
  "call_service reg_service_cb s = (case reg_service_cb of None \<Rightarrow> Some s | Some cb \<Rightarrow> cb s)"

text \<open>The inner loop: \<open>Inl\<close> is the answer, \<open>Inr\<close> the state after \<open>n\<close> polls without one.\<close>

primrec xfer_poll ::
  "('a window_scheme) fpga \<Rightarrow> ('a window_scheme) reg_service \<Rightarrow> nat \<Rightarrow> 'a window_scheme \<Rightarrow>
   (u16 \<times> 'a window_scheme + 'a window_scheme) option" where
  "xfer_poll env cb 0 s = Some (Inr s)"
| "xfer_poll env cb (Suc n) s =
    (let s = env s;
         rsp = rd64 s MBX_RAM_RSP
     in if has rsp 1 then
          (let s = wr64 s MBX_RAM_RSP 0;
               s = wr64 s MBX_RAM_REQ 0
           in Some (Inl (ucast (drop_bit 1 rsp), s)))
        else Option.bind (call_service cb s) (xfer_poll env cb n))"

primrec xfer_attempts ::
  "('a window_scheme) fpga \<Rightarrow> ('a window_scheme) reg_service \<Rightarrow> u64 \<Rightarrow> nat \<Rightarrow> 'a window_scheme \<Rightarrow>
   (u16 \<times> 'a window_scheme + 'a window_scheme) option" where
  "xfer_attempts env cb req 0 s = Some (Inr s)"
| "xfer_attempts env cb req (Suc k) s =
    (case xfer_poll env cb 10000 (wr64 s MBX_RAM_REQ req) of
       None \<Rightarrow> None
     | Some (Inl r) \<Rightarrow> Some (Inl r)
     | Some (Inr s) \<Rightarrow> xfer_attempts env cb req k s)"

definition boardram_xfer ::
  "('a window_scheme) fpga \<Rightarrow> ('a window_scheme) reg_service \<Rightarrow> bool \<Rightarrow> u16 \<Rightarrow> bool \<Rightarrow> u16 \<Rightarrow> 'a window_scheme \<Rightarrow>
   (u16 \<times> 'a window_scheme) option" where
  "boardram_xfer env cb mapped off write wdata s =
    (if \<not> mapped then Some (0xFFFF, s)
     else case xfer_attempts env cb (xfer_request off write wdata) 3 s of
       None \<Rightarrow> None
     | Some (Inl r) \<Rightarrow> Some r
     | Some (Inr s) \<Rightarrow> Some (0xFFFF, wr64 s MBX_RAM_REQ 0))"

section \<open>Bytes and words\<close>

definition boardram_rb ::
  "('a window_scheme) fpga \<Rightarrow> ('a window_scheme) reg_service \<Rightarrow> bool \<Rightarrow> u32 \<Rightarrow> 'a window_scheme \<Rightarrow>
   (u8 \<times> 'a window_scheme) option" where
  "boardram_rb env cb mapped off s = do {
     (w, s) \<leftarrow> boardram_xfer env cb mapped (ucast (off AND 0x7FFE)) False 0 s;
     Some (if bit off 0 then ucast (w AND 0xFF) else ucast (drop_bit 8 w), s)
   }"

definition boardram_rw ::
  "('a window_scheme) fpga \<Rightarrow> ('a window_scheme) reg_service \<Rightarrow> bool \<Rightarrow> u32 \<Rightarrow> 'a window_scheme \<Rightarrow>
   (u16 \<times> 'a window_scheme) option" where
  "boardram_rw env cb mapped off s = boardram_xfer env cb mapped (ucast (off AND 0x7FFE)) False 0 s"

definition boardram_wb ::
  "('a window_scheme) fpga \<Rightarrow> ('a window_scheme) reg_service \<Rightarrow> bool \<Rightarrow> u32 \<Rightarrow> u8 \<Rightarrow> 'a window_scheme \<Rightarrow>
   ('a window_scheme) option" where
  "boardram_wb env cb mapped off val s = do {
     (old, s) \<leftarrow> boardram_xfer env cb mapped (ucast (off AND 0x7FFE)) False 0 s;
     let nw = (if bit off 0 then (old AND 0xFF00) OR ucast val else push_bit 8 (ucast val) OR (old AND 0x00FF));
     (_, s) \<leftarrow> boardram_xfer env cb mapped (ucast (off AND 0x7FFE)) True nw s;
     Some s
   }"

definition boardram_ww ::
  "('a window_scheme) fpga \<Rightarrow> ('a window_scheme) reg_service \<Rightarrow> bool \<Rightarrow> u32 \<Rightarrow> u16 \<Rightarrow> 'a window_scheme \<Rightarrow>
   ('a window_scheme) option" where
  "boardram_ww env cb mapped off val s = map_option snd (boardram_xfer env cb mapped (ucast (off AND 0x7FFE)) True val s)"

section \<open>Answers\<close>

text \<open>The FPGA's state when its answer is first seen, at poll \<open>n\<close>.\<close>

primrec answer_after ::
  "('a window_scheme) fpga \<Rightarrow> ('a window_scheme) reg_service \<Rightarrow> nat \<Rightarrow> 'a window_scheme \<Rightarrow> ('a window_scheme) option" where
  "answer_after env cb 0 s = (if has (rd64 (env s) MBX_RAM_RSP) 1 then Some (env s) else None)"
| "answer_after env cb (Suc n) s =
    (if has (rd64 (env s) MBX_RAM_RSP) 1 then None else Option.bind (call_service cb (env s)) (answer_after env cb n))"

abbreviation slots_clear :: "'a window_scheme \<Rightarrow> 'a window_scheme" where
  "slots_clear t \<equiv> wr64 (wr64 t MBX_RAM_RSP 0) MBX_RAM_REQ 0"

lemma xfer_poll_answer:
  "answer_after env cb n s = Some t \<Longrightarrow> n < m \<Longrightarrow>
   xfer_poll env cb m s = Some (Inl (ucast (drop_bit 1 (rd64 t MBX_RAM_RSP)), slots_clear t))"
proof (induction n arbitrary: s m)
  case 0
  then show ?case by (cases m) (auto simp: Let_def split: if_splits)
next
  case (Suc n)
  then obtain m' where m: "m = Suc m'" by (cases m) auto
  obtain u where "call_service cb (env s) = Some u" "answer_after env cb n u = Some t" "\<not> has (rd64 (env s) MBX_RAM_RSP) 1"
    using Suc.prems(1) by (auto simp: bind_eq_Some_conv split: if_splits)
  then show ?case using Suc.IH [of u m'] Suc.prems(2) by (simp add: m)
qed

lemma boardram_xfer_answer:
  assumes "answer_after env cb n (wr64 s MBX_RAM_REQ (xfer_request off w d)) = Some t" and "n < 10000"
  shows "boardram_xfer env cb True off w d s = Some (ucast (drop_bit 1 (rd64 t MBX_RAM_RSP)), slots_clear t)"
  using xfer_poll_answer [OF assms] by (simp add: boardram_xfer_def numeral_3_eq_3)

lemma answer_word: "ucast (drop_bit 1 (1 OR push_bit 1 (ucast v) :: u64)) = v" for v :: u16
  by (rule bit_word_eqI) (auto simp: bit_simps simp del: push_bit_Suc)

section \<open>What the daemon relies on\<close>

text \<open>Asked while the answer slot is empty, the FPGA answers within one attempt: a read with the word at
  the even address, without changing its RAM; a write by storing the word. The slots are not part of
  the RAM.\<close>

definition serves ::
  "('a window_scheme) fpga \<Rightarrow> ('a window_scheme) reg_service \<Rightarrow> ('a window_scheme \<Rightarrow> ram_addr \<Rightarrow> u8) \<Rightarrow> bool" where
  "serves env cb view \<longleftrightarrow>
    (\<forall>s v. view (wr64 s MBX_RAM_REQ v) = view s \<and> view (wr64 s MBX_RAM_RSP v) = view s) \<and>
    (\<forall>s off w d. \<not> has (rd64 s MBX_RAM_RSP) 1 \<and> rd64 s MBX_RAM_REQ = xfer_request off w d \<longrightarrow>
      (\<exists>n t v. n < 10000 \<and> answer_after env cb n s = Some t \<and> rd64 t MBX_RAM_RSP = 1 OR push_bit 1 (ucast (v :: u16)) \<and>
        (if w then view t = set_word (view s) (ucast (off AND 0x7FFE)) d
         else view t = view s \<and> v = word_at (view s) (ucast (off AND 0x7FFE)))))"

lemma slots_ram_apart [simp]: "apart MBX_RAM_REQ MBX_RAM_RSP" "apart MBX_RAM_RSP MBX_RAM_REQ"
  by (simp_all add: apart_def)

lemma xfer_served:
  assumes sv: "serves env cb view" and idle: "\<not> has (rd64 s MBX_RAM_RSP) 1"
  obtains t v where "boardram_xfer env cb True off w d s = Some (v, t)" and "rd64 t MBX_RAM_RSP = 0" and "rd64 t MBX_RAM_REQ = 0"
    and "if w then view t = set_word (view s) (ucast (off AND 0x7FFE)) d
         else view t = view s \<and> v = word_at (view s) (ucast (off AND 0x7FFE))"
proof -
  let ?s = "wr64 s MBX_RAM_REQ (xfer_request off w d)"
  have "\<not> has (rd64 ?s MBX_RAM_RSP) 1" "rd64 ?s MBX_RAM_REQ = xfer_request off w d" using idle by simp_all
  then obtain n t v where n: "n < 10000" "answer_after env cb n ?s = Some t" "rd64 t MBX_RAM_RSP = 1 OR push_bit 1 (ucast v)"
    and eff: "if w then view t = set_word (view ?s) (ucast (off AND 0x7FFE)) d
      else view t = view ?s \<and> v = word_at (view ?s) (ucast (off AND 0x7FFE))"
    using sv unfolding serves_def by metis
  have "boardram_xfer env cb True off w d s = Some (v, slots_clear t)"
    using boardram_xfer_answer [OF n(2,1)] by (simp only: n(3) answer_word)
  moreover have vs: "view ?s = view s" "view (slots_clear t) = view t"
    using sv by (simp_all add: serves_def)
  ultimately show thesis
    using that [of v "slots_clear t"] eff unfolding vs by simp
qed

text \<open>The address of the word that an offset falls in.\<close>

definition even_addr :: "u32 \<Rightarrow> ram_addr" where
  "even_addr off = ucast off AND NOT 1"

lemma bit_7FFE: "bit (0x7FFE :: int) n \<longleftrightarrow> 0 < n \<and> n < 15"
proof -
  have e: "(0x7FFE :: int) = push_bit 1 (mask 14)" by (simp add: mask_eq_exp_minus_1)
  show ?thesis unfolding e by (auto simp: bit_simps simp del: push_bit_Suc)
qed

lemma even_offset: "ucast (ucast (off AND 0x7FFE) AND 0x7FFE :: u16) = even_addr off" for off :: u32
  unfolding even_addr_def by (intro bit_word_eqI) (auto simp: bit_simps bit_1_iff bit_7FFE)

text \<open>The two halves of a word, as the byte accesses see them.\<close>

lemma aligned_halves:
  "bit off 0 \<Longrightarrow> ucast off = even_addr off + 1" "\<not> bit off 0 \<Longrightarrow> ucast off = even_addr off"
proof -
  define a where "a = even_addr off"
  have "a + 1 = a OR 1"
    by (rule disjunctive_add) (auto simp: a_def even_addr_def bit_simps bit_1_iff)
  moreover have "ucast off = a OR 1" if "bit off 0"
  proof (rule bit_word_eqI)
    show "bit (ucast off :: ram_addr) n = bit (a OR 1) n" if "n < LENGTH(15)" for n
      using that \<open>bit off 0\<close> by (cases n) (auto simp: a_def even_addr_def bit_simps bit_1_iff)
  qed
  moreover have "ucast off = a" if "\<not> bit off 0"
  proof (rule bit_word_eqI)
    show "bit (ucast off :: ram_addr) n = bit a n" if "n < LENGTH(15)" for n
      using that \<open>\<not> bit off 0\<close> by (cases n) (auto simp: a_def even_addr_def bit_simps bit_1_iff)
  qed
  ultimately show "bit off 0 \<Longrightarrow> ucast off = even_addr off + 1" "\<not> bit off 0 \<Longrightarrow> ucast off = even_addr off"
    by (simp_all add: a_def)
qed

lemma word_at_bytes:
  "ucast (word_at f a AND 0xFF) = f (a + 1)" "ucast (drop_bit 8 (word_at f a)) = f a"
proof -
  have m: "(0xFF :: u16) = mask 8" by (simp add: mask_eq_exp_minus_1)
  show "ucast (word_at f a AND 0xFF) = f (a + 1)" unfolding m
    by (rule bit_word_eqI) (auto simp: word_at_def bit_simps)
  show "ucast (drop_bit 8 (word_at f a)) = f a"
    by (rule bit_word_eqI) (auto simp: word_at_def bit_simps dest: bit_imp_le_length)
qed

lemma set_word_byte:
  "set_word f a ((word_at f a AND 0xFF00) OR ucast v) = f(a + 1 := v)"
  "set_word f a (push_bit 8 (ucast v) OR (word_at f a AND 0x00FF)) = f(a := v)"
proof -
  have m: "(0xFF :: u16) = mask 8" "(0xFF00 :: u16) = push_bit 8 (mask 8)" by (simp_all add: mask_eq_exp_minus_1)
  have "ucast (drop_bit 8 ((word_at f a AND 0xFF00) OR ucast v)) = f a" "ucast ((word_at f a AND 0xFF00) OR ucast v) = v"
    unfolding m by (rule bit_word_eqI, auto simp: word_at_def bit_simps dest: bit_imp_le_length)+
  then show "set_word f a ((word_at f a AND 0xFF00) OR ucast v) = f(a + 1 := v)"
    by (simp add: set_word_def)
  have "ucast (drop_bit 8 (push_bit 8 (ucast v) OR (word_at f a AND 0x00FF))) = v"
    "ucast (push_bit 8 (ucast v) OR (word_at f a AND 0x00FF)) = f (a + 1)"
    unfolding m by (rule bit_word_eqI, auto simp: word_at_def bit_simps dest: bit_imp_le_length)+
  then show "set_word f a (push_bit 8 (ucast v) OR (word_at f a AND 0x00FF)) = f(a := v)"
    by (simp add: set_word_def fun_eq_iff)
qed

text \<open>An FPGA that answers at the first poll serves its RAM, whatever the register service does.\<close>

lemma serves_at_once:
  fixes env :: "('a window_scheme) fpga"
  assumes "\<And>s v. view (wr64 s MBX_RAM_REQ v) = view s" and "\<And>s v. view (wr64 s MBX_RAM_RSP v) = view s"
    and "\<And>s off w d. \<not> has (rd64 s MBX_RAM_RSP) 1 \<Longrightarrow> rd64 s MBX_RAM_REQ = xfer_request off w d \<Longrightarrow>
      \<exists>v. rd64 (env s) MBX_RAM_RSP = 1 OR push_bit 1 (ucast (v :: u16)) \<and>
        (if w then view (env s) = set_word (view s) (ucast (off AND 0x7FFE)) d
         else view (env s) = view s \<and> v = word_at (view s) (ucast (off AND 0x7FFE)))"
  shows "serves env cb view"
  unfolding serves_def
proof (intro conjI allI impI)
  fix s :: "'a window_scheme" and off d :: u16 and w
  assume "\<not> has (rd64 s MBX_RAM_RSP) 1 \<and> rd64 s MBX_RAM_REQ = xfer_request off w d"
  then obtain v where v: "rd64 (env s) MBX_RAM_RSP = 1 OR push_bit 1 (ucast (v :: u16))"
    "if w then view (env s) = set_word (view s) (ucast (off AND 0x7FFE)) d
     else view (env s) = view s \<and> v = word_at (view s) (ucast (off AND 0x7FFE))"
    using assms(3) by blast
  have "bit ((1 OR push_bit 1 (ucast v)) AND 1 :: u64) 0" by (simp add: bit_simps)
  then have "has (rd64 (env s) MBX_RAM_RSP) 1" by (auto simp: v(1) has_def)
  then have "answer_after env cb 0 s = Some (env s)" by simp
  then show "\<exists>n t v. n < 10000 \<and> answer_after env cb n s = Some t \<and> rd64 t MBX_RAM_RSP = 1 OR push_bit 1 (ucast (v :: u16)) \<and>
      (if w then view t = set_word (view s) (ucast (off AND 0x7FFE)) d
       else view t = view s \<and> v = word_at (view s) (ucast (off AND 0x7FFE)))"
    using v by (intro exI [of _ 0] exI [of _ "env s"] exI [of _ v]) simp
qed (rule assms)+

section \<open>The remote RAM behaves as a board RAM\<close>

lemma remote_reads:
  assumes sv: "serves env cb view" and idle: "\<not> has (rd64 s MBX_RAM_RSP) 1"
  shows "(\<exists>t. boardram_rb env cb True off s = Some (view s (ucast off), t) \<and> view t = view s \<and>
      rd64 t MBX_RAM_RSP = 0 \<and> rd64 t MBX_RAM_REQ = 0) \<and>
    (\<exists>t. boardram_rw env cb True off s = Some (word_at (view s) (even_addr off), t) \<and> view t = view s \<and>
      rd64 t MBX_RAM_RSP = 0 \<and> rd64 t MBX_RAM_REQ = 0)"
proof -
  let ?a = "even_addr off"
  obtain t where t: "boardram_xfer env cb True (ucast (off AND 0x7FFE)) False 0 s = Some (word_at (view s) ?a, t)"
    and rest: "view t = view s" "rd64 t MBX_RAM_RSP = 0" "rd64 t MBX_RAM_REQ = 0"
    by (rule xfer_served [OF sv idle, where off = "ucast (off AND 0x7FFE)" and w = False and d = 0]) (auto simp: even_offset)
  have "(if bit off 0 then ucast (word_at (view s) ?a AND 0xFF) else ucast (drop_bit 8 (word_at (view s) ?a))) = view s (ucast off)"
    using aligned_halves [of off] by (simp add: word_at_bytes)
  then show ?thesis
    using rest by (simp add: boardram_rb_def boardram_rw_def t)
qed

lemma remote_writes:
  assumes sv: "serves env cb view" and idle: "\<not> has (rd64 s MBX_RAM_RSP) 1"
  shows "(\<exists>t. boardram_wb env cb True off v s = Some t \<and> view t = (view s)(ucast off := v) \<and>
      rd64 t MBX_RAM_RSP = 0 \<and> rd64 t MBX_RAM_REQ = 0) \<and>
    (\<exists>t. boardram_ww env cb True off w s = Some t \<and> view t = set_word (view s) (even_addr off) w \<and>
      rd64 t MBX_RAM_RSP = 0 \<and> rd64 t MBX_RAM_REQ = 0)"
proof
  let ?a = "even_addr off" and ?o = "ucast (off AND 0x7FFE) :: u16"
  obtain t where t: "boardram_xfer env cb True ?o False 0 s = Some (word_at (view s) ?a, t)"
    and vt: "view t = view s" and idle': "rd64 t MBX_RAM_RSP = 0"
    by (rule xfer_served [OF sv idle, where off = ?o and w = False and d = 0]) (auto simp: even_offset)
  define nw where "nw = (if bit off 0 then (word_at (view s) ?a AND 0xFF00) OR ucast v
      else push_bit 8 (ucast v) OR (word_at (view s) ?a AND 0x00FF))"
  have "\<not> has (rd64 t MBX_RAM_RSP) 1" by (simp add: idle' has_def)
  then obtain u x where u: "boardram_xfer env cb True ?o True nw t = Some (x, u)"
    and vu: "view u = set_word (view s) ?a nw" and slots: "rd64 u MBX_RAM_RSP = 0" "rd64 u MBX_RAM_REQ = 0"
    by (rule xfer_served [OF sv, where off = ?o and w = True and d = nw]) (auto simp: even_offset vt)
  have "set_word (view s) ?a nw = (view s)(ucast off := v)"
    using aligned_halves [of off] by (simp add: nw_def set_word_byte)
  then show "\<exists>t. boardram_wb env cb True off v s = Some t \<and> view t = (view s)(ucast off := v) \<and>
      rd64 t MBX_RAM_RSP = 0 \<and> rd64 t MBX_RAM_REQ = 0"
    using u vu slots by (simp add: boardram_wb_def t Let_def nw_def [symmetric])
  obtain x' u' where "boardram_xfer env cb True ?o True w s = Some (x', u')"
    "view u' = set_word (view s) ?a w" "rd64 u' MBX_RAM_RSP = 0" "rd64 u' MBX_RAM_REQ = 0"
    by (rule xfer_served [OF sv idle, where off = ?o and w = True and d = w]) (auto simp: even_offset)
  then show "\<exists>t. boardram_ww env cb True off w s = Some t \<and> view t = set_word (view s) ?a w \<and>
      rd64 t MBX_RAM_RSP = 0 \<and> rd64 t MBX_RAM_REQ = 0"
    by (simp add: boardram_ww_def)
qed

text \<open>C18: with an FPGA that serves its RAM, a remote byte read returns the byte at that offset and a remote
  word read the big-endian word at the even address, as the flat window does; the RAM is unchanged
  and the mailbox is free again.\<close>

theorem boardram_remote_reads:
  assumes sv: "serves env cb view" and idle: "\<not> has (rd64 s MBX_RAM_RSP) 1"
  shows "(\<exists>t. boardram_rb env cb True off s = Some (view s (ucast off), t) \<and> view t = view s \<and>
      rd64 t MBX_RAM_RSP = 0 \<and> rd64 t MBX_RAM_REQ = 0) \<and>
    (\<exists>t. boardram_rw env cb True off s = Some (word_at (view s) (even_addr off), t) \<and> view t = view s \<and>
      rd64 t MBX_RAM_RSP = 0 \<and> rd64 t MBX_RAM_REQ = 0)"
  by (rule remote_reads [OF assms])

text \<open>C19: with an FPGA that serves its RAM, a remote byte write changes that byte and no other, although it is
  a read and a write of the whole word, and a remote word write stores the word at the even address.\<close>

theorem boardram_remote_writes:
  assumes sv: "serves env cb view" and idle: "\<not> has (rd64 s MBX_RAM_RSP) 1"
  shows "(\<exists>t. boardram_wb env cb True off v s = Some t \<and> view t = (view s)(ucast off := v) \<and>
      rd64 t MBX_RAM_RSP = 0 \<and> rd64 t MBX_RAM_REQ = 0) \<and>
    (\<exists>t. boardram_ww env cb True off w s = Some t \<and> view t = set_word (view s) (even_addr off) w \<and>
      rd64 t MBX_RAM_RSP = 0 \<and> rd64 t MBX_RAM_REQ = 0)"
  by (rule remote_writes [OF assms])

section \<open>What a transfer keeps\<close>

text \<open>A predicate that the FPGA, the register service and writes to the two slots keep is kept by every access.\<close>

locale xfer_frame =
  fixes env :: "('a window_scheme) fpga"
    and cb :: "('a window_scheme) reg_service"
    and P :: "'a window_scheme \<Rightarrow> bool"
  assumes P_env: "P s \<Longrightarrow> P (env s)"
    and P_cb: "P s \<Longrightarrow> call_service cb s = Some t \<Longrightarrow> P t"
    and P_slot: "P s \<Longrightarrow> P (wr64 s MBX_RAM_REQ v)" "P s \<Longrightarrow> P (wr64 s MBX_RAM_RSP v)"
begin

lemma poll_keeps: "P s \<Longrightarrow> xfer_poll env cb n s = Some r \<Longrightarrow> case r of Inl (_, t) \<Rightarrow> P t | Inr t \<Rightarrow> P t"
proof (induction n arbitrary: s)
  case (Suc n)
  show ?case
  proof (cases "has (rd64 (env s) MBX_RAM_RSP) 1")
    case True
    then show ?thesis using Suc.prems P_env P_slot by (auto simp: Let_def)
  next
    case False
    then obtain u where "call_service cb (env s) = Some u" "xfer_poll env cb n u = Some r"
      using Suc.prems(2) by (auto simp: Let_def bind_eq_Some_conv)
    then show ?thesis using Suc.IH Suc.prems(1) P_env P_cb by blast
  qed
qed auto

lemma attempts_keep: "P s \<Longrightarrow> xfer_attempts env cb req k s = Some r \<Longrightarrow> case r of Inl (_, t) \<Rightarrow> P t | Inr t \<Rightarrow> P t"
proof (induction k arbitrary: s)
  case (Suc k)
  then show ?case
    using poll_keeps [OF P_slot(1) [OF Suc.prems(1), of req], of 10000] by (auto split: option.splits sum.splits)
qed auto

lemma xfer_keeps: "P s \<Longrightarrow> boardram_xfer env cb mapped off w d s = Some (v, t) \<Longrightarrow> P t"
  using attempts_keep [of s "xfer_request off w d" 3] P_slot(1)
  by (auto simp: boardram_xfer_def split: if_splits option.splits sum.splits)

lemma access_keeps:
  "P s \<Longrightarrow> boardram_rb env cb mapped off s = Some (b, t) \<Longrightarrow> P t"
  "P s \<Longrightarrow> boardram_rw env cb mapped off s = Some (w, t) \<Longrightarrow> P t"
  "P s \<Longrightarrow> boardram_wb env cb mapped off b s = Some t \<Longrightarrow> P t"
  "P s \<Longrightarrow> boardram_ww env cb mapped off w s = Some t \<Longrightarrow> P t"
  by (auto simp: boardram_rb_def boardram_rw_def boardram_wb_def boardram_ww_def Let_def
      elim!: bind_eq_Some_conv [THEN iffD1, elim_format] dest: xfer_keeps)

end

lemma xfer_poll_silent:
  assumes "\<And>s. \<not> has (rd64 (env s) MBX_RAM_RSP) 1" and "\<And>s. \<exists>t. call_service cb s = Some t"
  shows "\<exists>t. xfer_poll env cb n s = Some (Inr t)"
proof (induction n arbitrary: s)
  case (Suc n)
  obtain u where "call_service cb (env s) = Some u" using assms(2) by blast
  then show ?case using Suc assms(1) by simp
qed simp

lemma xfer_attempts_silent:
  assumes "\<And>s. \<not> has (rd64 (env s) MBX_RAM_RSP) 1" and "\<And>s. \<exists>t. call_service cb s = Some t"
  shows "\<exists>t. xfer_attempts env cb req k s = Some (Inr t)"
proof (induction k arbitrary: s)
  case (Suc k)
  obtain u where "xfer_poll env cb 10000 (wr64 s MBX_RAM_REQ req) = Some (Inr u)"
    using xfer_poll_silent [of env cb] assms by blast
  then show ?case using Suc by simp
qed simp

text \<open>A transfer that the FPGA never answers comes back, with \<^verbatim>\<open>0xFFFF\<close> and the request withdrawn.\<close>

theorem boardram_xfer_timeout:
  assumes "\<And>s. \<not> has (rd64 (env s) MBX_RAM_RSP) 1" and "\<And>s. \<exists>t. call_service cb s = Some t"
  shows "\<exists>t. boardram_xfer env cb True off write wdata s = Some (0xFFFF, t) \<and> rd64 t MBX_RAM_REQ = 0"
proof -
  obtain u where "xfer_attempts env cb (xfer_request off write wdata) 3 s = Some (Inr u)"
    using xfer_attempts_silent [of env cb] assms by blast
  then show ?thesis by (simp add: boardram_xfer_def)
qed

text \<open>Answers are not matched with requests: an answer that arrived after its transfer had timed out stays
  in the slot and is taken, whatever it is, as the answer of the next transfer.\<close>

theorem boardram_xfer_stale:
  assumes stale: "rd64 s MBX_RAM_RSP = 1 OR push_bit 1 (ucast old)"
    and quiet: "\<And>req. env (wr64 s MBX_RAM_REQ req) = wr64 s MBX_RAM_REQ req"
  shows "boardram_xfer env cb True off write wdata s = Some (old, slots_clear s)"
proof -
  let ?s = "wr64 s MBX_RAM_REQ (xfer_request off write wdata)"
  have "has (rd64 (env ?s) MBX_RAM_RSP) 1"
    unfolding quiet has_def using stale by (simp add: bit_eq_iff bit_simps del: push_bit_Suc) (auto intro: exI [of _ 0])
  then have "answer_after env cb 0 ?s = Some ?s" by (simp add: quiet)
  then have "boardram_xfer env cb True off write wdata s = Some (ucast (drop_bit 1 (rd64 ?s MBX_RAM_RSP)), slots_clear ?s)"
    by (rule boardram_xfer_answer) simp
  also have "slots_clear ?s = slots_clear s"
    by (simp add: wr64_def fun_upd_twist)
  finally show ?thesis by (simp only: rd64_wr64_apart slots_ram_apart stale answer_word)
qed

section \<open>A concrete FPGA\<close>

text \<open>An FPGA that answers at the first poll, with the RAM it holds.\<close>

record fpga_window = window +
  fpga_ram :: "ram_addr \<Rightarrow> u8"

definition fpga_answer :: "u64 \<Rightarrow> fpga_window \<Rightarrow> fpga_window" where
  "fpga_answer req s =
    (let a = ucast (drop_bit 2 req AND 0x7FFE) :: ram_addr
     in if bit req 1
        then wr64 (s\<lparr>fpga_ram := set_word (fpga_ram s) a (ucast (drop_bit 17 req))\<rparr>) MBX_RAM_RSP 1
        else wr64 s MBX_RAM_RSP (1 OR push_bit 1 (ucast (word_at (fpga_ram s) a))))"

definition fpga_now :: "fpga_window \<Rightarrow> fpga_window" where
  "fpga_now s =
    (let req = rd64 s MBX_RAM_REQ
     in if has req 1 \<and> \<not> has (rd64 s MBX_RAM_RSP) 1 then fpga_answer req s else s)"

lemma bit_xfer_request:
  "bit (xfer_request off w d) n \<longleftrightarrow>
     n = 0 \<or> (n = 1 \<and> w) \<or> (3 \<le> n \<and> n < 17 \<and> bit off (n - 2)) \<or> (17 \<le> n \<and> n < 33 \<and> bit d (n - 17))"
  by (auto simp: xfer_request_def bit_simps bit_1_iff bit_7FFE simp del: push_bit_Suc dest: bit_imp_le_length)

lemma xfer_request_fields:
  "has (xfer_request off w d) 1" "bit (xfer_request off w d) 1 = w"
  "(ucast (drop_bit 2 (xfer_request off w d) AND 0x7FFE) :: ram_addr) = ucast (off AND 0x7FFE)"
  "(ucast (drop_bit 17 (xfer_request off w d)) :: u16) = d"
proof -
  let ?r = "xfer_request off w d"
  have "bit (?r AND 1) 0" by (simp add: bit_simps bit_xfer_request)
  then show "has ?r 1" by (auto simp: has_def)
  show "bit ?r 1 = w" by (simp add: bit_xfer_request)
  show "(ucast (drop_bit 2 ?r AND 0x7FFE) :: ram_addr) = ucast (off AND 0x7FFE)"
    by (rule bit_word_eqI) (auto simp: bit_simps bit_xfer_request bit_7FFE)
  show "(ucast (drop_bit 17 ?r) :: u16) = d"
    by (rule bit_word_eqI) (auto simp: bit_simps bit_xfer_request)
qed

lemma fpga_ram_wr64 [simp]: "fpga_ram (wr64 s off v) = fpga_ram s"
  by (simp add: wr64_def)

lemma rd64_fpga_ram [simp]: "rd64 (s\<lparr>fpga_ram := f\<rparr>) off = rd64 s off"
  by (simp add: rd64_def)

lemma fpga_now_serves: "serves fpga_now None fpga_ram"
proof (rule serves_at_once)
  fix s :: fpga_window and off d :: u16 and w
  assume "\<not> has (rd64 s MBX_RAM_RSP) 1" and "rd64 s MBX_RAM_REQ = xfer_request off w d"
  then have now: "fpga_now s = fpga_answer (xfer_request off w d) s"
    by (simp add: fpga_now_def xfer_request_fields)
  show "\<exists>v. rd64 (fpga_now s) MBX_RAM_RSP = 1 OR push_bit 1 (ucast (v :: u16)) \<and>
      (if w then fpga_ram (fpga_now s) = set_word (fpga_ram s) (ucast (off AND 0x7FFE)) d
       else fpga_ram (fpga_now s) = fpga_ram s \<and> v = word_at (fpga_ram s) (ucast (off AND 0x7FFE)))"
    unfolding now fpga_answer_def Let_def xfer_request_fields
    by (intro exI [of _ "if w then 0 else word_at (fpga_ram s) (ucast (off AND 0x7FFE))"]) simp
qed simp_all

definition fpga_reset :: fpga_window where
  "fpga_reset = \<lparr>map_w = \<lambda>_. 0, boardram = 0, fpga_ram = \<lambda>_. 0x5A\<rparr>"

lemma fpga_reset_idle: "rd64 fpga_reset off = 0"
  by (simp add: fpga_reset_def rd64_def)

theorem boardram_remote_reads_witness: "\<exists>t. boardram_rb fpga_now None True 3 fpga_reset = Some (0x5A, t)"
proof -
  have "\<not> has (rd64 fpga_reset MBX_RAM_RSP) 1" by (simp add: fpga_reset_idle has_def)
  from boardram_remote_reads [OF fpga_now_serves this, of 3] show ?thesis by (auto simp: fpga_reset_def)
qed

theorem boardram_remote_writes_witness: "\<exists>t. boardram_wb fpga_now None True 3 0x77 fpga_reset = Some t \<and> fpga_ram t 3 = 0x77"
proof -
  have "\<not> has (rd64 fpga_reset MBX_RAM_RSP) 1" by (simp add: fpga_reset_idle has_def)
  from boardram_remote_writes [OF fpga_now_serves this, of 3 "0x77" 0] show ?thesis by auto
qed

theorem boardram_xfer_timeout_witness:
  "\<exists>t. boardram_xfer (\<lambda>s. wr64 s MBX_RAM_RSP 0) None True 0x10 False 0 fpga_reset = Some (0xFFFF, t)"
  using boardram_xfer_timeout [of "\<lambda>s. wr64 s MBX_RAM_RSP 0" None "0x10" False 0 fpga_reset]
  by (auto simp: has_def call_service_def)

theorem boardram_xfer_stale_witness:
  "\<exists>t. boardram_xfer fpga_now None True 0x10 False 0 (wr64 fpga_reset MBX_RAM_RSP (1 OR push_bit 1 (ucast (0x1234 :: u16)))) = Some (0x1234, t)"
proof -
  let ?s = "wr64 fpga_reset MBX_RAM_RSP (1 OR push_bit 1 (ucast (0x1234 :: u16)))"
  have "fpga_now (wr64 ?s MBX_RAM_REQ req) = wr64 ?s MBX_RAM_REQ req" for req
    by (simp add: fpga_now_def has_def)
  then show ?thesis
    using boardram_xfer_stale [of ?s "0x1234" fpga_now None "0x10" False 0] by (metis rd64_wr64_same)
qed

end
