(* ===== verification/Chip_Ops.thy ===== *)
theory Chip_Ops
  imports Tx_Gather
begin

text \<open>
  \<^verbatim>\<open>registers.cpp\<close> and \<^verbatim>\<open>rings.cpp\<close> once more, as they are compiled with \<^verbatim>\<open>BOARDRAM_REMOTE\<close>: every access to the board
  RAM is a call that may change the state (the mailbox, and the registers a nested service touches)
  and that reads the window in the order of the source. The four accesses are a record \<open>ram_ops\<close>.

  The theory \<open>Chip_Sim\<close> proves that with accesses that behave like the flat ones this is the same chip.
  The suffix \<open>_r\<close> marks the definitions that differ from those of \<open>Registers\<close> and \<open>Desc_Rings\<close>.
\<close>

section \<open>Accesses\<close>

record 's ram_ops =
  op_rb :: "u32 \<Rightarrow> 's \<Rightarrow> (u8 \<times> 's) option"
  op_rw :: "u32 \<Rightarrow> 's \<Rightarrow> (u16 \<times> 's) option"
  op_wb :: "u32 \<Rightarrow> u8 \<Rightarrow> 's \<Rightarrow> 's option"
  op_ww :: "u32 \<Rightarrow> u16 \<Rightarrow> 's \<Rightarrow> 's option"

primrec ram_read_block_r :: "'s ram_ops \<Rightarrow> u32 \<Rightarrow> nat \<Rightarrow> 's \<Rightarrow> (u8 list \<times> 's) option" where
  "ram_read_block_r ops off 0 s = Some ([], s)"
| "ram_read_block_r ops off (Suc n) s = do {
     (b, s) \<leftarrow> op_rb ops off s;
     (bs, s) \<leftarrow> ram_read_block_r ops (off + 1) n s;
     Some (b # bs, s)
   }"

primrec ram_write_block_r :: "'s ram_ops \<Rightarrow> u32 \<Rightarrow> u8 list \<Rightarrow> 's \<Rightarrow> 's option" where
  "ram_write_block_r ops off [] s = Some s"
| "ram_write_block_r ops off (b # bs) s = do {
     s \<leftarrow> op_wb ops off b s;
     ram_write_block_r ops (off + 1) bs s
   }"

section \<open>Registers\<close>

definition chip_init_r :: "('a a2065_scheme) ram_ops \<Rightarrow> 'a a2065_scheme \<Rightarrow> ('a a2065_scheme) option" where
  "chip_init_r ops s = do {
     let s = rings_reset_loopback_count s;
     let iaddr = (push_bit 16 (ucast (csr s 2 AND 0xff)) OR ucast (csr s 1) :: u32);
     let off = iaddr AND RAM_MASK;
     (w, s) \<leftarrow> op_rw ops (off + 0) s;
     let s = s\<lparr>am_mode := w\<rparr>;
     (w3, s) \<leftarrow> op_rw ops (off + 14) s;
     (w2, s) \<leftarrow> op_rw ops (off + 12) s;
     (w1, s) \<leftarrow> op_rw ops (off + 10) s;
     (w0, s) \<leftarrow> op_rw ops (off + 8) s;
     let s = s\<lparr>am_ladrf := push_bit 48 (ucast w3) OR push_bit 32 (ucast w2) OR push_bit 16 (ucast w1) OR ucast w0\<rparr>;
     (rh, s) \<leftarrow> op_rw ops (off + 18) s;
     (rl, s) \<leftarrow> op_rw ops (off + 16) s;
     let rdr = (push_bit 16 (ucast rh) OR ucast rl :: u32);
     (th, s) \<leftarrow> op_rw ops (off + 22) s;
     (tl, s) \<leftarrow> op_rw ops (off + 20) s;
     let tdr = (push_bit 16 (ucast th) OR ucast tl :: u32);
     let s = s\<lparr>am_rdr_rlen := push_bit (unat (drop_bit 29 rdr AND 7)) 1, am_tdr_tlen := push_bit (unat (drop_bit 29 tdr AND 7)) 1,
               am_rdr_rdra := rdr AND 0x00fffff8, am_tdr_tdra := tdr AND 0x00fffff8\<rparr>;
     (f0, s) \<leftarrow> op_rb ops (off + 3) s;
     (f1, s) \<leftarrow> op_rb ops (off + 2) s;
     (f2, s) \<leftarrow> op_rb ops (off + 5) s;
     (f3, s) \<leftarrow> op_rb ops (off + 4) s;
     (f4, s) \<leftarrow> op_rb ops (off + 7) s;
     (f5, s) \<leftarrow> op_rb ops (off + 6) s;
     let fm = [f0, f1, f2, f3, f4, f5];
     let s = s\<lparr>fakemac := fm, mac := mac_set_fakemac fm (mac s)\<rparr>;
     Some (chip_init_mask s)
   }"

definition csr0_transition_r :: "('a a2065_scheme) ram_ops \<Rightarrow> u16 \<Rightarrow> 'a a2065_scheme \<Rightarrow> ('a a2065_scheme) option" where
  "csr0_transition_r ops oreg s =
    (if has (csr s 0) CSR0_STOP \<and> \<not> has oreg CSR0_STOP then
       Some (set_csr 3 0 (set_csr 0 CSR0_STOP s))
     else if has (csr s 0) CSR0_STRT \<and> \<not> has oreg CSR0_STRT \<and> has oreg (CSR0_STOP OR CSR0_INIT) then
       (let s = rings_enable (registers_csr0_clr CSR0_STOP s)
        in if has (csr s 0) CSR0_INIT \<and> \<not> has oreg CSR0_INIT
           then do { s \<leftarrow> chip_init_r ops s; Some ((registers_csr0_set CSR0_IDON s)\<lparr>am_initialized := True\<rparr>) }
           else Some s)
     else if has (csr s 0) CSR0_INIT \<and> \<not> has oreg CSR0_INIT \<and> has oreg CSR0_STOP then do {
       s \<leftarrow> chip_init_r ops s;
       Some (set_csr 3 0
         ((registers_csr0_clr (CSR0_RXON OR CSR0_TXON OR CSR0_STOP) (registers_csr0_set CSR0_IDON s))\<lparr>am_initialized := True\<rparr>))
     }
     else Some s)"

definition csr0_write_r ::
  "('a a2065_scheme) ram_ops \<Rightarrow> ('a a2065_scheme) int_cb \<Rightarrow> ('a a2065_scheme) tx_cb \<Rightarrow> u16 \<Rightarrow> 'a a2065_scheme \<Rightarrow>
   ('a a2065_scheme) option" where
  "csr0_write_r ops on_interrupt on_transmit v s = do {
     let oreg = csr s 0;
     let s = set_csr 0 (csr0_merge oreg v) s;
     s \<leftarrow> csr0_transition_r ops oreg s;
     s \<leftarrow> csr0_demand on_transmit s;
     Some (rethink on_interrupt s)
   }"

definition chip_wput_r ::
  "('a a2065_scheme) ram_ops \<Rightarrow> ('a a2065_scheme) int_cb \<Rightarrow> ('a a2065_scheme) tx_cb \<Rightarrow> u8 \<Rightarrow> u16 \<Rightarrow> 'a a2065_scheme \<Rightarrow>
   ('a a2065_scheme) option" where
  "chip_wput_r ops on_interrupt on_transmit reg_offset v s =
    (if reg_offset \<noteq> A2065_RAP_OFF \<and> \<not> RAP_SIZE \<le> rap s \<and> rap s = 0 then csr0_write_r ops on_interrupt on_transmit v s
     else chip_wput on_interrupt on_transmit reg_offset v s)"

section \<open>Receive\<close>

definition rx_desc_r ::
  "('a a2065_scheme) ram_ops \<Rightarrow> ('a a2065_scheme) int_cb \<Rightarrow> u32 \<Rightarrow> u32 \<Rightarrow> u8 list \<Rightarrow> nat \<Rightarrow> nat \<Rightarrow> bool \<Rightarrow> 'a a2065_scheme \<Rightarrow>
   (bool \<times> 'a a2065_scheme + nat \<times> 'a a2065_scheme) option" where
  "rx_desc_r ops on_int rdra rlen d len insize first s = do {
     let s = s\<lparr>rdr_offset := rdr_offset s mod unat rlen\<rparr>;
     let off = rdra + of_nat (rdr_offset s) * 8;
     (rmd0, s) \<leftarrow> op_rw ops (off + 0) s;
     (rmd1, s) \<leftarrow> op_rw ops (off + 2) s;
     (rmd2, s) \<leftarrow> op_rw ops (off + 4) s;
     (rmd3, s) \<leftarrow> op_rw ops (off + 6) s;
     let addr = desc_addr rmd0 rmd1;
     if \<not> has rmd1 RX_OWN then do {
       let (rmd1, s) = (if \<not> first
             then (rmd1 OR (RX_BUFF OR RX_OFLO), registers_csr0_clr CSR0_RXON s)
             else (rmd1, registers_csr0_set CSR0_MISS s));
       s \<leftarrow> op_ww ops (off + 2) rmd1 s;
       Some (Inl (False, rethink on_int s))
     } else do {
       let rmd1 = rmd1 AND NOT RX_OWN;
       let s = s\<lparr>rdr_offset := rdr_offset s + 1\<rparr>;
       let rmd1 = (if first then rmd1 OR RX_STP else rmd1);
       let size = desc_size rmd2;
       bytes \<leftarrow> rdn d insize size;
       s \<leftarrow> ram_write_block_r ops addr bytes s;
       let insize = insize + size;
       let (rmd1, rmd3) = (if len \<le> insize then (rmd1 OR RX_ENP, of_nat len) else (rmd1, rmd3));
       s \<leftarrow> op_ww ops (off + 2) rmd1 s;
       s \<leftarrow> op_ww ops (off + 6) rmd3 s;
       Some (if len \<le> insize then Inl (True, s) else Inr (insize, s))
     }
   }"

lemma rx_desc_r_progress:
  "rx_desc_r ops oi rdra rlen d len insize first s = Some (Inr (insize', t)) \<Longrightarrow> insize < insize' \<and> insize' < len"
  by (auto simp: rx_desc_r_def Let_def split: if_splits prod.splits bind_splits)

function rx_loop_r ::
  "('a a2065_scheme) ram_ops \<Rightarrow> ('a a2065_scheme) int_cb \<Rightarrow> u32 \<Rightarrow> u32 \<Rightarrow> u8 list \<Rightarrow> nat \<Rightarrow> nat \<Rightarrow> bool \<Rightarrow> 'a a2065_scheme \<Rightarrow>
   (bool \<times> 'a a2065_scheme) option" where
  "rx_loop_r ops on_int rdra rlen d len insize first s =
     (case rx_desc_r ops on_int rdra rlen d len insize first s of
        None \<Rightarrow> None
      | Some (Inl r) \<Rightarrow> Some r
      | Some (Inr (insize', s')) \<Rightarrow> rx_loop_r ops on_int rdra rlen d len insize' False s')"
  by pat_completeness auto
termination
  by (relation "measure (\<lambda>(ops, oi, rdra, rlen, d, len, insize, first, s). len - insize)")
    (auto dest!: rx_desc_r_progress)

declare rx_loop_r.simps [simp del]

definition rx_deliver_r ::
  "('a a2065_scheme) ram_ops \<Rightarrow> ('a a2065_scheme) int_cb \<Rightarrow> u32 \<Rightarrow> u8 list \<Rightarrow> nat \<Rightarrow> 'a a2065_scheme \<Rightarrow> ('a a2065_scheme) option" where
  "rx_deliver_r ops on_int rdr_rlen d len s = do {
     (d, s) \<leftarrow> rx_append_fcs d len s;
     (delivered, s) \<leftarrow> rx_loop_r ops on_int (am_rdr_rdra s) rdr_rlen d (len + 4) 0 True s;
     Some (if \<not> delivered then s else rx_finish on_int s)
   }"

definition gotfunc_r ::
  "('a a2065_scheme) ram_ops \<Rightarrow> ('a a2065_scheme) int_cb \<Rightarrow> u8 list \<Rightarrow> u8 list \<Rightarrow> nat \<Rightarrow> 'a a2065_scheme \<Rightarrow> ('a a2065_scheme) option" where
  "gotfunc_r ops on_int tmp0 databuf len s =
    (if \<not> has (registers_csr0 s) CSR0_RXON then Some s
     else if len < 20 then Some s
     else if am_rdr_rlen s = 0 \<or> am_rdr_rlen s > 512 then Some s
     else if am_rdr_rdra s + (am_rdr_rlen s - 1) * 8 > RAM_MASK then Some s
     else do {
       let rdr_rlen = am_rdr_rlen s;
       let fakemac_buf = fakemac s;
       src \<leftarrow> rdn databuf 0 len;
       d \<leftarrow> wrn tmp0 0 src;
       d \<leftarrow> (if \<not> has (am_mode s) MODE_LOOP then map_option fst (mungepacket (mac s) d len) else Some d);
       let (pass, s) = rx_filter fakemac_buf d s;
       if \<not> pass then Some s else rx_deliver_r ops on_int rdr_rlen d len s
     })"

section \<open>Transmit\<close>

definition tx_desc_r ::
  "('a a2065_scheme) ram_ops \<Rightarrow> u32 \<Rightarrow> u32 \<Rightarrow> nat \<Rightarrow> 'a a2065_scheme \<Rightarrow>
   (tx_locals \<times> 'a a2065_scheme + nat \<times> 'a a2065_scheme) option" where
  "tx_desc_r ops tdra tlen outsize s = do {
     let s = s\<lparr>tdr_offset := tdr_offset s mod unat tlen\<rparr>;
     let off = tdra + of_nat (tdr_offset s) * 8;
     (tmd0, s) \<leftarrow> op_rw ops (off + 0) s;
     (tmd1, s) \<leftarrow> op_rw ops (off + 2) s;
     (tmd2, s) \<leftarrow> op_rw ops (off + 4) s;
     (tmd3, s) \<leftarrow> op_rw ops (off + 6) s;
     let addr = desc_addr tmd0 tmd1;
     if \<not> has tmd1 TX_OWN then do {
       let tmd3 = tmd3 OR (TX_BUFF OR TX_UFLO);
       let tmd1 = tmd1 OR TX_ERR;
       let s = registers_csr0_clr CSR0_TXON s;
       s \<leftarrow> op_ww ops (off + 2) tmd1 s;
       s \<leftarrow> op_ww ops (off + 6) tmd3 s;
       Some (Inl (\<lparr>tx_err = True, tx_off = off, tx_tmd1 = tmd1, tx_tmd3 = tmd3, tx_outsize = outsize\<rparr>, s))
     } else do {
       let tmd1 = tmd1 AND NOT TX_OWN;
       let size = tx_size tmd2;
       if outsize + size > MAX_PACKET_SIZE then do {
         s \<leftarrow> op_ww ops (off + 2) tmd1 s;
         s \<leftarrow> op_ww ops (off + 6) tmd3 s;
         Some (Inl (\<lparr>tx_err = False, tx_off = off, tx_tmd1 = tmd1, tx_tmd3 = tmd3, tx_outsize = outsize\<rparr>, s))
       } else do {
         (bytes, s) \<leftarrow> ram_read_block_r ops addr size s;
         buf \<leftarrow> wrn (transmitbuffer s) outsize bytes;
         let outsize = outsize + size;
         (buf, outsize) \<leftarrow> (if has tmd1 TX_ENP \<and> outsize < 60 \<and> \<not> has (am_mode s) MODE_LOOP
                            then tx_pad buf outsize else Some (buf, outsize));
         let s = s\<lparr>transmitbuffer := buf, tdr_offset := tdr_offset s + 1\<rparr>;
         if has tmd1 TX_ENP then
           Some (Inl (\<lparr>tx_err = False, tx_off = off, tx_tmd1 = tmd1, tx_tmd3 = tmd3, tx_outsize = outsize\<rparr>, s))
         else do {
           s \<leftarrow> op_ww ops (off + 2) tmd1 s;
           s \<leftarrow> op_ww ops (off + 6) tmd3 s;
           Some (Inr (outsize, s))
         }
       }
     }
   }"

lemma tx_desc_r_progress:
  "tx_desc_r ops tdra tlen outsize s = Some (Inr (outsize', t)) \<Longrightarrow> outsize < outsize' \<and> outsize' \<le> MAX_PACKET_SIZE"
  by (auto simp: tx_desc_r_def Let_def split: if_splits bind_splits)

function tx_loop_r ::
  "('a a2065_scheme) ram_ops \<Rightarrow> u32 \<Rightarrow> u32 \<Rightarrow> nat \<Rightarrow> 'a a2065_scheme \<Rightarrow> (tx_locals \<times> 'a a2065_scheme) option" where
  "tx_loop_r ops tdra tlen outsize s =
     (case tx_desc_r ops tdra tlen outsize s of
        None \<Rightarrow> None
      | Some (Inl r) \<Rightarrow> Some r
      | Some (Inr (outsize', s')) \<Rightarrow> tx_loop_r ops tdra tlen outsize' s')"
  by pat_completeness auto
termination
  by (relation "measure (\<lambda>(ops, tdra, tlen, outsize, s). MAX_PACKET_SIZE - outsize)")
    (auto dest!: tx_desc_r_progress)

declare tx_loop_r.simps [simp del]

function tx_scan_r ::
  "('a a2065_scheme) ram_ops \<Rightarrow> u32 \<Rightarrow> nat \<Rightarrow> nat \<Rightarrow> nat \<Rightarrow> u16 \<Rightarrow> 'a a2065_scheme \<Rightarrow> (u16 \<times> 'a a2065_scheme) option" where
  "tx_scan_r ops tdra tlen start i tmd1 s =
    (if i < tlen then
       (let s = s\<lparr>tdr_offset := (start + i) mod tlen\<rparr>;
            off = tdra + of_nat (tdr_offset s) * 8
        in case op_rw ops (off + 2) s of
             None \<Rightarrow> None
           | Some (tmd1, s) \<Rightarrow>
               if has tmd1 TX_OWN \<and> has tmd1 TX_STP then Some (tmd1, s)
               else tx_scan_r ops tdra tlen start (i + 1) tmd1 s)
     else Some (tmd1, s))"
  by pat_completeness auto
termination
  by (relation "measure (\<lambda>(ops, tdra, tlen, start, i, tmd1, s). tlen - i)") auto

declare tx_scan_r.simps [simp del]

definition tx_find_r ::
  "('a a2065_scheme) ram_ops \<Rightarrow> u32 \<Rightarrow> u32 \<Rightarrow> 'a a2065_scheme \<Rightarrow> (u16 option \<times> 'a a2065_scheme) option" where
  "tx_find_r ops tdra tlen s = do {
     let s = s\<lparr>tdr_offset := tdr_offset s mod unat tlen\<rparr>;
     let off = tdra + of_nat (tdr_offset s) * 8;
     (tmd1, s) \<leftarrow> op_rw ops (off + 2) s;
     if \<not> has tmd1 TX_OWN \<or> \<not> has tmd1 TX_STP then do {
       let start = tdr_offset s;
       (tmd1, s) \<leftarrow> tx_scan_r ops tdra (unat tlen) start 0 tmd1 s;
       Some (if \<not> has tmd1 TX_OWN \<or> \<not> has tmd1 TX_STP then (None, s\<lparr>tdr_offset := start\<rparr>) else (Some tmd1, s))
     } else Some (Some tmd1, s)
   }"

definition put_status_r ::
  "('a a2065_scheme) ram_ops \<Rightarrow> u32 \<Rightarrow> u16 \<Rightarrow> u16 \<Rightarrow> 'a a2065_scheme \<Rightarrow> ('a a2065_scheme) option" where
  "put_status_r ops off tmd1 tmd3 s = do {
     s \<leftarrow> op_ww ops (off + 2) tmd1 s;
     op_ww ops (off + 6) tmd3 s
   }"

definition tx_dispatch_r ::
  "('a a2065_scheme) ram_ops \<Rightarrow> ('a a2065_scheme) int_cb \<Rightarrow> u8 list \<Rightarrow> bool \<Rightarrow> tx_locals \<Rightarrow> 'a a2065_scheme \<Rightarrow> ('a a2065_scheme) option" where
  "tx_dispatch_r ops on_int tmp0 add_fcs l s =
    (let off = tx_off l; tmd1 = tx_tmd1 l; tmd3 = tx_tmd3 l; outsize = tx_outsize l; mode = am_mode s
     in if has mode MODE_LOOP then
          if has mode MODE_COLL then put_status_r ops off (tmd1 OR TX_ERR) (tmd3 OR TX_RTRY) s
          else do {
            s \<leftarrow> put_status_r ops off tmd1 tmd3 s;
            gotfunc_r ops on_int tmp0 (transmitbuffer s) outsize s
          }
        else do {
          coll \<leftarrow> (if \<not> has mode MODE_COLL \<and> 6 \<le> outsize
                   then do { dst \<leftarrow> rdn (transmitbuffer s) 0 6; Some (dst = fakemac s) }
                   else Some (has mode MODE_COLL));
          if coll then put_status_r ops off (tmd1 OR TX_ERR) (tmd3 OR TX_RTRY) s
          else do {
            s \<leftarrow> put_status_r ops off tmd1 tmd3 s;
            let outsize = (if has mode MODE_DTCR \<and> \<not> add_fcs then outsize - 4 else outsize);
            let s = s\<lparr>transmitlen := outsize\<rparr>;
            (buf, _) \<leftarrow> mungepacket (mac s) (transmitbuffer s) (transmitlen s);
            let s = s\<lparr>transmitbuffer := buf\<rparr>;
            ethernet_send (transmitbuffer s) (transmitlen s) s
          }
        })"

definition do_transmit_r ::
  "('a a2065_scheme) ram_ops \<Rightarrow> ('a a2065_scheme) int_cb \<Rightarrow> u8 list \<Rightarrow> 'a a2065_scheme \<Rightarrow> (nat \<times> 'a a2065_scheme) option" where
  "do_transmit_r ops on_int tmp0 s =
    (if \<not> has (registers_csr0 s) CSR0_TXON then Some (0, s)
     else
      (let tdra = am_tdr_tdra s; tlen = am_tdr_tlen s
       in if tlen = 0 \<or> tlen > 512 then Some (0, s)
          else if tdra + (tlen - 1) * 8 > RAM_MASK then Some (0, s)
          else do {
            (found, s) \<leftarrow> tx_find_r ops tdra tlen s;
            case found of
              None \<Rightarrow> Some (0, s)
            | Some tmd1 \<Rightarrow> do {
                let add_fcs = has tmd1 TX_ADD_FCS;
                (l, s) \<leftarrow> tx_loop_r ops tdra tlen 0 s;
                if tx_err l then
                  Some (1, rethink on_int (registers_csr0_set CSR0_TINT s))
                else if tx_outsize l < 60 \<and> \<not> has (am_mode s) MODE_LOOP then do {
                  let tmd3 = tx_tmd3 l OR (TX_BUFF OR TX_UFLO);
                  let tmd1 = tx_tmd1 l OR TX_ERR;
                  let s = registers_csr0_clr CSR0_TXON s;
                  s \<leftarrow> op_ww ops (tx_off l + 6) tmd3 s;
                  s \<leftarrow> op_ww ops (tx_off l + 2) tmd1 s;
                  Some (1, rethink on_int (registers_csr0_set CSR0_TINT s))
                } else do {
                  s \<leftarrow> tx_dispatch_r ops on_int tmp0 add_fcs l s;
                  Some (1, rethink on_int (registers_csr0_set CSR0_TINT s))
                }
              }
          }))"

end
