(* ===== verification/Chip_Sim.thy ===== *)
theory Chip_Sim
  imports Chip_Ops
begin

text \<open>
  The two builds of the chip are the same chip. The locale \<open>ram_sim\<close> says when the accesses \<open>ops\<close> of one build
  behave like the flat window of the other: a relation \<open>R\<close> between the two states that every access and
  every assignment to a chip variable keeps. Then every register write and every ring operation of
  \<open>Chip_Ops\<close> does, state by state, what the one of \<open>Registers\<close> and \<open>Desc_Rings\<close> does, failures included.
  The register address is not part of the relation: a nested register service may change it. A write of
  the address itself therefore has a premise of its own in \<open>chip_wput_sim\<close>.
\<close>

section \<open>The ring addresses while a frame is gathered\<close>

lemma put_ram_word_rdra [simp]: "am_rdr_rdra (put_ram_word s off v) = am_rdr_rdra s"
  by (simp add: put_ram_word_def put_ram_byte_def)

lemma tx_desc_addr:
  assumes "tx_desc tdra tlen outsize s = Some r" and "even tdra"
  shows "case r of Inl (l, t) \<Rightarrow> even (tx_off l) \<and> am_rdr_rdra t = am_rdr_rdra s | Inr (_, t) \<Rightarrow> am_rdr_rdra t = am_rdr_rdra s"
  using assms unfolding tx_desc_def Let_def by (auto split: if_splits bind_splits simp: registers_csr0_clr_def set_csr_def)

lemma tx_loop_addr:
  "tx_loop tdra tlen outsize s = Some (l, t) \<Longrightarrow> even tdra \<Longrightarrow> even (tx_off l) \<and> am_rdr_rdra t = am_rdr_rdra s"
proof (induction tdra tlen outsize s rule: tx_loop.induct)
  case (1 tdra tlen outsize s)
  obtain r where r: "tx_desc tdra tlen outsize s = Some r"
    using "1.prems"(1) by (subst (asm) tx_loop.simps) (auto split: option.splits)
  show ?case
  proof (cases r)
    case (Inl q)
    then show ?thesis using tx_desc_addr [OF r "1.prems"(2)] r "1.prems"(1) by (simp add: tx_loop.simps)
  next
    case (Inr q)
    obtain n' s' where q: "q = (n', s')" by (cases q)
    have "tx_loop tdra tlen n' s' = Some (l, t)"
      using "1.prems"(1) r by (subst (asm) tx_loop.simps) (simp add: Inr q)
    then show ?thesis
      using "1.IH" [OF r Inr q [symmetric]] tx_desc_addr [OF r "1.prems"(2)] "1.prems"(2) by (simp add: Inr q)
  qed
qed

lemma tx_find_rdra: "am_rdr_rdra (snd (tx_find tdra tlen s)) = am_rdr_rdra s"
proof -
  have "am_rdr_rdra (snd (tx_scan tdra n start i w u)) = am_rdr_rdra u" for n start i w and u :: "'a a2065_scheme"
    by (simp add: tx_scan_eq split: option.splits)
  then show ?thesis by (simp add: tx_find_def Let_def case_prod_beta)
qed

lemma ram_config:
  "get_ram_word (s\<lparr>am_mode := m\<rparr>) off = get_ram_word s off" "get_ram_word (s\<lparr>am_ladrf := l\<rparr>) off = get_ram_word s off"
  "get_ram_byte (s\<lparr>am_mode := m\<rparr>) off = get_ram_byte s off" "get_ram_byte (s\<lparr>am_ladrf := l\<rparr>) off = get_ram_byte s off"
  "get_ram_byte (s\<lparr>am_rdr_rlen := n\<rparr>) off = get_ram_byte s off" "get_ram_byte (s\<lparr>am_tdr_tlen := n\<rparr>) off = get_ram_byte s off"
  "get_ram_byte (s\<lparr>am_rdr_rdra := n\<rparr>) off = get_ram_byte s off" "get_ram_byte (s\<lparr>am_tdr_tdra := n\<rparr>) off = get_ram_byte s off"
  by (simp_all add: get_ram_word_def get_ram_byte_def)

text \<open>The ring bases are word addresses. The init block always gives such bases; only a driver that writes an
  odd base through CSR24 or CSR30 leaves this case.\<close>

definition even_rings :: "'a a2065_scheme \<Rightarrow> bool" where
  "even_rings s \<longleftrightarrow> even (am_rdr_rdra s) \<and> even (am_tdr_tdra s)"

lemma even_and_RAM_MASK: "even (w AND RAM_MASK) \<longleftrightarrow> even w" for w :: u32
  unfolding RAM_MASK_mask by (simp add: even_and_iff even_mask_iff)

lemma even_iaddr: "even c1 \<Longrightarrow> even ((push_bit 16 (ucast c2) OR ucast c1 :: u32) AND RAM_MASK)" for c1 c2 :: u16
proof -
  assume "even c1"
  then have "\<not> bit c1 0" by (simp add: bit_0)
  then have "\<not> bit (ucast c1 :: u32) 0" by (simp add: bit_unsigned_iff)
  then have "even (ucast c1 :: u32)" by (simp only: bit_0 not_not)
  then show ?thesis by (simp add: even_and_RAM_MASK even_or_iff even_push_bit_iff)
qed

lemma even_ring_base: "even ((w AND 0x00fffff8) AND RAM_MASK)" for w :: u32
  by (simp add: even_and_RAM_MASK even_and_iff)

lemma chip_init_even: "even_rings (chip_init s)"
  by (simp add: even_rings_def chip_init_def chip_init_mask_def Let_def even_ring_base)

lemma even_rings_simps [simp]:
  "even_rings (set_csr k v s) = even_rings s" "even_rings (registers_csr0_set v s) = even_rings s"
  "even_rings (registers_csr0_clr v s) = even_rings s" "even_rings (rings_enable s) = even_rings s"
  "even_rings (s\<lparr>am_initialized := b\<rparr>) = even_rings s"
  by (simp_all add: even_rings_def rings_enable_def Let_def registers_csr0_set_def registers_csr0_clr_def set_csr_def)

lemma csr0_transition_even: "even_rings s \<Longrightarrow> even_rings (csr0_transition oreg s)"
  by (simp add: csr0_transition_def Let_def chip_init_even)

locale ram_sim =
  fixes ops :: "('a a2065_scheme) ram_ops"
    and on_int :: "('a a2065_scheme) int_cb"
    and on_int' :: "('b a2065_scheme) int_cb"
    and R :: "'a a2065_scheme \<Rightarrow> 'b a2065_scheme \<Rightarrow> bool"
  assumes rb: "R s t \<Longrightarrow> \<exists>s'. op_rb ops off s = Some (get_ram_byte t off, s') \<and> R s' t"
    and rw: "R s t \<Longrightarrow> even off \<Longrightarrow> \<exists>s'. op_rw ops off s = Some (get_ram_word t off, s') \<and> R s' t"
    and wb: "R s t \<Longrightarrow> \<exists>s'. op_wb ops off b s = Some s' \<and> R s' (put_ram_byte t off b)"
    and ww: "R s t \<Longrightarrow> even off \<Longrightarrow> \<exists>s'. op_ww ops off w s = Some s' \<and> R s' (put_ram_word t off w)"
    and R_int: "R s t \<Longrightarrow> R (call_int on_int s) (call_int on_int' t)"
    and R_eq: "R s t \<Longrightarrow> csr s = csr t \<and> am_initialized s = am_initialized t \<and> am_mode s = am_mode t \<and> am_ladrf s = am_ladrf t \<and>
      am_rdr_rlen s = am_rdr_rlen t \<and> am_rdr_rdra s = am_rdr_rdra t \<and> am_tdr_tlen s = am_tdr_tlen t \<and>
      am_tdr_tdra s = am_tdr_tdra t \<and> tdr_offset s = tdr_offset t \<and> rdr_offset s = rdr_offset t \<and>
      fakemac s = fakemac t \<and> mac s = mac t \<and> crc s = crc t \<and> transmitbuffer s = transmitbuffer t \<and>
      transmitlen s = transmitlen t \<and> loopback_iter s = loopback_iter t \<and> sock_fd s = sock_fd t \<and> sent s = sent t"
    and R_upd: "R s t \<Longrightarrow> R (s\<lparr>csr := cs\<rparr>) (t\<lparr>csr := cs\<rparr>)" "R s t \<Longrightarrow> R (s\<lparr>am_initialized := ai\<rparr>) (t\<lparr>am_initialized := ai\<rparr>)"
      "R s t \<Longrightarrow> R (s\<lparr>am_mode := m\<rparr>) (t\<lparr>am_mode := m\<rparr>)" "R s t \<Longrightarrow> R (s\<lparr>am_ladrf := l\<rparr>) (t\<lparr>am_ladrf := l\<rparr>)"
      "R s t \<Longrightarrow> R (s\<lparr>am_rdr_rlen := n\<rparr>) (t\<lparr>am_rdr_rlen := n\<rparr>)" "R s t \<Longrightarrow> R (s\<lparr>am_rdr_rdra := n\<rparr>) (t\<lparr>am_rdr_rdra := n\<rparr>)"
      "R s t \<Longrightarrow> R (s\<lparr>am_tdr_tlen := n\<rparr>) (t\<lparr>am_tdr_tlen := n\<rparr>)" "R s t \<Longrightarrow> R (s\<lparr>am_tdr_tdra := n\<rparr>) (t\<lparr>am_tdr_tdra := n\<rparr>)"
      "R s t \<Longrightarrow> R (s\<lparr>tdr_offset := k\<rparr>) (t\<lparr>tdr_offset := k\<rparr>)" "R s t \<Longrightarrow> R (s\<lparr>rdr_offset := k\<rparr>) (t\<lparr>rdr_offset := k\<rparr>)"
      "R s t \<Longrightarrow> R (s\<lparr>fakemac := fm\<rparr>) (t\<lparr>fakemac := fm\<rparr>)" "R s t \<Longrightarrow> R (s\<lparr>mac := mu\<rparr>) (t\<lparr>mac := mu\<rparr>)"
      "R s t \<Longrightarrow> R (s\<lparr>crc := cu\<rparr>) (t\<lparr>crc := cu\<rparr>)" "R s t \<Longrightarrow> R (s\<lparr>transmitbuffer := buf\<rparr>) (t\<lparr>transmitbuffer := buf\<rparr>)"
      "R s t \<Longrightarrow> R (s\<lparr>transmitlen := k\<rparr>) (t\<lparr>transmitlen := k\<rparr>)" "R s t \<Longrightarrow> R (s\<lparr>loopback_iter := k\<rparr>) (t\<lparr>loopback_iter := k\<rparr>)"
      "R s t \<Longrightarrow> R (s\<lparr>sent := fs\<rparr>) (t\<lparr>sent := fs\<rparr>)"
begin

section \<open>Elementary steps\<close>

lemma rb_bind:
  assumes "R s t" and "\<And>s'. R s' t \<Longrightarrow> rel_option B (f (get_ram_byte t off, s')) y"
  shows "rel_option B (Option.bind (op_rb ops off s) f) y"
  using rb [OF assms(1), of off] assms(2) by auto

lemma rw_bind:
  assumes "R s t" and "even off" and "\<And>s'. R s' t \<Longrightarrow> rel_option B (f (get_ram_word t off, s')) y"
  shows "rel_option B (Option.bind (op_rw ops off s) f) y"
  using rw [OF assms(1,2)] assms(3) by auto

lemma ww_bind:
  assumes "R s t" and "even off" and "\<And>s'. R s' (put_ram_word t off w) \<Longrightarrow> rel_option B (f s') y"
  shows "rel_option B (Option.bind (op_ww ops off w s) f) y"
  using ww [OF assms(1,2), of w] assms(3) by auto

lemma read_block_sim:
  "R s t \<Longrightarrow> \<exists>s'. ram_read_block_r ops off n s = Some (ram_read_block t off n, s') \<and> R s' t"
proof (induction n arbitrary: s off)
  case 0
  then show ?case by (simp add: ram_read_block_def)
next
  case (Suc n)
  obtain s1 where 1: "op_rb ops off s = Some (get_ram_byte t off, s1)" "R s1 t" using rb [OF Suc.prems] by blast
  obtain s2 where 2: "ram_read_block_r ops (off + 1) n s1 = Some (ram_read_block t (off + 1) n, s2)" "R s2 t"
    using Suc.IH [OF 1(2)] by blast
  have "ram_read_block t off (Suc n) = get_ram_byte t off # ram_read_block t (off + 1) n"
    by (simp add: flat.read_block_view flat.get_view block_at_Suc)
  then show ?case using 1 2 by simp
qed

lemma write_block_sim:
  "R s t \<Longrightarrow> \<exists>s'. ram_write_block_r ops off bs s = Some s' \<and> R s' (ram_write_block t off bs)"
proof (induction bs arbitrary: s t off)
  case (Cons b bs)
  obtain s1 where 1: "op_wb ops off b s = Some s1" "R s1 (put_ram_byte t off b)" using wb [OF Cons.prems] by blast
  then show ?case using Cons.IH [OF 1(2), of "off + 1"] by (simp add: put_ram_byte_def)
qed simp

lemma read_block_bind:
  assumes "R s t" and "\<And>s'. R s' t \<Longrightarrow> rel_option B (f (ram_read_block t off n, s')) y"
  shows "rel_option B (Option.bind (ram_read_block_r ops off n s) f) y"
  using read_block_sim [OF assms(1), of off n] assms(2) by auto

lemma write_block_bind:
  assumes "R s t" and "\<And>s'. R s' (ram_write_block t off bs) \<Longrightarrow> rel_option B (f s') y"
  shows "rel_option B (Option.bind (ram_write_block_r ops off bs s) f) y"
  using write_block_sim [OF assms(1), of off bs] assms(2) by auto

lemma R_csr0: "R s t \<Longrightarrow> R (set_csr k v s) (set_csr k v t)" "R s t \<Longrightarrow> R (registers_csr0_set v s) (registers_csr0_set v t)"
  "R s t \<Longrightarrow> R (registers_csr0_clr v s) (registers_csr0_clr v t)"
  using R_eq [of s t] by (simp_all add: set_csr_def registers_csr0_set_def registers_csr0_clr_def R_upd)

lemma R_rethink: "R s t \<Longrightarrow> R (rethink on_int s) (rethink on_int' t)"
proof -
  assume r: "R s t"
  then have "csr s = csr t" using R_eq by blast
  then show ?thesis using r by (simp add: rethink_eq Let_def R_csr0 R_int)
qed

lemma even_entry: "even rdra \<Longrightarrow> even c \<Longrightarrow> even (rdra + of_nat k * 8 + c)" for rdra c :: u32
  by simp

section \<open>Receive\<close>

lemma bind_same:
  "(\<And>v. x = Some v \<Longrightarrow> rel_option B (f v) (g v)) \<Longrightarrow> rel_option B (Option.bind x f) (Option.bind x g)"
  by (cases x) auto

lemma if_rel:
  "(P \<Longrightarrow> rel_option B a c) \<Longrightarrow> (\<not> P \<Longrightarrow> rel_option B b d) \<Longrightarrow> rel_option B (if P then a else b) (if P then c else d)"
  by simp

lemma rx_desc_sim:
  assumes r: "R s t" and ev: "even rdra"
  shows "rel_option (rel_sum (rel_prod (=) R) (rel_prod (=) R))
    (rx_desc_r ops on_int rdra rlen d len insize first s) (rx_desc on_int' rdra rlen d len insize first t)"
proof -
  define T where "T = t\<lparr>rdr_offset := rdr_offset t mod unat rlen\<rparr>"
  define off where "off = rdra + of_nat (rdr_offset t mod unat rlen) * 8"
  have eq: "rdr_offset s = rdr_offset t" using R_eq [OF r] by simp
  have r0: "R (s\<lparr>rdr_offset := rdr_offset t mod unat rlen\<rparr>) T" using r by (simp add: R_upd T_def)
  have sel: "rdr_offset (v\<lparr>rdr_offset := n\<rparr>) = n" for n and v :: "'c a2065_scheme" by simp
  have offT: "rdra + of_nat (rdr_offset T) * 8 = off" by (simp add: off_def T_def)
  have ev': "even (off + 0)" "even (off + 2)" "even (off + 4)" "even (off + 6)" using ev by (simp_all add: off_def)
  have nxt: "R u T \<Longrightarrow> R (u\<lparr>rdr_offset := rdr_offset u + 1\<rparr>) (T\<lparr>rdr_offset := rdr_offset T + 1\<rparr>)" for u
    using R_eq [of u T] by (simp add: R_upd(10))
  show ?thesis
    unfolding rx_desc_r_def rx_desc_def Let_def eq T_def [symmetric] sel off_def [symmetric] offT
    apply (rule rw_bind [OF r0 ev'(1)], simp only: prod.case)
    apply (rule rw_bind [OF _ ev'(2)], assumption, simp only: prod.case)
    apply (rule rw_bind [OF _ ev'(3)], assumption, simp only: prod.case)
    apply (rule rw_bind [OF _ ev'(4)], assumption, simp only: prod.case)
    apply (rule if_rel)
     apply (cases first; simp only: if_True if_False not_True_eq_False not_False_eq_True prod.case)
      apply (rule ww_bind [OF _ ev'(2)], erule R_csr0, simp add: R_rethink)
     apply (rule ww_bind [OF _ ev'(2)], erule R_csr0, simp add: R_rethink)
    apply (rule bind_same)
    apply (rule write_block_bind, erule nxt)
    subgoal for s1 s2 s3 s4 bytes s5
      apply (cases "len \<le> insize + desc_size (get_ram_word T (off + 4))"; simp only: if_True if_False prod.case)
       apply (rule ww_bind [OF _ ev'(2)], assumption, rule ww_bind [OF _ ev'(4)], assumption, simp)
      apply (rule ww_bind [OF _ ev'(2)], assumption, rule ww_bind [OF _ ev'(4)], assumption, simp)
      done
    done
qed

lemma rel_bind:
  "rel_option A x y \<Longrightarrow> (\<And>a b. A a b \<Longrightarrow> rel_option B (f a) (g b)) \<Longrightarrow> rel_option B (Option.bind x f) (Option.bind y g)"
  by (cases x; cases y) auto

lemma rx_loop_sim:
  "R s t \<Longrightarrow> even rdra \<Longrightarrow>
   rel_option (rel_prod (=) R) (rx_loop_r ops on_int rdra rlen d len insize first s) (rx_loop on_int' rdra rlen d len insize first t)"
proof (induction "len - insize" arbitrary: insize first s t rule: less_induct)
  case less
  let ?x = "rx_desc_r ops on_int rdra rlen d len insize first s" and ?y = "rx_desc on_int' rdra rlen d len insize first t"
  note unf = rx_loop_r.simps [of ops on_int rdra rlen d len insize] rx_loop.simps [of on_int' rdra rlen d len insize]
  from rx_desc_sim [OF less.prems, of rlen d len insize first]
  consider (no) "?x = None" "?y = None" | (stop) a b where "?x = Some (Inl a)" "?y = Some (Inl b)" "rel_prod (=) R a b"
    | (more) n s' t' where "?x = Some (Inr (n, s'))" "?y = Some (Inr (n, t'))" "R s' t'"
    by (auto elim!: option.rel_cases rel_sum.cases)
  then show ?case
  proof cases
    case more
    have "len - n < len - insize" using rx_desc_r_progress [OF more(1)] by linarith
    from less.hyps [OF this more(3) less.prems(2), of False] show ?thesis using more by (simp add: unf)
  qed (simp_all add: unf)
qed

lemma rx_append_fcs_sim: "R s t \<Longrightarrow> rel_option (rel_prod (=) R) (rx_append_fcs d len s) (rx_append_fcs d len t)"
  using R_eq [of s t] unfolding rx_append_fcs_def Let_def
  by (auto intro!: bind_same simp: R_upd)

lemma rx_finish_sim: "R s t \<Longrightarrow> R (rx_finish on_int s) (rx_finish on_int' t)"
proof -
  assume "R s t"
  then have r: "R (rethink on_int (registers_csr0_set CSR0_RINT s)) (rethink on_int' (registers_csr0_set CSR0_RINT t))"
    by (simp add: R_rethink R_csr0)
  then show ?thesis using R_eq [OF r] by (simp add: rx_finish_def Let_def R_upd)
qed

lemma rx_append_fcs_rdra: "rx_append_fcs d len t = Some (d', t') \<Longrightarrow> am_rdr_rdra t' = am_rdr_rdra t" for t :: "'c a2065_scheme"
  by (auto simp: rx_append_fcs_def Let_def split: bind_splits)

lemma rx_deliver_sim:
  assumes r: "R s t" and ev: "even (am_rdr_rdra t)"
  shows "rel_option R (rx_deliver_r ops on_int rlen d len s) (rx_deliver on_int' rlen d len t)"
proof (cases "rx_append_fcs d len t")
  case None
  then show ?thesis using rx_append_fcs_sim [OF r, of d len] by (simp add: rx_deliver_r_def rx_deliver_def)
next
  case (Some p)
  obtain d' t' where p: "p = (d', t')" by (cases p)
  obtain s' where s': "rx_append_fcs d len s = Some (d', s')" "R s' t'"
    using rx_append_fcs_sim [OF r, of d len] by (auto simp: Some p option_rel_Some2)
  have "am_rdr_rdra s' = am_rdr_rdra t'" "even (am_rdr_rdra t')"
    using R_eq [OF s'(2)] rx_append_fcs_rdra [OF Some [unfolded p]] ev by simp_all
  then show ?thesis
    unfolding rx_deliver_r_def rx_deliver_def Some s' p
    by (auto intro!: rel_bind [OF rx_loop_sim [OF s'(2)]] simp: rx_finish_sim)
qed

lemma rx_filter_sim:
  assumes "R s t"
  shows "rel_prod (=) R (rx_filter fm d s) (rx_filter fm d t)" and "am_rdr_rdra (snd (rx_filter fm d t)) = am_rdr_rdra t"
  using assms R_eq [OF assms] by (auto simp: rx_filter_def Let_def registers_prom_def R_upd)

lemma rx_filtered_sim:
  assumes r: "R s t" and ev: "even (am_rdr_rdra t)"
  shows "rel_option R
    (case rx_filter fm d s of (pass, s) \<Rightarrow> if \<not> pass then Some s else rx_deliver_r ops on_int rlen d len s)
    (case rx_filter fm d t of (pass, t) \<Rightarrow> if \<not> pass then Some t else rx_deliver on_int' rlen d len t)"
  using rx_filter_sim [OF r, of fm d] ev by (auto simp: rx_deliver_sim split: prod.splits)

lemma gotfunc_sim:
  assumes r: "R s t" and ev: "even (am_rdr_rdra t)"
  shows "rel_option R (gotfunc_r ops on_int tmp0 db len s) (gotfunc on_int' tmp0 db len t)"
proof -
  have eq: "csr s = csr t" "am_rdr_rlen s = am_rdr_rlen t" "am_rdr_rdra s = am_rdr_rdra t" "am_mode s = am_mode t"
    "fakemac s = fakemac t" "mac s = mac t"
    using R_eq [OF r] by simp_all
  show ?thesis
    unfolding gotfunc_r_def gotfunc_def registers_csr0_def eq Let_def
    by (intro if_rel bind_same rx_filtered_sim r ev) (simp_all add: r)
qed

section \<open>Transmit\<close>

lemma tx_desc_sim:
  assumes r: "R s t" and ev: "even tdra"
  shows "rel_option (rel_sum (rel_prod (=) R) (rel_prod (=) R)) (tx_desc_r ops tdra tlen outsize s) (tx_desc tdra tlen outsize t)"
proof -
  define T where "T = t\<lparr>tdr_offset := tdr_offset t mod unat tlen\<rparr>"
  define off where "off = tdra + of_nat (tdr_offset t mod unat tlen) * 8"
  have eq: "tdr_offset s = tdr_offset t" using R_eq [OF r] by simp
  have r0: "R (s\<lparr>tdr_offset := tdr_offset t mod unat tlen\<rparr>) T" using r by (simp add: R_upd T_def)
  have sel: "tdr_offset (v\<lparr>tdr_offset := n\<rparr>) = n" for n and v :: "'c a2065_scheme" by simp
  have offT: "tdra + of_nat (tdr_offset T) * 8 = off" by (simp add: off_def T_def)
  have ev': "even (off + 0)" "even (off + 2)" "even (off + 4)" "even (off + 6)" using ev by (simp_all add: off_def)
  have nxt: "R u T \<Longrightarrow> R (u\<lparr>transmitbuffer := buf, tdr_offset := tdr_offset u + 1\<rparr>) (T\<lparr>transmitbuffer := buf, tdr_offset := tdr_offset T + 1\<rparr>)" for u buf
    using R_eq [of u T] by (simp add: R_upd)
  have same: "R u T \<Longrightarrow> transmitbuffer u = transmitbuffer T \<and> am_mode u = am_mode T" for u
    using R_eq [of u T] by simp
  note put2 = ww_bind [OF _ ev'(2)] and put6 = ww_bind [OF _ ev'(4)]
  show ?thesis
    unfolding tx_desc_r_def tx_desc_def Let_def eq T_def [symmetric] sel off_def [symmetric] offT
    apply (rule rw_bind [OF r0 ev'(1)], simp only: prod.case)
    apply (rule rw_bind [OF _ ev'(2)], assumption, simp only: prod.case)
    apply (rule rw_bind [OF _ ev'(3)], assumption, simp only: prod.case)
    apply (rule rw_bind [OF _ ev'(4)], assumption, simp only: prod.case)
    apply (rule if_rel)
     apply (rule put2, erule R_csr0, rule put6, assumption, simp)
    apply (rule if_rel)
     apply (rule put2, assumption, rule put6, assumption, simp)
    apply (rule read_block_bind, assumption, simp only: prod.case)
    apply (frule same, elim conjE, simp only:)
    apply (rule bind_same, rule bind_same)
    subgoal for s1 s2 s3 s4 s5 buf p
      apply (cases p, simp only: prod.case)
      apply (rule if_rel)
       apply (simp add: nxt [simplified])
      apply (rule put2, erule nxt, rule put6, assumption, simp)
      done
    done
qed

lemma tx_loop_sim:
  "R s t \<Longrightarrow> even tdra \<Longrightarrow> rel_option (rel_prod (=) R) (tx_loop_r ops tdra tlen outsize s) (tx_loop tdra tlen outsize t)"
proof (induction "MAX_PACKET_SIZE - outsize" arbitrary: outsize s t rule: less_induct)
  case less
  let ?x = "tx_desc_r ops tdra tlen outsize s" and ?y = "tx_desc tdra tlen outsize t"
  note unf = tx_loop_r.simps [of ops tdra tlen outsize] tx_loop.simps [of tdra tlen outsize]
  from tx_desc_sim [OF less.prems, of tlen outsize]
  consider (no) "?x = None" "?y = None" | (stop) a b where "?x = Some (Inl a)" "?y = Some (Inl b)" "rel_prod (=) R a b"
    | (more) n s' t' where "?x = Some (Inr (n, s'))" "?y = Some (Inr (n, t'))" "R s' t'"
    by (auto elim!: option.rel_cases rel_sum.cases)
  then show ?case
  proof cases
    case more
    have "MAX_PACKET_SIZE - n < MAX_PACKET_SIZE - outsize" using tx_desc_r_progress [OF more(1)] by linarith
    from less.hyps [OF this more(3) less.prems(2)] show ?thesis using more by (simp add: unf)
  qed (simp_all add: unf)
qed

lemma tx_scan_sim:
  "R s t \<Longrightarrow> even tdra \<Longrightarrow>
   \<exists>s'. tx_scan_r ops tdra tlen start i tmd1 s = Some (fst (tx_scan tdra tlen start i tmd1 t), s') \<and> R s' (snd (tx_scan tdra tlen start i tmd1 t))"
proof (induction "tlen - i" arbitrary: i tmd1 s t rule: less_induct)
  case less
  note unf = tx_scan_r.simps [of ops tdra tlen start i] tx_scan.simps [of tdra tlen start i]
  show ?case
  proof (cases "i < tlen")
    case True
    let ?k = "(start + i) mod tlen"
    let ?t = "t\<lparr>tdr_offset := ?k\<rparr>" and ?off = "tdra + of_nat ?k * 8 + 2"
    obtain s1 where s1: "op_rw ops ?off (s\<lparr>tdr_offset := ?k\<rparr>) = Some (get_ram_word ?t ?off, s1)" "R s1 ?t"
      using rw [OF R_upd(9) [OF less.prems(1)], of ?off ?k] less.prems(2) by auto
    have "tlen - (i + 1) < tlen - i" using True by simp
    from less.hyps [OF this s1(2) less.prems(2), of "get_ram_word ?t ?off"] s1 True
    show ?thesis by (auto simp: unf Let_def)
  qed (use less.prems in \<open>simp add: unf\<close>)
qed

lemma tx_find_sim:
  assumes r: "R s t" and ev: "even tdra"
  shows "\<exists>s'. tx_find_r ops tdra tlen s = Some (fst (tx_find tdra tlen t), s') \<and> R s' (snd (tx_find tdra tlen t))"
proof -
  let ?k = "tdr_offset t mod unat tlen"
  let ?t = "t\<lparr>tdr_offset := ?k\<rparr>" and ?off = "tdra + of_nat ?k * 8 + 2"
  have eq: "tdr_offset s = tdr_offset t" using R_eq [OF r] by simp
  obtain s1 where s1: "op_rw ops ?off (s\<lparr>tdr_offset := ?k\<rparr>) = Some (get_ram_word ?t ?off, s1)" "R s1 ?t"
    using rw [OF R_upd(9) [OF r], of ?off ?k] ev by auto
  have off1: "tdr_offset s1 = ?k" using R_eq [OF s1(2)] by simp
  obtain s2 where s2: "tx_scan_r ops tdra (unat tlen) ?k 0 (get_ram_word ?t ?off) s1
      = Some (fst (tx_scan tdra (unat tlen) ?k 0 (get_ram_word ?t ?off) ?t), s2)"
    "R s2 (snd (tx_scan tdra (unat tlen) ?k 0 (get_ram_word ?t ?off) ?t))"
    using tx_scan_sim [OF s1(2) ev] by blast
  show ?thesis
    using s1 s2 R_upd(9) [OF s2(2)] off1
    by (auto simp: tx_find_r_def tx_find_def Let_def eq split: prod.splits)
qed

lemma put_status_bind:
  assumes "R s t" and "even off"
    and "\<And>s'. R s' (put_ram_word (put_ram_word t (off + 2) w1) (off + 6) w3) \<Longrightarrow> rel_option B (f s') y"
  shows "rel_option B (Option.bind (put_status_r ops off w1 w3 s) f) y"
proof -
  have "even (off + 2)" "even (off + 6)" using assms(2) by simp_all
  note put2 = ww_bind [OF assms(1) this(1)] and put6 = ww_bind [OF _ this(2)]
  show ?thesis
    unfolding put_status_r_def Option.bind_assoc by (rule put2, erule put6, erule assms(3))
qed

lemma put_status_sim:
  "R s t \<Longrightarrow> even off \<Longrightarrow>
   rel_option R (put_status_r ops off w1 w3 s) (Some (put_ram_word (put_ram_word t (off + 2) w1) (off + 6) w3))"
  using put_status_bind [of s t off w1 w3 R Some "Some (put_ram_word (put_ram_word t (off + 2) w1) (off + 6) w3)"] by simp

lemma ethernet_send_sim: "R s t \<Longrightarrow> rel_option R (ethernet_send f n s) (ethernet_send f n t)"
  using R_eq [of s t] by (auto simp: ethernet_send_def R_upd intro!: bind_same)

lemma tx_dispatch_sim:
  assumes r: "R s t" and ev: "even (tx_off l)" and rd: "even (am_rdr_rdra t)"
  shows "rel_option R (tx_dispatch_r ops on_int tmp0 add_fcs l s) (tx_dispatch on_int' tmp0 add_fcs l t)"
proof -
  have eq: "am_mode s = am_mode t" "transmitbuffer s = transmitbuffer t" "fakemac s = fakemac t" using R_eq [OF r] by simp_all
  let ?t = "put_ram_word (put_ram_word t (tx_off l + 2) (tx_tmd1 l)) (tx_off l + 6) (tx_tmd3 l)"
  have loop: "rel_option R (gotfunc_r ops on_int tmp0 (transmitbuffer u) n u) (gotfunc on_int' tmp0 (transmitbuffer ?t) n ?t)"
    if "R u ?t" for u n
    using gotfunc_sim [OF that] R_eq [OF that] rd by simp
  have out: "rel_option R
      (Option.bind (mungepacket (mac (u\<lparr>transmitlen := n\<rparr>)) (transmitbuffer (u\<lparr>transmitlen := n\<rparr>)) (transmitlen (u\<lparr>transmitlen := n\<rparr>)))
        (\<lambda>(buf, _). let s = u\<lparr>transmitlen := n, transmitbuffer := buf\<rparr> in ethernet_send (transmitbuffer s) (transmitlen s) s))
      (Option.bind (mungepacket (mac (?t\<lparr>transmitlen := n\<rparr>)) (transmitbuffer (?t\<lparr>transmitlen := n\<rparr>)) (transmitlen (?t\<lparr>transmitlen := n\<rparr>)))
        (\<lambda>(buf, _). let s = ?t\<lparr>transmitlen := n, transmitbuffer := buf\<rparr> in ethernet_send (transmitbuffer s) (transmitlen s) s))"
    if "R u ?t" for u n
    using R_eq [OF that] that by (auto simp: Let_def intro!: bind_same ethernet_send_sim R_upd)
  show ?thesis
    unfolding tx_dispatch_r_def tx_dispatch_def Let_def eq
    apply (rule if_rel)
     apply (rule if_rel)
      apply (rule put_status_sim [OF r ev])
     apply (rule put_status_bind [OF r ev], erule loop)
    apply (rule bind_same, rule if_rel)
     apply (rule put_status_sim [OF r ev])
    apply (rule put_status_bind [OF r ev])
    apply (erule out [unfolded Let_def])
    done
qed

lemma R_set_tint: "R s t \<Longrightarrow> R (rethink on_int (registers_csr0_set CSR0_TINT s)) (rethink on_int' (registers_csr0_set CSR0_TINT t))"
  by (simp add: R_rethink R_csr0)

lemma tx_underrun_sim:
  assumes r: "R s t" and ev: "even (tx_off l)"
  shows "rel_option (rel_prod (=) R)
    (do { s \<leftarrow> op_ww ops (tx_off l + 6) w3 (registers_csr0_clr CSR0_TXON s);
          s \<leftarrow> op_ww ops (tx_off l + 2) w1 s;
          Some (1 :: nat, rethink on_int (registers_csr0_set CSR0_TINT s)) })
    (Some (1, rethink on_int' (registers_csr0_set CSR0_TINT
       (put_ram_word (put_ram_word (registers_csr0_clr CSR0_TXON t) (tx_off l + 6) w3) (tx_off l + 2) w1))))"
proof -
  have "even (tx_off l + 6)" "even (tx_off l + 2)" using ev by simp_all
  note put6 = ww_bind [OF _ this(1)] and put2 = ww_bind [OF _ this(2)]
  show ?thesis
    by (rule put6, rule R_csr0(3) [OF r], erule put2) (simp add: R_set_tint)
qed

lemma tx_gathered_sim:
  assumes r: "R s t" and tx: "tx_loop tdra tlen 0 t0 = Some (l, t)" and ev: "even tdra" "even (am_rdr_rdra t0)"
  shows "rel_option (rel_prod (=) R)
    (if tx_err l then Some (1 :: nat, rethink on_int (registers_csr0_set CSR0_TINT s))
     else if tx_outsize l < 60 \<and> \<not> has (am_mode s) MODE_LOOP then do {
       s \<leftarrow> op_ww ops (tx_off l + 6) (tx_tmd3 l OR (TX_BUFF OR TX_UFLO)) (registers_csr0_clr CSR0_TXON s);
       s \<leftarrow> op_ww ops (tx_off l + 2) (tx_tmd1 l OR TX_ERR) s;
       Some (1, rethink on_int (registers_csr0_set CSR0_TINT s))
     } else do {
       s \<leftarrow> tx_dispatch_r ops on_int tmp0 add_fcs l s;
       Some (1, rethink on_int (registers_csr0_set CSR0_TINT s))
     })
    (if tx_err l then Some (1, rethink on_int' (registers_csr0_set CSR0_TINT t))
     else if tx_outsize l < 60 \<and> \<not> has (am_mode t) MODE_LOOP then
       Some (1, rethink on_int' (registers_csr0_set CSR0_TINT (put_ram_word
         (put_ram_word (registers_csr0_clr CSR0_TXON t) (tx_off l + 6) (tx_tmd3 l OR (TX_BUFF OR TX_UFLO)))
         (tx_off l + 2) (tx_tmd1 l OR TX_ERR))))
     else do {
       t \<leftarrow> tx_dispatch on_int' tmp0 add_fcs l t;
       Some (1, rethink on_int' (registers_csr0_set CSR0_TINT t))
     })"
proof -
  have addr: "even (tx_off l)" "even (am_rdr_rdra t)" using tx_loop_addr [OF tx ev(1)] ev(2) by simp_all
  have "am_mode s = am_mode t" using R_eq [OF r] by simp
  then show ?thesis
    by (simp only:)
      (intro if_rel tx_underrun_sim [OF r addr(1)] rel_bind [OF tx_dispatch_sim [OF r addr]];
       simp add: R_set_tint r)
qed

lemma do_transmit_sim:
  assumes r: "R s t" and ev: "even (am_tdr_tdra t)" "even (am_rdr_rdra t)"
  shows "rel_option (rel_prod (=) R) (do_transmit_r ops on_int tmp0 s) (do_transmit on_int' tmp0 t)"
proof -
  have eq: "csr s = csr t" "am_tdr_tdra s = am_tdr_tdra t" "am_tdr_tlen s = am_tdr_tlen t" using R_eq [OF r] by simp_all
  obtain found t1 where f: "tx_find (am_tdr_tdra t) (am_tdr_tlen t) t = (found, t1)" by fastforce
  obtain s1 where s1: "tx_find_r ops (am_tdr_tdra t) (am_tdr_tlen t) s = Some (found, s1)" "R s1 t1"
    using tx_find_sim [OF r ev(1), of "am_tdr_tlen t"] by (auto simp: f)
  have rd: "even (am_rdr_rdra t1)" using tx_find_rdra [of "am_tdr_tdra t" "am_tdr_tlen t" t] ev(2) by (simp add: f)
  have gathered: "rel_option (rel_prod (=) R) (Option.bind (tx_loop_r ops (am_tdr_tdra t) (am_tdr_tlen t) 0 s1) f)
      (Option.bind (tx_loop (am_tdr_tdra t) (am_tdr_tlen t) 0 t1) g)"
    if "\<And>l u v. tx_loop (am_tdr_tdra t) (am_tdr_tlen t) 0 t1 = Some (l, v) \<Longrightarrow> R u v \<Longrightarrow> rel_option (rel_prod (=) R) (f (l, u)) (g (l, v))"
    for f g :: "_ \<Rightarrow> (nat \<times> _) option"
    using tx_loop_sim [OF s1(2) ev(1), of "am_tdr_tlen t" 0] that
    by (cases "tx_loop (am_tdr_tdra t) (am_tdr_tlen t) 0 t1") (auto simp: option_rel_Some2)
  show ?thesis
    unfolding do_transmit_r_def do_transmit_def registers_csr0_def eq Let_def f s1 bind.bind_lunit prod.case
    by (intro if_rel; (simp add: r; fail)?; cases found; simp only: option.case)
      (simp add: s1, rule gathered, simp only: prod.case, rule tx_gathered_sim [OF _ _ ev(1) rd], assumption+)
qed

section \<open>Registers\<close>

lemma R_rings_enable: "R s t \<Longrightarrow> R (rings_enable s) (rings_enable t)"
proof -
  assume r: "R s t"
  then have "am_mode s = am_mode t" using R_eq by blast
  then show ?thesis using r by (simp add: rings_enable_def Let_def R_csr0)
qed

lemma R_chip_init_mask: "R s t \<Longrightarrow> R (chip_init_mask s) (chip_init_mask t)"
proof -
  assume r: "R s t"
  then have "am_rdr_rdra s = am_rdr_rdra t" "am_tdr_tdra s = am_tdr_tdra t" using R_eq by blast+
  then show ?thesis using r by (simp add: chip_init_mask_def R_upd)
qed

lemma R_mac: "R s t \<Longrightarrow> mac s = mac t"
  using R_eq by blast

lemma chip_init_sim:
  assumes r: "R s t" and ev: "even (csr t 1)"
  shows "rel_option R (chip_init_r ops s) (Some (chip_init t))"
proof -
  define off where "off = (push_bit 16 (ucast (csr t 2 AND 0xff)) OR ucast (csr t 1) :: u32) AND RAM_MASK"
  have "even off" unfolding off_def by (rule even_iaddr [OF ev])
  then have e: "even (off + 0)" "even (off + 14)" "even (off + 12)" "even (off + 10)" "even (off + 8)" "even (off + 18)"
    "even (off + 16)" "even (off + 22)" "even (off + 20)" by simp_all
  have eq: "csr (rings_reset_loopback_count s) = csr t" using R_eq [OF r] by (simp add: rings_reset_loopback_count_def)
  have r0: "R (rings_reset_loopback_count s) (rings_reset_loopback_count t)"
    using r by (simp add: rings_reset_loopback_count_def R_upd)
  show ?thesis
    unfolding chip_init_r_def Let_def eq off_def [symmetric]
    apply (rule rw_bind [OF r0 e(1)], simp only: prod.case)
    apply (rule rw_bind [OF R_upd(3) e(2)], assumption, simp only: prod.case)
    apply (rule rw_bind [OF _ e(3)], assumption, simp only: prod.case)
    apply (rule rw_bind [OF _ e(4)], assumption, simp only: prod.case)
    apply (rule rw_bind [OF _ e(5)], assumption, simp only: prod.case)
    apply (rule rw_bind [OF R_upd(4) e(6)], assumption, simp only: prod.case)
    apply (rule rw_bind [OF _ e(7)], assumption, simp only: prod.case)
    apply (rule rw_bind [OF _ e(8)], assumption, simp only: prod.case)
    apply (rule rw_bind [OF _ e(9)], assumption, simp only: prod.case)
    apply (rule rb_bind [OF R_upd(8) [OF R_upd(6) [OF R_upd(7) [OF R_upd(5)]]]], assumption, simp only: prod.case)
    apply (rule rb_bind, assumption, simp only: prod.case)
    apply (rule rb_bind, assumption, simp only: prod.case)
    apply (rule rb_bind, assumption, simp only: prod.case)
    apply (rule rb_bind, assumption, simp only: prod.case)
    apply (rule rb_bind, assumption, simp only: prod.case)
    subgoal premises p
      using R_mac [OF p(15)] R_chip_init_mask [OF R_upd(12) [OF R_upd(11) [OF p(15)]]]
      by (simp add: chip_init_def Let_def rings_reset_loopback_count_def ram_config off_def)
    done
qed

lemma csr0_transition_sim:
  assumes r: "R s t" and ev: "even (csr t 1)"
  shows "rel_option R (csr0_transition_r ops oreg s) (Some (csr0_transition oreg t))"
proof -
  have eq: "csr s = csr t" using R_eq [OF r] by simp
  let ?s = "rings_enable (registers_csr0_clr CSR0_STOP s)" and ?t = "rings_enable (registers_csr0_clr CSR0_STOP t)"
  have on: "R ?s ?t" using r by (simp add: R_rings_enable R_csr0)
  have eq': "csr ?s = csr ?t" using R_eq [OF on] by simp
  have keeps: "csr ?t 1 = csr t 1"
    by (simp add: rings_enable_def Let_def registers_csr0_set_def registers_csr0_clr_def set_csr_def)
  obtain s1 where s1: "chip_init_r ops s = Some s1" "R s1 (chip_init t)"
    using chip_init_sim [OF r ev] by (auto simp: option_rel_Some2)
  obtain s2 where s2: "chip_init_r ops ?s = Some s2" "R s2 (chip_init ?t)"
    using chip_init_sim [OF on ev [folded keeps]] by (auto simp: option_rel_Some2)
  show ?thesis
    unfolding csr0_transition_r_def csr0_transition_def eq Let_def eq' s1(1) s2(1) bind.bind_lunit
    by (simp add: r on s1(2) s2(2) R_csr0 R_upd)
qed

end

section \<open>The transmit callback\<close>

locale chip_sim = ram_sim +
  fixes on_tx :: "('a a2065_scheme) tx_cb"
    and on_tx' :: "('b a2065_scheme) tx_cb"
  assumes tx: "R s t \<Longrightarrow> even_rings t \<Longrightarrow> rel_option R (call_tx on_tx s) (call_tx on_tx' t)"
begin

lemma csr0_demand_sim:
  assumes r: "R s t" and ev: "even_rings t"
  shows "rel_option R (csr0_demand on_tx s) (csr0_demand on_tx' t)"
proof -
  have eq: "csr s = csr t" "am_initialized s = am_initialized t" using R_eq [OF r] by simp_all
  let ?f = "\<lambda>u. if \<not> has (csr t 0) CSR0_TXON then rings_enable (registers_csr0_clr CSR0_STOP u) else u"
  have "R (?f s) (?f t)" "even_rings (?f t)" using r ev by (simp_all add: R_rings_enable R_csr0)
  then have "rel_option R (call_tx on_tx (?f s)) (call_tx on_tx' (?f t))" by (rule tx)
  then show ?thesis
    unfolding csr0_demand_def eq by (intro if_rel rel_bind [where A = R]) (simp_all add: r R_csr0)
qed

lemma csr0_write_sim:
  assumes r: "R s t" and ev: "even (csr t 1)" "even_rings t"
  shows "rel_option R (csr0_write_r ops on_int on_tx v s) (csr0_write on_int' on_tx' v t)"
proof -
  have eq: "csr s = csr t" using R_eq [OF r] by simp
  let ?s = "set_csr 0 (csr0_merge (csr t 0) v) s" and ?t = "set_csr 0 (csr0_merge (csr t 0) v) t"
  obtain s1 where s1: "csr0_transition_r ops (csr t 0) ?s = Some s1" "R s1 (csr0_transition (csr t 0) ?t)"
    using csr0_transition_sim [OF R_csr0(1) [OF r], of 0 "csr0_merge (csr t 0) v" "csr t 0"] ev(1) by (auto simp: option_rel_Some2)
  have "rel_option R (csr0_demand on_tx s1) (csr0_demand on_tx' (csr0_transition (csr t 0) ?t))"
    using csr0_demand_sim [OF s1(2)] ev(2) by (simp add: csr0_transition_even)
  then show ?thesis
    unfolding csr0_write_r_def csr0_write_def eq Let_def s1(1) bind.bind_lunit
    by (cases "csr0_demand on_tx s1"; cases "csr0_demand on_tx' (csr0_transition (csr t 0) ?t)") (simp_all add: R_rethink)
qed

lemma if_R: "(P \<Longrightarrow> R a c) \<Longrightarrow> (\<not> P \<Longrightarrow> R b d) \<Longrightarrow> R (if P then a else b) (if P then c else d)"
  by simp

text \<open>A register write with the same register selected on both sides.\<close>

lemma chip_wput_sim:
  assumes r: "R s t" and rap: "rap s = rap t" and ev: "even (csr t 1)" "even_rings t"
    and sel: "reg = A2065_RAP_OFF \<Longrightarrow> R (s\<lparr>rap := ucast (v AND 0x7f)\<rparr>) (t\<lparr>rap := ucast (v AND 0x7f)\<rparr>)"
  shows "rel_option R (chip_wput_r ops on_int on_tx reg v s) (chip_wput on_int' on_tx' reg v t)"
proof (cases "reg \<noteq> A2065_RAP_OFF \<and> \<not> RAP_SIZE \<le> rap s \<and> rap s = 0")
  case True
  then show ?thesis using csr0_write_sim [OF r ev] rap by (simp add: chip_wput_r_def chip_wput_def)
next
  case False
  have eq: "csr s = csr t" "am_ladrf s = am_ladrf t" "fakemac s = fakemac t" "am_rdr_rdra s = am_rdr_rdra t" "am_tdr_tdra s = am_tdr_tdra t"
    using R_eq [OF r] by simp_all
  have unf: "chip_wput_r ops on_int on_tx reg v s = chip_wput on_int on_tx reg v s" unfolding chip_wput_r_def if_not_P [OF False] ..
  show ?thesis
    unfolding unf unfolding chip_wput_def eq rap
    by (rule if_rel, simp add: sel, rule if_rel, simp add: r, rule if_rel, use False rap in simp,
        unfold option.rel_inject, (rule if_R)+) (simp_all add: r R_upd R_csr0 R_chip_init_mask)
qed

end

section \<open>The flat build\<close>

text \<open>The flat accesses as a record, and the interpretation that says they simulate themselves.\<close>

definition flat_ops :: "('a a2065_scheme) ram_ops" where
  "flat_ops = \<lparr>op_rb = \<lambda>off s. Some (get_ram_byte s off, s), op_rw = \<lambda>off s. Some (get_ram_word s off, s),
     op_wb = \<lambda>off b s. Some (put_ram_byte s off b), op_ww = \<lambda>off w s. Some (put_ram_word s off w)\<rparr>"

interpretation flat_sim: chip_sim flat_ops on_int on_int "(=)" on_tx on_tx
  by unfold_locales (simp_all add: flat_ops_def option.rel_eq)

end
