(* ===== verification/Ddr3.thy ===== *)
theory Ddr3
  imports Doorbell Remote Chip_Sim
begin

text \<open>
  \<^verbatim>\<open>src/arm/src/main_ddr3.cpp\<close>: the daemon that serves the register mailbox in DDR3 and reaches the board RAM only
  through the transfers of \<^verbatim>\<open>boardram_remote.cpp\<close>. While such a transfer waits for its answer it calls
  \<^verbatim>\<open>service_bridge_safe\<close>, which answers register requests, selects registers and puts every other write to the
  data port into a queue of eight that the main loop empties later.

  The FPGA is an argument \<open>fpga\<close>: what it does to the mapped window and to its own state \<open>'m\<close> between two looks
  of the daemon. It has a turn before every poll of a transfer, during every \<^verbatim>\<open>usleep\<close> and between two turns of
  the main loop. The static buffer \<^verbatim>\<open>tmp\<close> of \<^verbatim>\<open>gotfunc\<close> is the argument \<open>tmp0\<close>, as in \<open>Doorbell\<close>.
\<close>

section \<open>State\<close>

abbreviation MBX_REQ_OFF :: u32 where "MBX_REQ_OFF \<equiv> 0x8000"
abbreviation MBX_RSP_OFF :: u32 where "MBX_RSP_OFF \<equiv> 0x8008"
abbreviation MBX_INT_OFF :: u32 where "MBX_INT_OFF \<equiv> 0x8020"
abbreviation MBX_MAC_OFF :: u32 where "MBX_MAC_OFF \<equiv> 0x8028"
abbreviation INT_HOLD_ITER :: nat where "INT_HOLD_ITER \<equiv> 100"

record ddr3 = a2065 +
  req_cnt :: int
  last_mbx_int :: int
  int_hold :: nat
  deferred_csr0_queue :: "u16 list"
  deferred_csr0_head :: nat
  deferred_csr0_tail :: nat
  tdmd_retry :: nat
  int_refresh :: nat

type_synonym 'm fpga_fn = "(u32 \<Rightarrow> u8) \<times> 'm \<Rightarrow> (u32 \<Rightarrow> u8) \<times> 'm"

definition fpga_turn :: "'m fpga_fn \<Rightarrow> 'm ddr3_scheme \<Rightarrow> 'm ddr3_scheme" where
  "fpga_turn fpga s = (case fpga (map_w s, ddr3.more s) of (m, x) \<Rightarrow> ddr3.more_update (\<lambda>_. x) (s\<lparr>map_w := m\<rparr>))"

section \<open>Interrupts\<close>

definition assert_mbx_int :: "'m ddr3_scheme \<Rightarrow> 'm ddr3_scheme" where
  "assert_mbx_int s =
    (let s = wr64 s MBX_INT_OFF 1;
         s = wr64 s MBX_INT_OFF 1;
         s = wr64 s MBX_INT_OFF 1
     in s\<lparr>last_mbx_int := 1, int_hold := INT_HOLD_ITER\<rparr>)"

definition ddr3_on_interrupt_cb :: "'m ddr3_scheme \<Rightarrow> 'm ddr3_scheme" where
  "ddr3_on_interrupt_cb s = assert_mbx_int s"

definition write_mbx_int :: "'m ddr3_scheme \<Rightarrow> 'm ddr3_scheme" where
  "write_mbx_int s =
    (let csr0 = registers_csr0 s;
         val = (if has csr0 CSR0_INTR \<and> has csr0 CSR0_INEA then 1 else 0 :: int)
     in if val \<noteq> last_mbx_int s then (wr64 s MBX_INT_OFF (word_of_int val))\<lparr>last_mbx_int := val\<rparr> else s)"

definition schedule_tdmd_retry :: "'m ddr3_scheme \<Rightarrow> 'm ddr3_scheme" where
  "schedule_tdmd_retry s = (if tdmd_retry s < 16 then s\<lparr>tdmd_retry := 16\<rparr> else s)"

section \<open>The service that runs inside a transfer\<close>

text \<open>The fields of a request.\<close>

definition req_rw :: "u64 \<Rightarrow> bool" where
  "req_rw req \<longleftrightarrow> bit req 1"

definition req_addr :: "u64 \<Rightarrow> u16" where
  "req_addr req = ucast (drop_bit 2 req AND 0xFF)"

definition req_data :: "u64 \<Rightarrow> u16" where
  "req_data req = ucast (drop_bit 10 req AND 0xFFFF)"

definition defer_csr0 :: "u16 \<Rightarrow> 'm ddr3_scheme \<Rightarrow> 'm ddr3_scheme" where
  "defer_csr0 data s =
    (let next_head = (deferred_csr0_head s + 1) mod 8
     in if next_head \<noteq> deferred_csr0_tail s
        then s\<lparr>deferred_csr0_queue := (deferred_csr0_queue s)[deferred_csr0_head s := data], deferred_csr0_head := next_head\<rparr>
        else s)"

text \<open>The other end of the queue, lines 441 and 442.\<close>

definition next_deferred :: "'m ddr3_scheme \<Rightarrow> u16 \<times> 'm ddr3_scheme" where
  "next_deferred s = (deferred_csr0_queue s ! deferred_csr0_tail s, s\<lparr>deferred_csr0_tail := (deferred_csr0_tail s + 1) mod 8\<rparr>)"

text \<open>Only the register select is written here, a branch of \<^verbatim>\<open>chip_wput\<close> that does not touch the board RAM and
  makes no callback.\<close>

definition service_bridge_safe :: "'m ddr3_scheme \<Rightarrow> ('m ddr3_scheme) option" where
  "service_bridge_safe s =
    (let req = rd64 s MBX_REQ_OFF
     in if \<not> has req 1 then Some s
        else do {
          let rw = req_rw req;
          let addr = req_addr req;
          let data = req_data req;
          let result = (if \<not> rw then chip_wget (ucast addr) s else 0);
          n \<leftarrow> int_incr (req_cnt s);
          let s = s\<lparr>req_cnt := n\<rparr>;
          let s = wr64 s MBX_RSP_OFF (1 OR push_bit 1 (ucast result));
          let s = wr64 s MBX_REQ_OFF 0;
          if rw then
            if addr = ucast A2065_RAP_OFF then chip_wput None None (ucast addr) data s
            else if addr = 0 then Some (defer_csr0 data s)
            else Some s
          else Some s
        })"

section \<open>The chip of this build\<close>

definition remote_ops :: "('a window_scheme) fpga \<Rightarrow> ('a window_scheme) reg_service \<Rightarrow> ('a window_scheme) ram_ops" where
  "remote_ops env cb =
    \<lparr>op_rb = \<lambda>off. boardram_rb env cb True (off AND RAM_MASK), op_rw = \<lambda>off. boardram_rw env cb True (off AND RAM_MASK),
     op_wb = \<lambda>off. boardram_wb env cb True (off AND RAM_MASK), op_ww = \<lambda>off. boardram_ww env cb True (off AND RAM_MASK)\<rparr>"

definition ddr3_ops :: "'m fpga_fn \<Rightarrow> ('m ddr3_scheme) ram_ops" where
  "ddr3_ops fpga = remote_ops (fpga_turn fpga) (Some service_bridge_safe)"

definition ddr3_do_transmit :: "'m fpga_fn \<Rightarrow> u8 list \<Rightarrow> 'm ddr3_scheme \<Rightarrow> (nat \<times> 'm ddr3_scheme) option" where
  "ddr3_do_transmit fpga = do_transmit_r (ddr3_ops fpga) (Some ddr3_on_interrupt_cb)"

definition ddr3_on_transmit_cb :: "'m fpga_fn \<Rightarrow> u8 list \<Rightarrow> 'm ddr3_scheme \<Rightarrow> (nat \<times> 'm ddr3_scheme) option" where
  "ddr3_on_transmit_cb fpga tmp0 s = do {
     (r, s) \<leftarrow> ddr3_do_transmit fpga tmp0 s;
     Some (r, if r = 0 then schedule_tdmd_retry s else s)
   }"

definition ddr3_wput :: "'m fpga_fn \<Rightarrow> u8 list \<Rightarrow> u8 \<Rightarrow> u16 \<Rightarrow> 'm ddr3_scheme \<Rightarrow> ('m ddr3_scheme) option" where
  "ddr3_wput fpga tmp0 = chip_wput_r (ddr3_ops fpga) (Some ddr3_on_interrupt_cb) (Some (ddr3_on_transmit_cb fpga tmp0))"

definition ddr3_rx ::
  "'m fpga_fn \<Rightarrow> u8 list \<Rightarrow> u8 list option \<Rightarrow> u8 list \<Rightarrow> 'm ddr3_scheme \<Rightarrow> (u8 list \<times> 'm ddr3_scheme) option" where
  "ddr3_rx fpga tmp0 answer rxbuf s = do {
     (len, rxbuf) \<leftarrow> ethernet_recv answer rxbuf s;
     if len > 0 then do {
       s \<leftarrow> gotfunc_r (ddr3_ops fpga) (Some ddr3_on_interrupt_cb) tmp0 rxbuf (nat len) s;
       Some (rxbuf, s)
     } else Some (rxbuf, s)
   }"

section \<open>The main loop\<close>

definition ddr3_int_cleared :: "'m ddr3_scheme \<Rightarrow> 'm ddr3_scheme" where
  "ddr3_int_cleared s =
    (if \<not> has (registers_csr0 s) CSR0_INTR \<and> int_hold s > 0 then s\<lparr>int_hold := 1\<rparr> else s)"

definition ddr3_service_bridge :: "'m fpga_fn \<Rightarrow> u8 list \<Rightarrow> 'm ddr3_scheme \<Rightarrow> ('m ddr3_scheme) option" where
  "ddr3_service_bridge fpga tmp0 s =
    (let req = rd64 s MBX_REQ_OFF
     in if \<not> has req 1 then Some s
        else do {
          let rw = req_rw req;
          let addr = req_addr req;
          let data = req_data req;
          let result = (if \<not> rw then chip_wget (ucast addr) s else 0);
          n \<leftarrow> int_incr (req_cnt s);
          let s = s\<lparr>req_cnt := n\<rparr>;
          let s = (if \<not> rw \<and> addr = 0 \<and> has result CSR0_INTR \<and> has result CSR0_INEA then assert_mbx_int s else s);
          let s = (if rw \<and> addr = 0 \<and> has data (CSR0_INIT OR CSR0_TDMD OR CSR0_STRT) then
                     (let cur_csr0 = registers_csr0 s
                      in if has (data OR cur_csr0) CSR0_INEA then fpga_turn fpga (assert_mbx_int s) else s)
                   else s);
          let s = wr64 s MBX_RSP_OFF (1 OR push_bit 1 (ucast result));
          let s = wr64 s MBX_REQ_OFF 0;
          if rw then do {
            s \<leftarrow> ddr3_wput fpga tmp0 (ucast addr) data s;
            let do_init_delay = (addr = 0 \<and> has data CSR0_INIT \<and> has (registers_csr0 s) CSR0_INTR);
            let int_cleared = (addr = 0 \<and> \<not> has (registers_csr0 s) CSR0_INTR);
            let s = (if do_init_delay then fpga_turn fpga (assert_mbx_int s) else s);
            Some (if int_cleared \<and> int_hold s > 0 then s\<lparr>int_hold := 1\<rparr> else s)
          } else Some s
        })"

text \<open>Lines 440 to 449. The loop goes on as long as transfers inside it defer further writes.\<close>

partial_function (option) ddr3_drain :: "'m fpga_fn \<Rightarrow> u8 list \<Rightarrow> 'm ddr3_scheme \<Rightarrow> ('m ddr3_scheme) option" where
  "ddr3_drain fpga tmp0 s =
    (if deferred_csr0_tail s \<noteq> deferred_csr0_head s then
       (let (saved, s) = next_deferred s
        in Option.bind (ddr3_wput fpga tmp0 A2065_RDP_OFF saved s) (\<lambda>s. ddr3_drain fpga tmp0 (ddr3_int_cleared s)))
     else Some s)"

text \<open>Lines 451 to 465.\<close>

definition ddr3_retry :: "'m fpga_fn \<Rightarrow> u8 list \<Rightarrow> 'm ddr3_scheme \<Rightarrow> ('m ddr3_scheme) option" where
  "ddr3_retry fpga tmp0 s =
    (if tdmd_retry s > 0 then
       (let s = s\<lparr>tdmd_retry := tdmd_retry s - 1\<rparr>
        in if has (registers_csr0 s) CSR0_TXON then do {
             (r, s) \<leftarrow> ddr3_do_transmit fpga tmp0 s;
             Some (if r \<noteq> 0 then s\<lparr>tdmd_retry := 0\<rparr> else s)
           } else Some (s\<lparr>tdmd_retry := 0\<rparr>))
     else Some s)"

text \<open>Lines 467 to 471 and 473 to 481.\<close>

definition ddr3_int_step :: "'m ddr3_scheme \<Rightarrow> 'm ddr3_scheme" where
  "ddr3_int_step s = (if int_hold s > 0 then s\<lparr>int_hold := int_hold s - 1\<rparr> else write_mbx_int s)"

definition ddr3_int_refresh :: "'m ddr3_scheme \<Rightarrow> 'm ddr3_scheme" where
  "ddr3_int_refresh s =
    (if last_mbx_int s = 1 then
       (let s = s\<lparr>int_refresh := int_refresh s + 1\<rparr>
        in if int_refresh s \<ge> 10 then (wr64 s MBX_INT_OFF 1)\<lparr>int_refresh := 0\<rparr> else s)
     else s\<lparr>int_refresh := 0\<rparr>)"

definition ddr3_turn :: "'m fpga_fn \<Rightarrow> u8 list \<Rightarrow> 'm ddr3_scheme \<Rightarrow> ('m ddr3_scheme) option" where
  "ddr3_turn fpga tmp0 s = do {
     s \<leftarrow> ddr3_service_bridge fpga tmp0 s;
     s \<leftarrow> ddr3_drain fpga tmp0 s;
     s \<leftarrow> ddr3_retry fpga tmp0 s;
     Some (ddr3_int_refresh (ddr3_int_step s))
   }"

section \<open>Start and stop\<close>

definition ddr3_set_default_mac :: "'m ddr3_scheme \<Rightarrow> 'm ddr3_scheme" where
  "ddr3_set_default_mac s =
    (let realmac = ethernet_get_mac s;
         fm = [0x00, 0x80, 0x10, realmac ! 3, realmac ! 4, realmac ! 5];
         realmac = realmac[0 := 0x00, 1 := 0x80, 2 := 0x10];
         s = s\<lparr>mac := mac_set_addresses fm realmac (mac s)\<rparr>
     in registers_set_fakemac fm s)"

definition ddr3_write_mbx_mac :: "mac_addr \<Rightarrow> 'm ddr3_scheme \<Rightarrow> 'm ddr3_scheme" where
  "ddr3_write_mbx_mac fm s =
     wr64 s MBX_MAC_OFF
       (1 OR push_bit 32 (ucast (fm ! 2)) OR push_bit 40 (ucast (fm ! 3)) OR
        push_bit 48 (ucast (fm ! 4)) OR push_bit 56 (ucast (fm ! 5)))"

text \<open>The body of the loop at lines 379 to 388.\<close>

definition ddr3_reset_mailbox :: "'m fpga_fn \<Rightarrow> 'm ddr3_scheme \<Rightarrow> 'm ddr3_scheme" where
  "ddr3_reset_mailbox fpga s =
    (let s = wr64 s MBX_RSP_OFF 1;
         s = fpga_turn fpga s;
         s = wr64 s MBX_RSP_OFF 0;
         s = wr64 s MBX_REQ_OFF 0;
         s = wr64 s MBX_RAM_REQ 0;
         s = wr64 s MBX_RAM_RSP 0;
         s = wr64 s MBX_INT_OFF 0
     in fpga_turn fpga s)"

text \<open>Lines 377 to 433 without the two test modes. \<^verbatim>\<open>local_boardram\<close> lies outside the window and no access of this
  build uses it.\<close>

definition ddr3_start :: "'m fpga_fn \<Rightarrow> nic_env \<Rightarrow> u32 \<Rightarrow> 'm ddr3_scheme \<Rightarrow> 'm ddr3_scheme" where
  "ddr3_start fpga nic local_boardram s =
    (let s = (ddr3_reset_mailbox fpga ^^ 5) s;
         s = registers_reset s;
         s = registers_set_boardram local_boardram s;
         s = snd (ethernet_open nic s);
         s = ddr3_set_default_mac s;
         s = ddr3_write_mbx_mac (fakemac s) s
     in s\<lparr>int_refresh := 0\<rparr>)"

definition ddr3_stop :: "'m ddr3_scheme \<Rightarrow> 'm ddr3_scheme" where
  "ddr3_stop s = ethernet_close (wr64 s MBX_INT_OFF 0)"

section \<open>The two test modes\<close>

definition ddr3_test_boardram :: "('a window_scheme) fpga \<Rightarrow> ('a window_scheme) reg_service \<Rightarrow> 'a window_scheme \<Rightarrow> (nat \<times> 'a window_scheme) option" where
  "ddr3_test_boardram env cb s = do {
     s \<leftarrow> boardram_ww env cb True 0x0000 0xDEAD s;
     s \<leftarrow> boardram_ww env cb True 0x0002 0xBEEF s;
     s \<leftarrow> boardram_ww env cb True 0x7FFE 0x1234 s;
     s \<leftarrow> boardram_ww env cb True 0x0100 0xAAAA s;
     s \<leftarrow> boardram_ww env cb True 0x0102 0x5555 s;
     (v, s) \<leftarrow> boardram_rw env cb True 0x0000 s;
     let f = (if v = 0xDEAD then 0 else 1 :: nat);
     (v, s) \<leftarrow> boardram_rw env cb True 0x0002 s;
     let f = (if v = 0xBEEF then f else f + 1);
     (v, s) \<leftarrow> boardram_rw env cb True 0x7FFE s;
     let f = (if v = 0x1234 then f else f + 1);
     (v, s) \<leftarrow> boardram_rw env cb True 0x0100 s;
     let f = (if v = 0xAAAA then f else f + 1);
     (v, s) \<leftarrow> boardram_rw env cb True 0x0102 s;
     let f = (if v = 0x5555 then f else f + 1);
     s \<leftarrow> boardram_ww env cb True 0x0200 0x0000 s;
     s \<leftarrow> boardram_wb env cb True 0x0200 0xCA s;
     s \<leftarrow> boardram_wb env cb True 0x0201 0xFE s;
     (v, s) \<leftarrow> boardram_rw env cb True 0x0200 s;
     let f = (if v = 0xCAFE then f else f + 1);
     Some (if f \<noteq> 0 then 1 else 0, s)
   }"

primrec dump_poll :: "('a window_scheme) fpga \<Rightarrow> nat \<Rightarrow> 'a window_scheme \<Rightarrow> u16 option \<times> 'a window_scheme" where
  "dump_poll env 0 s = (None, s)"
| "dump_poll env (Suc n) s =
    (let s = env s;
         rsp = rd64 s MBX_RAM_RSP
     in if has rsp 1 then (Some (ucast (drop_bit 1 rsp)), wr64 (wr64 s MBX_RAM_RSP 0) MBX_RAM_REQ 0)
        else dump_poll env n s)"

text \<open>The loop over the offsets, with the lines it prints. The offset is 16 bits wide, the bound an \<^verbatim>\<open>int\<close>.\<close>

partial_function (option) dump_loop ::
  "('a window_scheme) fpga \<Rightarrow> int \<Rightarrow> u16 \<Rightarrow> 'a window_scheme \<Rightarrow> ((u16 \<times> u16) list \<times> 'a window_scheme) option" where
  "dump_loop env stop off s =
    (if uint off < stop then
       (let s = wr64 s MBX_RAM_REQ (1 OR push_bit 2 (ucast (off AND 0x7FFE)));
            (v, s) = dump_poll env 100000 s
        in Option.bind (dump_loop env stop (off + 2) s)
             (\<lambda>(out, s). Some (case v of None \<Rightarrow> out | Some v \<Rightarrow> (off, v) # out, s)))
     else Some ([], s))"

definition dump_boardram ::
  "('a window_scheme) fpga \<Rightarrow> u16 \<Rightarrow> u16 \<Rightarrow> 'a window_scheme \<Rightarrow> ((u16 \<times> u16) list \<times> 'a window_scheme) option" where
  "dump_boardram env start len s = dump_loop env (uint start + uint len) start s"

section \<open>The queue of deferred writes\<close>

text \<open>A bounded queue: what a client may rely on.\<close>

locale bounded_queue =
  fixes contents :: "'s \<Rightarrow> 'a list"
    and ok :: "'s \<Rightarrow> bool"
    and cap :: nat
    and put :: "'a \<Rightarrow> 's \<Rightarrow> 's"
    and get :: "'s \<Rightarrow> 'a \<times> 's"
  assumes put_ok: "ok s \<Longrightarrow> ok (put x s)"
    and put_contents: "ok s \<Longrightarrow> contents (put x s) = (if length (contents s) < cap then contents s @ [x] else contents s)"
    and get_ok: "ok s \<Longrightarrow> contents s \<noteq> [] \<Longrightarrow> ok (snd (get s))"
    and get_contents: "ok s \<Longrightarrow> contents s \<noteq> [] \<Longrightarrow> contents s = fst (get s) # contents (snd (get s))"
begin

text \<open>A burst keeps its first elements, in order, and loses the rest.\<close>

lemma burst:
  "ok s \<Longrightarrow> ok (fold put xs s) \<and> contents (fold put xs s) = contents s @ take (cap - length (contents s)) xs"
proof (induction xs arbitrary: s)
  case (Cons x xs)
  have "take (cap - length (contents s)) (x # xs) = x # take (cap - Suc (length (contents s))) xs" if "length (contents s) < cap"
    using that by (simp add: take_Cons' Suc_diff_Suc)
  then show ?case
    using Cons by (simp add: put_ok put_contents)
qed simp

end

definition queue_ok :: "'m ddr3_scheme \<Rightarrow> bool" where
  "queue_ok s \<longleftrightarrow> length (deferred_csr0_queue s) = 8 \<and> deferred_csr0_head s < 8 \<and> deferred_csr0_tail s < 8"

text \<open>The writes that wait, oldest first.\<close>

definition pending :: "'m ddr3_scheme \<Rightarrow> u16 list" where
  "pending s = map (\<lambda>i. deferred_csr0_queue s ! ((deferred_csr0_tail s + i) mod 8))
     [0..<(deferred_csr0_head s + 8 - deferred_csr0_tail s) mod 8]"

lemma length_pending: "length (pending s) = (deferred_csr0_head s + 8 - deferred_csr0_tail s) mod 8"
  by (simp add: pending_def)

text \<open>Arithmetic of the two indices, by enumeration.\<close>

lemma ring_all:
  "\<forall>h \<in> set [0..<8]. \<forall>t \<in> set [0..<8].
     ((h + 8 - t) mod 8 = 0 \<longleftrightarrow> t = h) \<and>
     ((h + 1) mod 8 = t \<longrightarrow> (h + 8 - t) mod 8 = 7) \<and>
     ((h + 1) mod 8 \<noteq> t \<longrightarrow> (h + 8 - t) mod 8 < 7 \<and> ((h + 1) mod 8 + 8 - t) mod 8 = Suc ((h + 8 - t) mod 8)) \<and>
     (t + (h + 8 - t) mod 8) mod 8 = h \<and>
     (\<forall>i \<in> set [0..<(h + 8 - t) mod 8]. (t + i) mod 8 \<noteq> h) \<and>
     (t \<noteq> h \<longrightarrow> (h + 8 - t) mod 8 = Suc ((h + 8 - (t + 1) mod 8) mod 8))"
  by code_simp

lemma ring_facts:
  fixes h t :: nat
  assumes "h < 8" "t < 8"
  shows "(h + 8 - t) mod 8 = 0 \<longleftrightarrow> t = h"
    and "(h + 1) mod 8 = t \<Longrightarrow> (h + 8 - t) mod 8 = 7"
    and "(h + 1) mod 8 \<noteq> t \<Longrightarrow> (h + 8 - t) mod 8 < 7"
    and "(h + 1) mod 8 \<noteq> t \<Longrightarrow> ((h + 1) mod 8 + 8 - t) mod 8 = Suc ((h + 8 - t) mod 8)"
    and "(t + (h + 8 - t) mod 8) mod 8 = h"
    and "i < (h + 8 - t) mod 8 \<Longrightarrow> (t + i) mod 8 \<noteq> h"
    and "t \<noteq> h \<Longrightarrow> (h + 8 - t) mod 8 = Suc ((h + 8 - (t + 1) mod 8) mod 8)"
proof -
  have "h \<in> set [0..<8]" "t \<in> set [0..<8]" using assms by simp_all
  note r = ring_all [THEN bspec, OF this(1), THEN bspec, OF this(2)]
  show "(h + 8 - t) mod 8 = 0 \<longleftrightarrow> t = h" using r by (elim conjE)
  show "(h + 1) mod 8 = t \<Longrightarrow> (h + 8 - t) mod 8 = 7" using r by (elim conjE mp)
  show "(h + 1) mod 8 \<noteq> t \<Longrightarrow> (h + 8 - t) mod 8 < 7" using r by (elim conjE) (drule mp, assumption, elim conjE)
  show "(h + 1) mod 8 \<noteq> t \<Longrightarrow> ((h + 1) mod 8 + 8 - t) mod 8 = Suc ((h + 8 - t) mod 8)"
    using r by (elim conjE) (drule mp, assumption, elim conjE)
  show "(t + (h + 8 - t) mod 8) mod 8 = h" using r by (elim conjE)
  show "i < (h + 8 - t) mod 8 \<Longrightarrow> (t + i) mod 8 \<noteq> h" using r by (elim conjE) (drule bspec [of _ _ i], simp only: set_upt atLeastLessThan_iff le0 simp_thms)
  show "t \<noteq> h \<Longrightarrow> (h + 8 - t) mod 8 = Suc ((h + 8 - (t + 1) mod 8) mod 8)" using r by (elim conjE mp)
qed

lemma pending_empty: "queue_ok s \<Longrightarrow> pending s = [] \<longleftrightarrow> deferred_csr0_tail s = deferred_csr0_head s"
  unfolding length_0_conv [symmetric] length_pending by (simp add: queue_ok_def ring_facts(1))

lemma defer_pending:
  assumes "queue_ok s"
  shows "pending (defer_csr0 data s) = (if length (pending s) < 7 then pending s @ [data] else pending s)"
proof -
  let ?h = "deferred_csr0_head s" and ?t = "deferred_csr0_tail s"
  have b: "?h < 8" "?t < 8" "length (deferred_csr0_queue s) = 8" using assms by (simp_all add: queue_ok_def)
  note ring = ring_facts [OF b(1,2)]
  show ?thesis
  proof (cases "(?h + 1) mod 8 = ?t")
    case True
    then have "length (pending s) = 7" unfolding length_pending by (rule ring(2))
    then show ?thesis using True by (simp add: defer_csr0_def Let_def)
  next
    case False
    have "length (pending s) < 7" unfolding length_pending using False by (rule ring(3))
    moreover have "pending (defer_csr0 data s) = pending s @ [data]"
    proof (rule nth_equalityI)
      show "length (pending (defer_csr0 data s)) = length (pending s @ [data])"
        using False ring(4) by (simp add: defer_csr0_def Let_def length_pending)
    next
      fix i
      assume "i < length (pending (defer_csr0 data s))"
      then have i: "i < Suc ((?h + 8 - ?t) mod 8)"
        using False ring(4) by (simp add: defer_csr0_def Let_def length_pending)
      then have "pending (defer_csr0 data s) ! i = (deferred_csr0_queue s)[?h := data] ! ((?t + i) mod 8)"
        using False ring(4) by (simp add: defer_csr0_def Let_def pending_def del: upt_Suc)
      also have "\<dots> = (pending s @ [data]) ! i"
      proof (cases "i < (?h + 8 - ?t) mod 8")
        case True
        then have "?h \<noteq> (?t + i) mod 8" using ring(6) by metis
        then show ?thesis using True by (simp add: pending_def nth_append)
      next
        case False
        then have "i = (?h + 8 - ?t) mod 8" using i by simp
        then show ?thesis using ring(5) b by (simp add: nth_append length_pending)
      qed
      finally show "pending (defer_csr0 data s) ! i = (pending s @ [data]) ! i" .
    qed
    ultimately show ?thesis by simp
  qed
qed

lemma next_pending:
  assumes "queue_ok s" and "pending s \<noteq> []"
  shows "pending s = fst (next_deferred s) # pending (snd (next_deferred s))"
proof -
  let ?h = "deferred_csr0_head s" and ?t = "deferred_csr0_tail s"
  have b: "?h < 8" "?t < 8" "?t \<noteq> ?h" using assms by (simp_all add: queue_ok_def pending_empty)
  note n = ring_facts(7) [OF b]
  have shift: "(Suc ?t mod 8 + i) mod 8 = (?t + Suc i) mod 8" for i by (simp add: mod_simps)
  show ?thesis
    unfolding pending_def n upt_rec [of 0 "Suc _"]
    using b by (simp add: next_deferred_def shift map_Suc_upt [symmetric] del: upt_Suc)
qed

interpretation deferred: bounded_queue pending queue_ok 7 defer_csr0 next_deferred
proof
  show "queue_ok s \<Longrightarrow> queue_ok (defer_csr0 x s)" for x and s :: "'m ddr3_scheme"
    by (simp add: queue_ok_def defer_csr0_def Let_def)
  show "queue_ok s \<Longrightarrow> pending s \<noteq> [] \<Longrightarrow> queue_ok (snd (next_deferred s))" for s :: "'m ddr3_scheme"
    by (simp add: queue_ok_def next_deferred_def)
qed (rule defer_pending next_pending; assumption)+

text \<open>The queue of deferred writes is a first-in first-out queue of seven: a burst of writes is kept in order up to
  the free places, and the writes after that are lost although they have been acknowledged.\<close>

theorem deferred_burst:
  assumes "queue_ok s"
  shows "pending (fold defer_csr0 xs s) = pending s @ take (7 - length (pending s)) xs \<and> queue_ok (fold defer_csr0 xs s)"
  using deferred.burst [OF assms] by blast

end
