(* ===== verification/Ddr3_Chip.thy ===== *)
theory Ddr3_Chip
  imports Ddr3
begin

text \<open>
  The DDR3 daemon implements the same chip as the flat build. The relation \<open>ddr3_rel\<close> connects a state of the
  DDR3 daemon with a state of the flat chip: the same registers, the same RAM as the 68k sees it, no answer
  left over in the transfer slot. With an FPGA that serves its RAM the accesses of \<open>Ddr3\<close> satisfy the laws of
  \<open>ram_sim\<close>, although register requests are served inside every one of them.
\<close>

section \<open>The parts of the state that a transfer keeps\<close>

definition core_eq :: "'a a2065_scheme \<Rightarrow> 'b a2065_scheme \<Rightarrow> bool" where
  "core_eq s t \<longleftrightarrow>
     csr s = csr t \<and> am_initialized s = am_initialized t \<and> am_mode s = am_mode t \<and> am_ladrf s = am_ladrf t \<and>
     am_rdr_rlen s = am_rdr_rlen t \<and> am_rdr_rdra s = am_rdr_rdra t \<and> am_tdr_tlen s = am_tdr_tlen t \<and>
     am_tdr_tdra s = am_tdr_tdra t \<and> tdr_offset s = tdr_offset t \<and> rdr_offset s = rdr_offset t \<and>
     fakemac s = fakemac t \<and> mac s = mac t \<and> crc s = crc t \<and> transmitbuffer s = transmitbuffer t \<and>
     transmitlen s = transmitlen t \<and> loopback_iter s = loopback_iter t \<and> sock_fd s = sock_fd t \<and> sent s = sent t"

text \<open>What the service inside a transfer may change.\<close>

lemma safe_service_frame:
  assumes "service_bridge_safe s = Some t"
  obtains m r n q h where "t = s\<lparr>map_w := m, rap := r, req_cnt := n, deferred_csr0_queue := q, deferred_csr0_head := h\<rparr>"
proof -
  have "wr64 u off v = u\<lparr>map_w := map_w (wr64 u off v)\<rparr>" for u :: "'a ddr3_scheme" and off v
    by (simp add: wr64_def)
  then show thesis
    using assms that
    by (cases s) (auto simp: service_bridge_safe_def Let_def chip_wput_def defer_csr0_def wr64_def split: if_splits bind_splits)
qed

lemma core_eq_env [simp]:
  "core_eq (wr64 s off v) t = core_eq s t" "core_eq (fpga_turn fpga s') t = core_eq s' t"
  "core_eq (assert_mbx_int s') t = core_eq s' t" "core_eq (schedule_tdmd_retry s') t = core_eq s' t"
  by (simp_all add: core_eq_def wr64_def fpga_turn_def assert_mbx_int_def schedule_tdmd_retry_def Let_def split: prod.splits)

lemma core_eq_service: "core_eq s t \<Longrightarrow> call_service (Some service_bridge_safe) s = Some s' \<Longrightarrow> core_eq s' t"
  by (auto simp: call_service_def core_eq_def elim!: safe_service_frame)

interpretation core: xfer_frame "fpga_turn fpga" "Some service_bridge_safe" "\<lambda>s. core_eq s t"
  by unfold_locales (simp_all add: core_eq_service)

section \<open>The relation\<close>

definition view_of :: "((u32 \<Rightarrow> u8) \<Rightarrow> 'm \<Rightarrow> ram_addr \<Rightarrow> u8) \<Rightarrow> 'm ddr3_scheme \<Rightarrow> ram_addr \<Rightarrow> u8" where
  "view_of V s = V (map_w s) (ddr3.more s)"

text \<open>What the daemon relies on: the FPGA answers transfers from its RAM, also while register requests are served
  in between, and the RAM is not in the mailbox, the bytes from \<^verbatim>\<open>0x8000\<close> to \<^verbatim>\<open>0x802F\<close>.\<close>

definition mailbox_apart :: "((u32 \<Rightarrow> u8) \<Rightarrow> 'm \<Rightarrow> ram_addr \<Rightarrow> u8) \<Rightarrow> bool" where
  "mailbox_apart V \<longleftrightarrow> (\<forall>m m' x. (\<forall>a. 0x30 \<le> a - 0x8000 \<longrightarrow> m a = m' a) \<longrightarrow> V m x = V m' x)"

definition serving_fpga :: "'m fpga_fn \<Rightarrow> ((u32 \<Rightarrow> u8) \<Rightarrow> 'm \<Rightarrow> ram_addr \<Rightarrow> u8) \<Rightarrow> bool" where
  "serving_fpga fpga V \<longleftrightarrow> mailbox_apart V \<and> serves (fpga_turn fpga) (Some service_bridge_safe) (view_of V)"

definition ddr3_rel ::
  "((u32 \<Rightarrow> u8) \<Rightarrow> 'm \<Rightarrow> ram_addr \<Rightarrow> u8) \<Rightarrow> ('m ddr3_scheme \<Rightarrow> bool) \<Rightarrow> 'm ddr3_scheme \<Rightarrow> 'b a2065_scheme \<Rightarrow> bool" where
  "ddr3_rel V J s t \<longleftrightarrow> J s \<and> view_of V s = ram_view t \<and> \<not> has (rd64 s MBX_RAM_RSP) 1 \<and> core_eq s t"

lemma mailbox_distance: "k \<le> 0x28 \<Longrightarrow> 0x30 \<le> d \<Longrightarrow> 8 \<le> d - k" for d k :: u32
proof -
  assume "k \<le> 0x28" "0x30 \<le> d"
  then have "unat k \<le> 40" "48 \<le> unat d" by (simp_all add: word_le_nat_alt)
  then show ?thesis by (simp add: word_le_nat_alt unat_sub_if')
qed

lemma view_of_wr64:
  assumes "mailbox_apart V" and "off - 0x8000 \<le> 0x28"
  shows "view_of V (wr64 s off v) = view_of V s"
proof -
  have "map_w (wr64 s off v) a = map_w s a" if "0x30 \<le> a - 0x8000" for a
    using mailbox_distance [OF assms(2) that] by (simp add: wr64_map_w_other)
  moreover have "ddr3.more (wr64 s off v) = ddr3.more s" by (simp add: wr64_def)
  ultimately show ?thesis
    using assms(1) unfolding mailbox_apart_def view_of_def by metis
qed

lemma view_of_int: "mailbox_apart V \<Longrightarrow> view_of V (assert_mbx_int s) = view_of V s"
proof -
  assume "mailbox_apart V"
  then have "view_of V (wr64 u MBX_INT_OFF 1) = view_of V u" for u by (rule view_of_wr64) simp
  moreover have "view_of V (u\<lparr>last_mbx_int := 1, int_hold := n\<rparr>) = view_of V u" for u n by (simp add: view_of_def)
  ultimately show ?thesis by (simp add: assert_mbx_int_def Let_def)
qed

lemma slots_mbx_apart [simp]:
  "apart MBX_INT_OFF MBX_RAM_RSP" "apart MBX_INT_OFF MBX_REQ_OFF" "apart MBX_RAM_REQ MBX_INT_OFF" "apart MBX_RAM_RSP MBX_INT_OFF"
  "apart MBX_RAM_REQ MBX_REQ_OFF" "apart MBX_RAM_RSP MBX_REQ_OFF" "apart MBX_RSP_OFF MBX_INT_OFF" "apart MBX_REQ_OFF MBX_INT_OFF"
  "apart MBX_REQ_OFF MBX_RSP_OFF" "apart MBX_RSP_OFF MBX_REQ_OFF" "apart MBX_RSP_OFF MBX_RAM_RSP" "apart MBX_REQ_OFF MBX_RAM_RSP"
  "apart MBX_INT_OFF MBX_RSP_OFF"
  by (simp_all add: apart_def)

lemma rd64_assert [simp]:
  "rd64 (assert_mbx_int s) MBX_RAM_RSP = rd64 s MBX_RAM_RSP" "rd64 (assert_mbx_int s) MBX_REQ_OFF = rd64 s MBX_REQ_OFF"
  "rd64 (assert_mbx_int s) MBX_INT_OFF = 1"
proof -
  have u: "rd64 (u\<lparr>last_mbx_int := 1, int_hold := n\<rparr>) off = rd64 u off" for u :: "'a ddr3_scheme" and n off
    by (simp add: rd64_def)
  show "rd64 (assert_mbx_int s) MBX_RAM_RSP = rd64 s MBX_RAM_RSP" "rd64 (assert_mbx_int s) MBX_REQ_OFF = rd64 s MBX_REQ_OFF"
    "rd64 (assert_mbx_int s) MBX_INT_OFF = 1"
    by (simp_all add: assert_mbx_int_def Let_def u)
qed

text \<open>Two states that differ in chip variables only.\<close>

definition same_side :: "'m ddr3_scheme \<Rightarrow> 'm ddr3_scheme \<Rightarrow> bool" where
  "same_side s s' \<longleftrightarrow>
     map_w s' = map_w s \<and> rap s' = rap s \<and> req_cnt s' = req_cnt s \<and> last_mbx_int s' = last_mbx_int s \<and> int_hold s' = int_hold s \<and>
     deferred_csr0_queue s' = deferred_csr0_queue s \<and> deferred_csr0_head s' = deferred_csr0_head s \<and>
     deferred_csr0_tail s' = deferred_csr0_tail s \<and> tdmd_retry s' = tdmd_retry s \<and> int_refresh s' = int_refresh s \<and>
     ddr3.more s' = ddr3.more s"

locale side_frame = xfer_frame "fpga_turn fpga" "Some service_bridge_safe" J
  for fpga :: "'m fpga_fn" and J :: "'m ddr3_scheme \<Rightarrow> bool" +
  assumes J_int: "J s \<Longrightarrow> J (assert_mbx_int s)"
    and J_retry: "J s \<Longrightarrow> J (schedule_tdmd_retry s)"
    and J_side: "J s \<Longrightarrow> same_side s s' \<Longrightarrow> J s'"
begin

lemma rel_upd:
  assumes r: "ddr3_rel V J s t" and "same_side s s'" and "core_eq s' t'" and "ram_view t' = ram_view t"
  shows "ddr3_rel V J s' t'"
proof -
  have "view_of V s' = view_of V s" "rd64 s' MBX_RAM_RSP = rd64 s MBX_RAM_RSP"
    using assms(2) by (simp_all add: same_side_def view_of_def rd64_def)
  then show ?thesis using assms J_side [of s s'] by (simp add: ddr3_rel_def)
qed

lemma rel_access:
  assumes "J s'" and "core_eq s' t" and "rd64 s' MBX_RAM_RSP = 0" and "view_of V s' = ram_view t'"
    and "core_eq s' t \<Longrightarrow> core_eq s' t'"
  shows "ddr3_rel V J s' t'"
  using assms by (simp add: ddr3_rel_def has_def)

lemma rel_core: "ddr3_rel V J s t \<Longrightarrow> core_eq s t"
  by (simp add: ddr3_rel_def)

lemma core_put: "core_eq s t \<Longrightarrow> core_eq s (put_ram_byte t off b)" "core_eq s t \<Longrightarrow> core_eq s (put_ram_word t off w)"
  for s :: "'c a2065_scheme"
  by (simp_all add: core_eq_def put_ram_word_def put_ram_byte_def)

text \<open>The four accesses.\<close>

lemma access_sim:
  assumes sv: "serving_fpga fpga V" and r: "ddr3_rel V J s t"
  shows "\<exists>s'. op_rb (ddr3_ops fpga) off s = Some (get_ram_byte t off, s') \<and> ddr3_rel V J s' t"
    and "even off \<Longrightarrow> \<exists>s'. op_rw (ddr3_ops fpga) off s = Some (get_ram_word t off, s') \<and> ddr3_rel V J s' t"
    and "\<exists>s'. op_wb (ddr3_ops fpga) off b s = Some s' \<and> ddr3_rel V J s' (put_ram_byte t off b)"
    and "even off \<Longrightarrow> \<exists>s'. op_ww (ddr3_ops fpga) off w s = Some s' \<and> ddr3_rel V J s' (put_ram_word t off w)"
proof -
  let ?env = "fpga_turn fpga" and ?cb = "Some service_bridge_safe" and ?o = "off AND RAM_MASK"
  have sv': "serves ?env ?cb (view_of V)" using sv by (simp add: serving_fpga_def)
  have j: "J s" and c: "core_eq s t" and v: "view_of V s = ram_view t" and idle: "\<not> has (rd64 s MBX_RAM_RSP) 1"
    using r by (simp_all add: ddr3_rel_def)
  have u: "(ucast ?o :: ram_addr) = ucast off"
    unfolding RAM_MASK_mask by (rule bit_word_eqI) (auto simp: bit_simps)
  have ev: "even_addr ?o = ucast off" if "even off"
    using aligned_halves(2) [of ?o] that u by (simp add: bit_0 even_and_RAM_MASK)
  note reads = remote_reads [OF sv' idle, of ?o] and writes = remote_writes [OF sv' idle, of ?o]
  show "\<exists>s'. op_rb (ddr3_ops fpga) off s = Some (get_ram_byte t off, s') \<and> ddr3_rel V J s' t"
    using reads access_keeps(1) [OF j] core.access_keeps(1) [OF c] rel_access
    by (fastforce simp: ddr3_ops_def remote_ops_def u v flat.get_view)
  show "\<exists>s'. op_rw (ddr3_ops fpga) off s = Some (get_ram_word t off, s') \<and> ddr3_rel V J s' t" if "even off"
    using reads access_keeps(2) [OF j] core.access_keeps(2) [OF c] rel_access
    by (fastforce simp: ddr3_ops_def remote_ops_def ev [OF that] v flat.get_w_view)
  show "\<exists>s'. op_wb (ddr3_ops fpga) off b s = Some s' \<and> ddr3_rel V J s' (put_ram_byte t off b)"
    using writes [of b] access_keeps(3) [OF j] core.access_keeps(3) [OF c] rel_access [OF _ _ _ _ core_put(1)]
    by (fastforce simp: ddr3_ops_def remote_ops_def u v flat.put_view)
  show "\<exists>s'. op_ww (ddr3_ops fpga) off w s = Some s' \<and> ddr3_rel V J s' (put_ram_word t off w)" if "even off"
    using writes [of _ w] access_keeps(4) [OF j] core.access_keeps(4) [OF c] rel_access [OF _ _ _ _ core_put(2)]
    by (fastforce simp: ddr3_ops_def remote_ops_def ev [OF that] v flat.put_w_view)
qed

lemma sim:
  assumes sv: "serving_fpga fpga V"
  shows "ram_sim (ddr3_ops fpga) (Some ddr3_on_interrupt_cb) (None :: ('b a2065_scheme) int_cb) (ddr3_rel V J)"
proof
  fix s :: "'m ddr3_scheme" and t :: "'b a2065_scheme"
  assume r: "ddr3_rel V J s t"
  have int: "call_int (Some ddr3_on_interrupt_cb) s = assert_mbx_int s" by (simp add: call_int_def ddr3_on_interrupt_cb_def)
  show "ddr3_rel V J (call_int (Some ddr3_on_interrupt_cb) s) (call_int None t)"
    unfolding int using r sv by (simp add: ddr3_rel_def view_of_int serving_fpga_def J_int call_int_def)
  show "csr s = csr t \<and> am_initialized s = am_initialized t \<and> am_mode s = am_mode t \<and> am_ladrf s = am_ladrf t \<and>
      am_rdr_rlen s = am_rdr_rlen t \<and> am_rdr_rdra s = am_rdr_rdra t \<and> am_tdr_tlen s = am_tdr_tlen t \<and>
      am_tdr_tdra s = am_tdr_tdra t \<and> tdr_offset s = tdr_offset t \<and> rdr_offset s = rdr_offset t \<and>
      fakemac s = fakemac t \<and> mac s = mac t \<and> crc s = crc t \<and> transmitbuffer s = transmitbuffer t \<and>
      transmitlen s = transmitlen t \<and> loopback_iter s = loopback_iter t \<and> sock_fd s = sock_fd t \<and> sent s = sent t"
    using r by (simp add: ddr3_rel_def core_eq_def)
qed ((rule access_sim [OF sv], assumption+) |
    (frule rel_core, erule rel_upd) | (simp add: same_side_def core_eq_def ram_view_def fun_eq_iff; fail))+

lemma sim_tx:
  assumes sv: "serving_fpga fpga V"
  shows "chip_sim (ddr3_ops fpga) (Some ddr3_on_interrupt_cb) (None :: ('b a2065_scheme) int_cb) (ddr3_rel V J)
    (Some (ddr3_on_transmit_cb fpga tmp0)) (Some (do_transmit None tmp0))"
proof (intro chip_sim.intro chip_sim_axioms.intro sim [OF sv])
  fix s :: "'m ddr3_scheme" and t :: "'b a2065_scheme"
  assume r: "ddr3_rel V J s t" and ev: "even_rings t"
  have retry: "ddr3_rel V J (schedule_tdmd_retry u) v" if "ddr3_rel V J u v" for u and v :: "'b a2065_scheme"
    using that J_retry [of u] by (auto simp: ddr3_rel_def view_of_def schedule_tdmd_retry_def rd64_def core_eq_def)
  have "rel_option (rel_prod (=) (ddr3_rel V J)) (ddr3_do_transmit fpga tmp0 s) (do_transmit None tmp0 t)"
    unfolding ddr3_do_transmit_def
    using ram_sim.do_transmit_sim [OF sim [OF sv] r] ev by (simp add: even_rings_def)
  then show "rel_option (ddr3_rel V J) (call_tx (Some (ddr3_on_transmit_cb fpga tmp0)) s) (call_tx (Some (do_transmit None tmp0)) t)"
    by (cases "ddr3_do_transmit fpga tmp0 s"; cases "do_transmit None tmp0 t") (auto simp: call_tx_def ddr3_on_transmit_cb_def retry)
qed

lemma wput_sim:
  assumes "serving_fpga fpga V" and "ddr3_rel V J s t" and "rap s = rap t" and "even (csr t 1)" "even_rings t"
    and "reg = A2065_RAP_OFF \<Longrightarrow> J (s\<lparr>rap := ucast (v AND 0x7f)\<rparr>)"
  shows "rel_option (ddr3_rel V J) (ddr3_wput fpga tmp0 reg v s) (chip_wput None (Some (do_transmit None tmp0)) reg v t)"
  unfolding ddr3_wput_def
proof (rule chip_sim.chip_wput_sim [OF sim_tx [OF assms(1)] assms(2-5)])
  assume "reg = A2065_RAP_OFF"
  then show "ddr3_rel V J (s\<lparr>rap := ucast (v AND 0x7f)\<rparr>) (t\<lparr>rap := ucast (v AND 0x7f)\<rparr>)"
    using assms(2,6) by (simp add: ddr3_rel_def view_of_def rd64_def core_eq_def ram_view_def fun_eq_iff)
qed

end

interpretation any: side_frame fpga "\<lambda>_. True"
  by unfold_locales simp_all

section \<open>An FPGA that serves its RAM\<close>

text \<open>Its state is the RAM, and it answers at once.\<close>

definition prompt_fpga :: "(ram_addr \<Rightarrow> u8) fpga_fn" where
  "prompt_fpga = (\<lambda>(m, ram).
    (let w = \<lparr>map_w = m, boardram = 0\<rparr>;
         req = rd64 w MBX_RAM_REQ;
         a = ucast (drop_bit 2 req AND 0x7FFE)
     in if has req 1 \<and> \<not> has (rd64 w MBX_RAM_RSP) 1 then
          if bit req 1 then (map_w (wr64 w MBX_RAM_RSP 1), set_word ram a (ucast (drop_bit 17 req)))
          else (map_w (wr64 w MBX_RAM_RSP (1 OR push_bit 1 (ucast (word_at ram a)))), ram)
        else (m, ram)))"

definition ram_of :: "(u32 \<Rightarrow> u8) \<Rightarrow> (ram_addr \<Rightarrow> u8) \<Rightarrow> ram_addr \<Rightarrow> u8" where
  "ram_of m ram = ram"

lemma prompt_fpga_serves: "serving_fpga prompt_fpga ram_of"
  unfolding serving_fpga_def
proof
  show "mailbox_apart ram_of" by (simp add: mailbox_apart_def ram_of_def)
  show "serves (fpga_turn prompt_fpga) (Some service_bridge_safe) (view_of ram_of)"
  proof (rule serves_at_once)
    fix s :: "(ram_addr \<Rightarrow> u8) ddr3_scheme" and off d :: u16 and w
    assume idle: "\<not> has (rd64 s MBX_RAM_RSP) 1" and req: "rd64 s MBX_RAM_REQ = xfer_request off w d"
    have rd: "rd64 (\<lparr>map_w = map_w s, boardram = 0\<rparr> :: window) o' = rd64 s o'" for o' by (simp add: rd64_def)
    have wr: "rd64 (ddr3.more_update (\<lambda>_. x) (s\<lparr>map_w := map_w (wr64 (\<lparr>map_w = map_w s, boardram = 0\<rparr> :: window) o' u)\<rparr>)) o' = u" for x o' u
      using rd64_wr64_same [of "\<lparr>map_w = map_w s, boardram = 0\<rparr> :: window" o' u] by (simp add: rd64_def)
    let ?a = "ucast (off AND 0x7FFE) :: ram_addr"
    show "\<exists>v. rd64 (fpga_turn prompt_fpga s) MBX_RAM_RSP = 1 OR push_bit 1 (ucast (v :: u16)) \<and>
        (if w then view_of ram_of (fpga_turn prompt_fpga s) = set_word (view_of ram_of s) ?a d
         else view_of ram_of (fpga_turn prompt_fpga s) = view_of ram_of s \<and> v = word_at (view_of ram_of s) ?a)"
      unfolding fpga_turn_def prompt_fpga_def Let_def prod.case rd req xfer_request_fields using idle wr [of "ddr3.more s"]
      by (intro exI [of _ "if w then 0 else word_at (ddr3.more s) ?a"]) (cases w, simp_all add: wr view_of_def ram_of_def xfer_request_fields(1))
  qed (simp_all add: view_of_def ram_of_def wr64_def)
qed

text \<open>The state of the DDR3 daemon for a state of the flat chip, with empty slots and the RAM in the FPGA.\<close>

definition ddr3_of :: "a2065 \<Rightarrow> (ram_addr \<Rightarrow> u8) ddr3_scheme" where
  "ddr3_of t = a2065.extend (t\<lparr>map_w := \<lambda>_. 0\<rparr>)
     \<lparr>req_cnt = 0, last_mbx_int = -1, int_hold = 0, deferred_csr0_queue = replicate 8 0, deferred_csr0_head = 0,
      deferred_csr0_tail = 0, tdmd_retry = 0, int_refresh = 0, \<dots> = ram_view t\<rparr>"

lemma ddr3_of_fields [simp]:
  "map_w (ddr3_of t) = (\<lambda>_. 0)" "rap (ddr3_of t) = rap t" "csr (ddr3_of t) = csr t" "core_eq (ddr3_of t) t" "rd64 (ddr3_of t) off = 0"
  "view_of ram_of (ddr3_of t) = ram_view t"
  by (simp_all add: ddr3_of_def a2065.extend_def core_eq_def rd64_def view_of_def ram_of_def)

lemma ddr3_of_rel: "J (ddr3_of t) \<Longrightarrow> ddr3_rel ram_of J (ddr3_of t) t"
  by (simp add: ddr3_rel_def has_def)

section \<open>Refinement\<close>


text \<open>Transmitting through the transfers of the DDR3 build does what the flat build does, with the same answer to
  whether a packet was found and the same frames on the wire.\<close>

theorem ddr3_transmit_refines:
  assumes "serving_fpga fpga V" and "ddr3_rel V (\<lambda>_. True) s t" and "even_rings t"
  shows "rel_option (rel_prod (=) (ddr3_rel V (\<lambda>_. True))) (ddr3_do_transmit fpga tmp0 s) (do_transmit None tmp0 t)"
  unfolding ddr3_do_transmit_def
  using ram_sim.do_transmit_sim [OF any.sim [OF assms(1)] assms(2)] assms(3) by (simp add: even_rings_def)


section \<open>The deferred writes\<close>

text \<open>What the queue is for: the deferred writes done one after the other.\<close>

primrec writes_in_order :: "u8 list \<Rightarrow> u16 list \<Rightarrow> 'b a2065_scheme \<Rightarrow> ('b a2065_scheme) option" where
  "writes_in_order tmp0 [] t = Some t"
| "writes_in_order tmp0 (v # vs) t =
     Option.bind (chip_wput None (Some (do_transmit None tmp0)) A2065_RDP_OFF v t) (writes_in_order tmp0 vs)"

text \<open>An FPGA that raises no register request, and what stays as it is then.\<close>

definition quiet_fpga :: "'m fpga_fn \<Rightarrow> bool" where
  "quiet_fpga fpga \<longleftrightarrow> (\<forall>s. \<not> has (rd64 s MBX_REQ_OFF) 1 \<longrightarrow> \<not> has (rd64 (fpga_turn fpga s) MBX_REQ_OFF) 1)"

definition quiet :: "u8 \<Rightarrow> u16 list \<Rightarrow> nat \<Rightarrow> nat \<Rightarrow> 'm ddr3_scheme \<Rightarrow> bool" where
  "quiet r q h tail s \<longleftrightarrow> \<not> has (rd64 s MBX_REQ_OFF) 1 \<and> rap s = r \<and> deferred_csr0_queue s = q \<and>
     deferred_csr0_head s = h \<and> deferred_csr0_tail s = tail"

lemma quiet_side: "quiet_fpga fpga \<Longrightarrow> side_frame fpga (quiet r q h tail)"
proof
  assume f: "quiet_fpga fpga"
  fix s t :: "'a ddr3_scheme"
  assume q: "quiet r q h tail s"
  then have "\<not> has (rd64 (fpga_turn fpga s) MBX_REQ_OFF) 1" using f by (simp add: quiet_fpga_def quiet_def)
  then show "quiet r q h tail (fpga_turn fpga s)" using q by (simp add: quiet_def) (simp add: fpga_turn_def split: prod.splits)
  show "quiet r q h tail (wr64 s MBX_RAM_REQ v)" "quiet r q h tail (wr64 s MBX_RAM_RSP v)" for v
    using q by (simp_all add: quiet_def) (simp_all add: wr64_def)
  show "call_service (Some service_bridge_safe) s = Some t \<Longrightarrow> quiet r q h tail t"
    using q by (simp add: quiet_def call_service_def service_bridge_safe_def)
  show "quiet r q h tail (assert_mbx_int s)"
    using q by (simp add: quiet_def) (simp add: assert_mbx_int_def Let_def wr64_def)
  show "quiet r q h tail (schedule_tdmd_retry s)"
    using q by (simp add: quiet_def schedule_tdmd_retry_def rd64_def)
  show "same_side s t \<Longrightarrow> quiet r q h tail t"
    using q by (simp add: quiet_def same_side_def rd64_def)
qed

text \<open>A write to CSR0 keeps word-aligned rings and the register select.\<close>

definition csr0_ready :: "'b a2065_scheme \<Rightarrow> bool" where
  "csr0_ready t \<longleftrightarrow> rap t = 0 \<and> even (csr t 1) \<and> even_rings t"

interpretation ready: ring_closed None csr0_ready
  by unfold_locales (simp_all add: csr0_ready_def even_rings_def call_int_def set_csr_def)

lemma ready_csr0_write:
  assumes r: "csr0_ready t" and w: "csr0_write None (Some (do_transmit None tmp0)) v t = Some t'"
  shows "csr0_ready t'"
proof -
  let ?u = "csr0_transition (csr t 0) (set_csr 0 (csr0_merge (csr t 0) v) t)"
  have kept: "rap (chip_init u) = rap u" "csr (chip_init u) = csr u" for u :: "'a a2065_scheme"
    by (simp_all add: chip_init_def chip_init_mask_def rings_reset_loopback_count_def Let_def)
  have "csr ?u 1 = csr t 1" "rap ?u = rap t"
    by (simp_all add: csr0_transition_def Let_def kept rings_enable_def registers_csr0_set_def registers_csr0_clr_def set_csr_def)
  then have u: "csr0_ready ?u" using r by (simp add: csr0_ready_def csr0_transition_even)
  have en: "csr0_ready (rings_enable (registers_csr0_clr CSR0_STOP x))" if "csr0_ready x" for x :: "'a a2065_scheme"
    using that by (simp add: rings_enable_def Let_def ready.P_csr0)
  have tx: "csr0_ready y" if "csr0_ready x" "call_tx (Some (do_transmit None tmp0)) x = Some y" for x y :: "'a a2065_scheme"
    using that ready.P_do_transmit [of x tmp0] by (auto simp: call_tx_def)
  obtain d where d: "csr0_demand (Some (do_transmit None tmp0)) ?u = Some d" and t': "t' = rethink None d"
    using w by (auto simp: csr0_write_def Let_def)
  have "csr0_ready d"
    using d u tx [OF u] tx [OF en [OF u]]
    by (auto simp: csr0_demand_def intro!: ready.P_csr0(2) split: if_splits bind_splits)
  then show ?thesis by (simp add: t' ready.P_rethink)
qed

lemma ready_wput:
  "csr0_ready t \<Longrightarrow> chip_wput None (Some (do_transmit None tmp0)) A2065_RDP_OFF v t = Some t' \<Longrightarrow> csr0_ready t'"
  using ready_csr0_write [of t tmp0 v t'] by (simp add: chip_wput_def csr0_ready_def)

lemma drain_unfold:
  "ddr3_drain fpga tmp0 s =
    (if deferred_csr0_tail s \<noteq> deferred_csr0_head s
     then Option.bind (ddr3_wput fpga tmp0 A2065_RDP_OFF (fst (next_deferred s)) (snd (next_deferred s)))
       (\<lambda>s. ddr3_drain fpga tmp0 (ddr3_int_cleared s))
     else Some s)"
  by (subst ddr3_drain.simps) (simp add: case_prod_beta Let_def)

lemma int_cleared_rel: "ddr3_rel V (\<lambda>_. True) s t \<Longrightarrow> ddr3_rel V (\<lambda>_. True) (ddr3_int_cleared s) t"
  by (auto simp: ddr3_int_cleared_def ddr3_rel_def view_of_def rd64_def core_eq_def)

lemma int_cleared_quiet: "quiet r q h n s \<Longrightarrow> quiet r q h n (ddr3_int_cleared s)"
  by (auto simp: ddr3_int_cleared_def quiet_def rd64_def)

lemma drain_step:
  assumes sv: "serving_fpga fpga V" and qf: "quiet_fpga fpga" and ok: "queue_ok s" and some: "pending s \<noteq> []"
    and r: "ddr3_rel V (\<lambda>_. True) s t" and req: "\<not> has (rd64 s MBX_REQ_OFF) 1" and rap: "rap s = 0" and rdy: "csr0_ready t"
  shows "rel_option (\<lambda>s' t'. ddr3_rel V (\<lambda>_. True) s' t' \<and> \<not> has (rd64 s' MBX_REQ_OFF) 1 \<and> rap s' = 0 \<and> queue_ok s' \<and>
      pending s' = tl (pending s))
    (ddr3_wput fpga tmp0 A2065_RDP_OFF (hd (pending s)) (snd (next_deferred s)))
    (chip_wput None (Some (do_transmit None tmp0)) A2065_RDP_OFF (hd (pending s)) t)"
proof -
  let ?s = "snd (next_deferred s)"
  let ?J = "quiet 0 (deferred_csr0_queue ?s) (deferred_csr0_head ?s) (deferred_csr0_tail ?s)"
  have ok': "queue_ok ?s" and next_p: "pending ?s = tl (pending s)"
    using deferred.get_ok [OF ok some] deferred.get_contents [OF ok some] by (auto dest: arg_cong [of _ _ tl])
  have "?J ?s" using req rap by (simp add: quiet_def next_deferred_def rd64_def)
  then have rJ: "ddr3_rel V ?J ?s t" using r by (simp add: ddr3_rel_def next_deferred_def view_of_def rd64_def core_eq_def)
  have "rel_option (ddr3_rel V ?J) (ddr3_wput fpga tmp0 A2065_RDP_OFF (hd (pending s)) ?s)
      (chip_wput None (Some (do_transmit None tmp0)) A2065_RDP_OFF (hd (pending s)) t)"
    by (rule side_frame.wput_sim [OF quiet_side [OF qf] sv rJ])
      (use rap rdy in \<open>simp_all add: csr0_ready_def next_deferred_def\<close>)
  then show ?thesis
  proof (rule option.rel_mono_strong)
    fix s' t'
    assume "ddr3_rel V ?J s' t'"
    then have "?J s'" "ddr3_rel V (\<lambda>_. True) s' t'" by (simp_all add: ddr3_rel_def)
    then show "ddr3_rel V (\<lambda>_. True) s' t' \<and> \<not> has (rd64 s' MBX_REQ_OFF) 1 \<and> rap s' = 0 \<and> queue_ok s' \<and> pending s' = tl (pending s)"
      using ok' next_p by (simp add: quiet_def queue_ok_def pending_def)
  qed
qed

text \<open>C23: with an FPGA that serves its RAM and raises no register request, the loop that empties the queue returns, and it
  has performed the deferred writes to CSR0 one after the other, oldest first.\<close>

theorem ddr3_drain_in_order:
  assumes "serving_fpga fpga V" and "quiet_fpga fpga" and "queue_ok s"
    and "ddr3_rel V (\<lambda>_. True) s t" and "\<not> has (rd64 s MBX_REQ_OFF) 1" and "rap s = 0" and "csr0_ready t"
  shows "rel_option (\<lambda>s' t'. ddr3_rel V (\<lambda>_. True) s' t' \<and> pending s' = [])
    (ddr3_drain fpga tmp0 s) (writes_in_order tmp0 (pending s) t)"
  using assms(3-7)
proof (induction "pending s" arbitrary: s t)
  case Nil
  then show ?case using pending_empty [of s] by (simp add: drain_unfold)
next
  case (Cons v vs)
  have ne: "pending s \<noteq> []" and v: "hd (pending s) = v" "tl (pending s) = vs" using Cons.hyps(2) by (metis list.distinct(1), metis list.sel(1), metis list.sel(3))
  have "fst (next_deferred s) = v" using deferred.get_contents [OF Cons.prems(1) ne] Cons.hyps(2) by (metis list.inject)
  then have drain: "ddr3_drain fpga tmp0 s = Option.bind (ddr3_wput fpga tmp0 A2065_RDP_OFF v (snd (next_deferred s)))
      (\<lambda>s. ddr3_drain fpga tmp0 (ddr3_int_cleared s))"
    using ne pending_empty [OF Cons.prems(1)] by (simp add: drain_unfold [of _ _ s])
  note step = drain_step [OF assms(1,2) Cons.prems(1) ne Cons.prems(2-5), of tmp0, unfolded v]
  show ?case
    unfolding drain Cons.hyps(2) [symmetric] writes_in_order.simps
  proof (cases "chip_wput None (Some (do_transmit None tmp0)) A2065_RDP_OFF v t")
    case None
    then show "rel_option (\<lambda>s' t'. ddr3_rel V (\<lambda>_. True) s' t' \<and> pending s' = [])
        (Option.bind (ddr3_wput fpga tmp0 A2065_RDP_OFF v (snd (next_deferred s))) (\<lambda>s. ddr3_drain fpga tmp0 (ddr3_int_cleared s)))
        (Option.bind (chip_wput None (Some (do_transmit None tmp0)) A2065_RDP_OFF v t) (writes_in_order tmp0 vs))"
      using step by simp
  next
    case (Some t')
    then obtain s' where s': "ddr3_wput fpga tmp0 A2065_RDP_OFF v (snd (next_deferred s)) = Some s'" "ddr3_rel V (\<lambda>_. True) s' t'"
      "\<not> has (rd64 s' MBX_REQ_OFF) 1" "rap s' = 0" "queue_ok s'" "pending s' = vs"
      using step by (auto simp: option_rel_Some2)
    let ?c = "ddr3_int_cleared s'"
    have c: "queue_ok ?c" "pending ?c = vs" "\<not> has (rd64 ?c MBX_REQ_OFF) 1" "rap ?c = 0"
      using s'(3-6) by (auto simp: ddr3_int_cleared_def queue_ok_def pending_def rd64_def)
    have "rel_option (\<lambda>s' t'. ddr3_rel V (\<lambda>_. True) s' t' \<and> pending s' = []) (ddr3_drain fpga tmp0 ?c) (writes_in_order tmp0 (pending ?c) t')"
      by (rule Cons.hyps(1)) (use c int_cleared_rel [OF s'(2)] ready_wput [OF Cons.prems(5) Some] in simp_all)
    then show "rel_option (\<lambda>s' t'. ddr3_rel V (\<lambda>_. True) s' t' \<and> pending s' = [])
        (Option.bind (ddr3_wput fpga tmp0 A2065_RDP_OFF v (snd (next_deferred s))) (\<lambda>s. ddr3_drain fpga tmp0 (ddr3_int_cleared s)))
        (Option.bind (chip_wput None (Some (do_transmit None tmp0)) A2065_RDP_OFF v t) (writes_in_order tmp0 vs))"
      using Some s'(1) c(2) by simp
  qed
qed

section \<open>Witnesses\<close>

lemma running_even: "even_rings (running m f)"
  by (simp add: even_rings_def)


theorem ddr3_transmit_refines_witness:
  "rel_option (rel_prod (=) (ddr3_rel ram_of (\<lambda>_. True)))
     (ddr3_do_transmit prompt_fpga [] (ddr3_of (running 0 (\<lambda>_. 0x80)))) (do_transmit None [] (running 0 (\<lambda>_. 0x80)))"
  by (rule ddr3_transmit_refines [OF prompt_fpga_serves ddr3_of_rel running_even]) simp


lemma prompt_fpga_quiet: "quiet_fpga prompt_fpga"
proof -
  have rd: "rd64 (ddr3.more_update (\<lambda>_. x) (s\<lparr>map_w := map_w (wr64 (\<lparr>map_w = map_w s, boardram = 0\<rparr> :: window) MBX_RAM_RSP u)\<rparr>)) MBX_REQ_OFF
      = rd64 s MBX_REQ_OFF" for x u and s :: "(ram_addr \<Rightarrow> u8) ddr3_scheme"
    using rd64_wr64_apart [OF slots_mbx_apart(6), of "\<lparr>map_w = map_w s, boardram = 0\<rparr> :: window" u] by (simp add: rd64_def)
  then have "rd64 (fpga_turn prompt_fpga s) MBX_REQ_OFF = rd64 s MBX_REQ_OFF" for s
    using rd [of "ddr3.more s" s] by (simp add: fpga_turn_def prompt_fpga_def Let_def)
  then show ?thesis by (simp add: quiet_fpga_def)
qed

theorem ddr3_drain_in_order_witness:
  "\<exists>s'. ddr3_drain prompt_fpga [] (defer_csr0 CSR0_INEA (ddr3_of (registers_reset (static_init 0)))) = Some s' \<and> pending s' = []"
proof -
  let ?t = "registers_reset (static_init 0)"
  let ?s = "defer_csr0 CSR0_INEA (ddr3_of ?t)"
  have q: "queue_ok (ddr3_of ?t)" "pending (ddr3_of ?t) = []"
    by (simp_all add: ddr3_of_def a2065.extend_def queue_ok_def pending_def)
  have p: "pending ?s = [CSR0_INEA]" using defer_pending [OF q(1)] by (simp add: q(2))
  have rel: "ddr3_rel ram_of (\<lambda>_. True) ?s ?t"
    using ddr3_of_rel [of "\<lambda>_. True" ?t] by (simp add: ddr3_rel_def defer_csr0_def Let_def view_of_def rd64_def core_eq_def)
  have idle: "\<not> has (rd64 ?s MBX_REQ_OFF) 1" "rap ?s = 0"
    by (simp_all add: has_def defer_csr0_def Let_def rd64_def registers_reset_def)
  have rdy: "csr0_ready ?t"
    by (simp add: csr0_ready_def even_rings_def registers_reset_def static_init_def)
  have "\<exists>t'. writes_in_order [] [CSR0_INEA] ?t = Some t'"
    by (simp add: chip_wput_def csr0_write_def csr0_demand_def csr0_transition_def csr0_merge_def registers_reset_def has_def set_csr_def Let_def)
  then show ?thesis
    using ddr3_drain_in_order [OF prompt_fpga_serves prompt_fpga_quiet deferred.put_ok [OF q(1)] rel idle rdy, of "[]"]
    by (auto simp: p option_rel_Some2)
qed

end
