(* ===== verification/Chip_Closed.thy ===== *)
theory Chip_Closed
  imports Chip_Ops
begin

text \<open>
  Invariants of the chip over arbitrary board RAM accesses. The locale \<open>ops_closed\<close> is the interface: a predicate
  that the four accesses, the interrupt callback and assignments to chip variables keep. Every operation of
  \<open>Chip_Ops\<close> then keeps it, whatever the accesses return. The rules of \<open>holds\<close> walk through the definitions.
\<close>

locale ops_closed =
  fixes ops :: "('a a2065_scheme) ram_ops" and on_int :: "('a a2065_scheme) int_cb" and P :: "'a a2065_scheme \<Rightarrow> bool"
  assumes P_rb: "P s \<Longrightarrow> holds (\<lambda>(_, s). P s) (op_rb ops off s)"
    and P_rw: "P s \<Longrightarrow> holds (\<lambda>(_, s). P s) (op_rw ops off s)"
    and P_wb: "P s \<Longrightarrow> holds P (op_wb ops off b s)"
    and P_ww: "P s \<Longrightarrow> holds P (op_ww ops off w s)"
    and P_int: "P s \<Longrightarrow> P (call_int on_int s)"
    and P_set_csr: "P s \<Longrightarrow> P (set_csr k c s)"
    and P_upd: "P s \<Longrightarrow> P (s\<lparr>rdr_offset := n\<rparr>)" "P s \<Longrightarrow> P (s\<lparr>tdr_offset := n\<rparr>)" "P s \<Longrightarrow> P (s\<lparr>crc := cu\<rparr>)"
      "P s \<Longrightarrow> P (s\<lparr>loopback_iter := n\<rparr>)" "P s \<Longrightarrow> P (s\<lparr>transmitbuffer := bf\<rparr>)" "P s \<Longrightarrow> P (s\<lparr>transmitlen := n\<rparr>)"
      "P s \<Longrightarrow> P (s\<lparr>sent := fs\<rparr>)" "P s \<Longrightarrow> P (s\<lparr>rap := r\<rparr>)" "P s \<Longrightarrow> P (s\<lparr>am_initialized := ai\<rparr>)" "P s \<Longrightarrow> P (s\<lparr>am_mode := m\<rparr>)"
      "P s \<Longrightarrow> P (s\<lparr>am_ladrf := l\<rparr>)" "P s \<Longrightarrow> P (s\<lparr>am_rdr_rlen := u\<rparr>)" "P s \<Longrightarrow> P (s\<lparr>am_rdr_rdra := u\<rparr>)"
      "P s \<Longrightarrow> P (s\<lparr>am_tdr_tlen := u\<rparr>)" "P s \<Longrightarrow> P (s\<lparr>am_tdr_tdra := u\<rparr>)" "P s \<Longrightarrow> P (s\<lparr>fakemac := fm\<rparr>)" "P s \<Longrightarrow> P (s\<lparr>mac := mu\<rparr>)"
begin

section \<open>Rules\<close>

lemma rb_rule: "P s \<Longrightarrow> (\<And>b s'. P s' \<Longrightarrow> holds Q (f (b, s'))) \<Longrightarrow> holds Q (Option.bind (op_rb ops off s) f)"
  by (erule P_rb [THEN holds_bind]) auto

lemma rw_rule: "P s \<Longrightarrow> (\<And>w s'. P s' \<Longrightarrow> holds Q (f (w, s'))) \<Longrightarrow> holds Q (Option.bind (op_rw ops off s) f)"
  by (erule P_rw [THEN holds_bind]) auto

lemma ww_rule: "P s \<Longrightarrow> (\<And>s'. P s' \<Longrightarrow> holds Q (f s')) \<Longrightarrow> holds Q (Option.bind (op_ww ops off w s) f)"
  by (erule P_ww [THEN holds_bind]) auto

lemma P_read_block: "P s \<Longrightarrow> holds (\<lambda>(_, s). P s) (ram_read_block_r ops off n s)"
proof (induction n arbitrary: s off)
  case (Suc n)
  then show ?case by (auto intro!: rb_rule Suc.IH [THEN holds_bind])
qed simp

lemma P_write_block: "P s \<Longrightarrow> holds P (ram_write_block_r ops off bs s)"
proof (induction bs arbitrary: s off)
  case (Cons b bs)
  then show ?case by (auto intro: P_wb [THEN holds_bind])
qed simp

lemma read_block_rule: "P s \<Longrightarrow> (\<And>b s'. P s' \<Longrightarrow> holds Q (f (b, s'))) \<Longrightarrow> holds Q (Option.bind (ram_read_block_r ops off n s) f)"
  by (erule P_read_block [THEN holds_bind]) auto

lemma write_block_rule: "P s \<Longrightarrow> (\<And>s'. P s' \<Longrightarrow> holds Q (f s')) \<Longrightarrow> holds Q (Option.bind (ram_write_block_r ops off bs s) f)"
  by (erule P_write_block [THEN holds_bind]) auto

lemma P_csr0: "P s \<Longrightarrow> P (registers_csr0_set v s)" "P s \<Longrightarrow> P (registers_csr0_clr v s)"
  by (simp_all add: registers_csr0_set_def registers_csr0_clr_def P_set_csr)

lemma P_rethink: "P s \<Longrightarrow> P (rethink on_int s)"
  by (simp add: rethink_eq Let_def P_set_csr P_int)

section \<open>Receive\<close>

lemma P_rx_desc:
  assumes "P s"
  shows "holds (\<lambda>r. case r of Inl (_, t) \<Rightarrow> P t | Inr (_, t) \<Rightarrow> P t) (rx_desc_r ops on_int rdra rlen d len insize first s)"
  unfolding rx_desc_r_def Let_def
  apply (rule rw_rule, rule P_upd(1) [OF assms], simp only: prod.case)
  apply (rule rw_rule, assumption, simp only: prod.case)+
  apply (rule holds_if)
   apply (simp only: prod.case_distrib split: prod.split)
   apply (auto intro!: ww_rule P_csr0 P_rethink) [1]
  apply (rule holds_pure, rule write_block_rule, erule P_upd)
  apply (auto intro!: ww_rule)
  done

lemma P_rx_loop: "P s \<Longrightarrow> holds (\<lambda>(_, t). P t) (rx_loop_r ops on_int rdra rlen d len insize first s)"
proof (induction "len - insize" arbitrary: insize first s rule: less_induct)
  case less
  note step = P_rx_desc [OF less.prems, of rdra rlen d len insize first]
  show ?case
  proof (cases "rx_desc_r ops on_int rdra rlen d len insize first s")
    case (Some r)
    show ?thesis
    proof (cases r)
      case (Inr q)
      obtain n s' where q: "q = (n, s')" by (cases q)
      have "len - n < len - insize" using rx_desc_r_progress [OF Some [unfolded Inr q]] by linarith
      from less.hyps [OF this, of s' False] step Some show ?thesis
        by (simp add: rx_loop_r.simps [of ops on_int rdra rlen d len insize] Inr q)
    qed (use step Some in \<open>simp add: rx_loop_r.simps\<close>)
  qed (simp add: rx_loop_r.simps)
qed

lemma P_rx_append_fcs: "P s \<Longrightarrow> holds (\<lambda>(_, t). P t) (rx_append_fcs d len s)"
  unfolding rx_append_fcs_def Let_def by (auto intro!: holds_pure P_upd)

lemma P_gotfunc: "P s \<Longrightarrow> holds P (gotfunc_r ops on_int tmp0 databuf len s)"
proof -
  assume s: "P s"
  have deliver: "holds P (rx_deliver_r ops on_int rlen d len u)" if "P u" for u rlen d
    unfolding rx_deliver_r_def rx_finish_def Let_def using that
    by (auto intro!: P_rx_append_fcs [THEN holds_bind] P_rx_loop [THEN holds_bind] P_upd P_rethink P_csr0)
  have filter: "P (snd (rx_filter fm d s))" for fm d
    using rx_filter_crc [of fm d s] s by (auto intro: P_upd)
  show ?thesis
    unfolding gotfunc_r_def Let_def case_prod_beta
    by (intro holds_if holds_pure deliver filter) (simp_all add: s filter)
qed

section \<open>Transmit\<close>

lemma P_tx_desc:
  assumes "P s"
  shows "holds (\<lambda>r. case r of Inl (_, t) \<Rightarrow> P t | Inr (_, t) \<Rightarrow> P t) (tx_desc_r ops tdra tlen outsize s)"
  unfolding tx_desc_r_def Let_def
  apply (rule rw_rule, rule P_upd(2) [OF assms], simp only: prod.case)
  apply (rule rw_rule, assumption, simp only: prod.case)+
  apply (rule holds_if)
   apply (auto intro!: ww_rule P_csr0) [1]
  apply (rule holds_if)
   apply (auto intro!: ww_rule) [1]
  apply (rule read_block_rule, assumption, simp only: prod.case)
  apply (rule holds_pure, rule holds_pure)
  apply (auto intro!: holds_if ww_rule P_upd)
  done

lemma P_tx_loop: "P s \<Longrightarrow> holds (\<lambda>(_, t). P t) (tx_loop_r ops tdra tlen outsize s)"
proof (induction "MAX_PACKET_SIZE - outsize" arbitrary: outsize s rule: less_induct)
  case less
  note step = P_tx_desc [OF less.prems, of tdra tlen outsize]
  show ?case
  proof (cases "tx_desc_r ops tdra tlen outsize s")
    case (Some r)
    show ?thesis
    proof (cases r)
      case (Inr q)
      obtain n s' where q: "q = (n, s')" by (cases q)
      have "MAX_PACKET_SIZE - n < MAX_PACKET_SIZE - outsize" using tx_desc_r_progress [OF Some [unfolded Inr q]] by linarith
      from less.hyps [OF this, of s'] step Some show ?thesis
        by (simp add: tx_loop_r.simps [of ops tdra tlen outsize] Inr q)
    qed (use step Some in \<open>simp add: tx_loop_r.simps\<close>)
  qed (simp add: tx_loop_r.simps)
qed

lemma P_tx_scan: "P s \<Longrightarrow> holds (\<lambda>(_, t). P t) (tx_scan_r ops tdra n start i w s)"
proof (induction "n - i" arbitrary: i w s rule: less_induct)
  case less
  show ?case
  proof (cases "i < n")
    case True
    let ?s = "s\<lparr>tdr_offset := (start + i) mod n\<rparr>"
    have "holds (\<lambda>(_, t). P t) (op_rw ops (tdra + of_nat ((start + i) mod n) * 8 + 2) ?s)"
      by (rule P_rw [OF P_upd(2) [OF less.prems]])
    moreover have "n - (i + 1) < n - i" using True by simp
    ultimately show ?thesis
      using less.hyps [of "i + 1"] True
      by (auto simp: tx_scan_r.simps [of ops tdra n start i] Let_def split: option.splits)
  qed (use less.prems in \<open>simp add: tx_scan_r.simps\<close>)
qed

lemma P_tx_find: "P s \<Longrightarrow> holds (\<lambda>(_, t). P t) (tx_find_r ops tdra tlen s)"
  unfolding tx_find_r_def Let_def
  by (auto intro!: rw_rule P_tx_scan [THEN holds_bind] P_upd)

lemma P_put_status: "P s \<Longrightarrow> holds P (put_status_r ops off w1 w3 s)"
  unfolding put_status_r_def by (auto intro!: ww_rule P_ww)

lemma P_ethernet_send: "P s \<Longrightarrow> holds P (ethernet_send f n s)"
  unfolding ethernet_send_def by (auto intro!: holds_pure P_upd)

lemma P_tx_dispatch: "P s \<Longrightarrow> holds P (tx_dispatch_r ops on_int tmp0 fcs l s)"
  unfolding tx_dispatch_r_def Let_def
  apply (intro holds_if)
    apply (erule P_put_status)
   apply (erule P_put_status [THEN holds_bind], erule P_gotfunc)
  apply (rule holds_pure, rule holds_if)
   apply (erule P_put_status)
  apply (erule P_put_status [THEN holds_bind])
  apply (rule holds_pure)
  apply (simp only: case_prod_beta)
  apply (intro P_ethernet_send P_upd, assumption)
  done

lemma P_do_transmit: "P s \<Longrightarrow> holds (\<lambda>(_, t). P t) (do_transmit_r ops on_int tmp0 s)"
proof -
  assume s: "P s"
  have tint: "P (rethink on_int (registers_csr0_set CSR0_TINT u))" if "P u" for u using that by (simp add: P_rethink P_csr0)
  have gathered: "holds (\<lambda>(_, t). P t)
      (if tx_err l then Some (1 :: nat, rethink on_int (registers_csr0_set CSR0_TINT u))
       else if c then do {
         s \<leftarrow> op_ww ops o1 w1 (registers_csr0_clr CSR0_TXON u);
         s \<leftarrow> op_ww ops o2 w2 s;
         Some (1, rethink on_int (registers_csr0_set CSR0_TINT s))
       } else do {
         s \<leftarrow> tx_dispatch_r ops on_int tmp0 fcs l u;
         Some (1, rethink on_int (registers_csr0_set CSR0_TINT s))
       })" if "P u" for l u c o1 w1 o2 w2 fcs
    using that by (auto intro!: ww_rule P_csr0 tint P_tx_dispatch [THEN holds_bind])
  show ?thesis
    unfolding do_transmit_r_def Let_def
    apply (intro holds_if; (simp add: s; fail)?)
    apply (rule P_tx_find [OF s, THEN holds_bind])
    apply (clarsimp split: option.split)
    apply (erule P_tx_loop [THEN holds_bind])
    apply (simp only: case_prod_beta)
    apply (rule gathered, assumption)
    done
qed

section \<open>Registers\<close>

lemma P_rings_enable: "P s \<Longrightarrow> P (rings_enable s)"
  by (simp add: rings_enable_def Let_def P_csr0)

lemma P_chip_init_mask: "P s \<Longrightarrow> P (chip_init_mask s)"
  by (simp add: chip_init_mask_def P_upd)

lemma P_chip_init: "P s \<Longrightarrow> holds P (chip_init_r ops s)"
  unfolding chip_init_r_def Let_def rings_reset_loopback_count_def
  by (auto intro!: rw_rule rb_rule P_upd P_chip_init_mask)

lemma P_csr0_transition: "P s \<Longrightarrow> holds P (csr0_transition_r ops oreg s)"
  unfolding csr0_transition_r_def Let_def
  by (auto intro!: P_chip_init [THEN holds_bind] P_set_csr P_csr0 P_upd P_rings_enable)

lemma P_chip_wput:
  assumes tx: "\<And>s. P s \<Longrightarrow> holds P (call_tx on_tx s)" and s: "P s"
  shows "holds P (chip_wput_r ops on_int on_tx reg v s)"
proof -
  have demand: "holds P (csr0_demand on_tx u)" if "P u" for u
    unfolding csr0_demand_def using that
    by (auto intro!: holds_bind [where A = P] tx P_csr0 P_rings_enable)
  have "holds P (csr0_write_r ops on_int on_tx v s)"
    unfolding csr0_write_r_def Let_def
    by (rule P_csr0_transition [THEN holds_bind], simp add: P_set_csr s, erule demand [THEN holds_bind], simp add: P_rethink)
  moreover have "holds P (chip_wput on_int on_tx reg v s)" if "\<not> (reg \<noteq> A2065_RAP_OFF \<and> \<not> RAP_SIZE \<le> rap s \<and> rap s = 0)"
    using that by (auto simp: chip_wput_def P_set_csr P_upd P_chip_init_mask s)
  ultimately show ?thesis by (simp add: chip_wput_r_def)
qed

end

end
