(* ===== verification/Ddr3_Serve.thy ===== *)
theory Ddr3_Serve
  imports Ddr3_Chip Chip_Closed
begin

text \<open>
  The DDR3 daemon as a whole: what the service inside a transfer does, which invariant every turn of the main loop
  and of the receive thread keeps whatever the FPGA answers, when the interrupt line follows the chip, and the two
  test modes.
\<close>

section \<open>Requests\<close>

text \<open>A request as the FPGA builds it.\<close>

definition mbx_request :: "bool \<Rightarrow> u8 \<Rightarrow> u16 \<Rightarrow> u64" where
  "mbx_request rw addr data = 1 OR push_bit 1 (if rw then 1 else 0) OR push_bit 2 (ucast addr) OR push_bit 10 (ucast data)"

lemma bit_mbx_request:
  "bit (mbx_request rw addr data) n \<longleftrightarrow>
     n = 0 \<or> (n = 1 \<and> rw) \<or> (2 \<le> n \<and> n < 10 \<and> bit addr (n - 2)) \<or> (10 \<le> n \<and> n < 26 \<and> bit data (n - 10))"
  by (auto simp: mbx_request_def bit_simps bit_1_iff simp del: push_bit_Suc dest: bit_imp_le_length)

lemma mbx_request_fields [simp]:
  "has (mbx_request rw addr data) 1" "req_rw (mbx_request rw addr data) = rw"
  "req_addr (mbx_request rw addr data) = ucast addr" "req_data (mbx_request rw addr data) = data"
proof -
  let ?r = "mbx_request rw addr data"
  have m: "(0xFF :: u64) = mask 8" "(0xFFFF :: u64) = mask 16" by (simp_all add: mask_eq_exp_minus_1)
  have "bit (?r AND 1) 0" by (simp add: bit_simps bit_mbx_request)
  then show "has ?r 1" by (auto simp: has_def)
  show "req_rw ?r = rw" by (simp add: req_rw_def bit_mbx_request)
  show "req_addr ?r = ucast addr" unfolding req_addr_def m
    by (rule bit_word_eqI) (auto simp: bit_simps bit_mbx_request dest: bit_imp_le_length)
  show "req_data ?r = data" unfolding req_data_def m
    by (rule bit_word_eqI) (auto simp: bit_simps bit_mbx_request)
qed

lemma ucast_u8_u16 [simp]: "(ucast (ucast a :: u16) :: u8) = a" for a :: u8
  by (rule bit_word_eqI) (auto simp: bit_simps)

lemma ucast_u8_inj: "(ucast a :: u16) = ucast b \<longleftrightarrow> a = b" for a b :: u8
proof
  assume "(ucast a :: u16) = ucast b"
  then have "(ucast (ucast a :: u16) :: u8) = ucast (ucast b :: u16)" by simp
  then show "a = b" by simp
qed simp

definition acknowledged :: "bool \<Rightarrow> u8 \<Rightarrow> 'm ddr3_scheme \<Rightarrow> 'm ddr3_scheme" where
  "acknowledged rw addr s =
     wr64 (wr64 (s\<lparr>req_cnt := req_cnt s + 1\<rparr>) MBX_RSP_OFF (1 OR push_bit 1 (ucast (if rw then 0 else chip_wget addr s)))) MBX_REQ_OFF 0"

lemma acknowledged_slots [simp]:
  "rd64 (acknowledged rw addr s) MBX_REQ_OFF = 0"
  "rd64 (acknowledged rw addr s) MBX_RSP_OFF = 1 OR push_bit 1 (ucast (if rw then 0 else chip_wget addr s))"
  by (simp_all add: acknowledged_def)

lemma acknowledged_fields [simp]:
  "rap (acknowledged rw addr s) = rap s" "deferred_csr0_queue (acknowledged rw addr s) = deferred_csr0_queue s"
  "deferred_csr0_head (acknowledged rw addr s) = deferred_csr0_head s" "deferred_csr0_tail (acknowledged rw addr s) = deferred_csr0_tail s"
  "csr (acknowledged rw addr s) = csr s" "queue_ok (acknowledged rw addr s) = queue_ok s" "pending (acknowledged rw addr s) = pending s"
  "core_eq (acknowledged rw addr s) t = core_eq s t" "req_cnt (acknowledged rw addr s) = req_cnt s + 1"
  by (simp_all add: acknowledged_def wr64_def queue_ok_def pending_def core_eq_def)

lemma safe_service_eq:
  assumes "rd64 s MBX_REQ_OFF = mbx_request rw addr data" and "req_cnt s < INT_MAX"
  shows "service_bridge_safe s = Some
    (if rw \<and> addr = A2065_RAP_OFF then (acknowledged rw addr s)\<lparr>rap := ucast (data AND 0x7f)\<rparr>
     else if rw \<and> addr = A2065_RDP_OFF then defer_csr0 data (acknowledged rw addr s)
     else acknowledged rw addr s)"
proof -
  have z: "(ucast addr :: u16) = 0 \<longleftrightarrow> addr = 0" using ucast_u8_inj [of addr 0] by simp
  have n: "int_incr (req_cnt s) = Some (req_cnt s + 1)" using assms(2) by (simp add: int_incr_def)
  show ?thesis
    unfolding service_bridge_safe_def assms(1) mbx_request_fields Let_def n bind.bind_lunit ucast_u8_u16 z ucast_u8_inj
    by (simp add: acknowledged_def chip_wput_def)
qed

lemma defer_fields [simp]:
  "rap (defer_csr0 d s) = rap s" "core_eq (defer_csr0 d s) t = core_eq s t" "rd64 (defer_csr0 d s) off = rd64 s off" "csr (defer_csr0 d s) = csr s"
  "req_cnt (defer_csr0 d s) = req_cnt s"
  by (simp_all add: defer_csr0_def Let_def core_eq_def rd64_def)

lemma rap_fields [simp]:
  "rd64 (s\<lparr>rap := r\<rparr>) off = rd64 s off" "core_eq (s\<lparr>rap := r\<rparr>) t = core_eq s t" "pending (s\<lparr>rap := r\<rparr>) = pending s"
  "queue_ok (s\<lparr>rap := r\<rparr>) = queue_ok s"
  by (simp_all add: rd64_def core_eq_def pending_def queue_ok_def)

text \<open>C25: inside a transfer a register request is answered at once and its slot freed. A read returns the register, a
  write to the address port selects a register, a write to the data port is queued; nothing else of the chip changes.\<close>

theorem safe_service_answers:
  assumes "rd64 s MBX_REQ_OFF = mbx_request rw addr data" and "req_cnt s < INT_MAX" and "queue_ok s"
  shows "\<exists>t. service_bridge_safe s = Some t \<and> rd64 t MBX_REQ_OFF = 0 \<and>
    rd64 t MBX_RSP_OFF = 1 OR push_bit 1 (ucast (if rw then 0 else chip_wget addr s)) \<and> core_eq t s \<and>
    rap t = (if rw \<and> addr = A2065_RAP_OFF then ucast (data AND 0x7f) else rap s) \<and>
    pending t = (if rw \<and> addr = A2065_RDP_OFF \<and> length (pending s) < 7 then pending s @ [data] else pending s)"
proof -
  let ?u = "acknowledged rw addr s"
  have "core_eq s s" by (simp add: core_eq_def)
  then show ?thesis
    unfolding safe_service_eq [OF assms(1,2)]
    using defer_pending [of ?u data] assms(3) by auto
qed

section \<open>A deferred write forgets its register\<close>

lemma drain_single:
  assumes ok: "queue_ok s" and one: "pending s = [v]" and w: "ddr3_wput fpga tmp0 A2065_RDP_OFF v (snd (next_deferred s)) = Some t"
    and kept: "pending t = pending (snd (next_deferred s))" "queue_ok t"
  shows "ddr3_drain fpga tmp0 s = Some (ddr3_int_cleared t)"
proof -
  have ne: "pending s \<noteq> []" using one by simp
  have "fst (next_deferred s) = v" "pending t = []" using deferred.get_contents [OF ok ne] one kept by simp_all
  then have "deferred_csr0_tail t = deferred_csr0_head t" using pending_empty [OF kept(2)] by simp
  then have "ddr3_drain fpga tmp0 (ddr3_int_cleared t) = Some (ddr3_int_cleared t)"
    by (simp add: drain_unfold ddr3_int_cleared_def)
  then show ?thesis
    using \<open>fst (next_deferred s) = v\<close> pending_empty [OF ok] ne w by (simp add: drain_unfold [of _ _ s])
qed

lemma wr64_queue [simp]:
  "queue_ok (wr64 s off v) = queue_ok s" "pending (wr64 s off v) = pending s" "rap (wr64 s off v) = rap s" "csr (wr64 s off v) = csr s"
  "req_cnt (wr64 s off v) = req_cnt s" "queue_ok (set_csr k c s) = queue_ok s" "pending (set_csr k c s) = pending s"
  by (simp_all add: wr64_def set_csr_def queue_ok_def pending_def)

text \<open>C39: a write to the data port that is deferred goes to the register selected when the queue is emptied, not to the
  one selected when it was made: after a write meant for CSR1, a register select of CSR2 in the same transfer
  redirects it to CSR2.\<close>

theorem deferred_write_misdirected:
  assumes "queue_ok s" and "pending s = []" and "rap s = 1" and "has (csr s 0) CSR0_STOP" and "req_cnt s + 1 < INT_MAX"
  shows "\<exists>t. do {
      s \<leftarrow> service_bridge_safe (wr64 s MBX_REQ_OFF (mbx_request True A2065_RDP_OFF v));
      s \<leftarrow> service_bridge_safe (wr64 s MBX_REQ_OFF (mbx_request True A2065_RAP_OFF 2));
      ddr3_drain fpga tmp0 s
    } = Some t \<and> csr t 1 = csr s 1 \<and> csr t 2 = v AND 0x00ff"
proof -
  define s1 where "s1 = defer_csr0 v (acknowledged True A2065_RDP_OFF (wr64 s MBX_REQ_OFF (mbx_request True A2065_RDP_OFF v)))"
  define s2 where "s2 = (acknowledged True A2065_RAP_OFF (wr64 s1 MBX_REQ_OFF (mbx_request True A2065_RAP_OFF 2)))\<lparr>rap := 2\<rparr>"
  have 1: "service_bridge_safe (wr64 s MBX_REQ_OFF (mbx_request True A2065_RDP_OFF v)) = Some s1"
    using safe_service_eq [of "wr64 s MBX_REQ_OFF (mbx_request True A2065_RDP_OFF v)" True A2065_RDP_OFF v] assms(5) by (simp add: s1_def)
  have 2: "service_bridge_safe (wr64 s1 MBX_REQ_OFF (mbx_request True A2065_RAP_OFF 2)) = Some s2"
    using safe_service_eq [of "wr64 s1 MBX_REQ_OFF (mbx_request True A2065_RAP_OFF 2)" True A2065_RAP_OFF 2] assms(5)
    by (simp add: s2_def) (simp add: s1_def)
  have ok: "queue_ok s2" using assms(1) by (simp add: s2_def s1_def deferred.put_ok)
  have p: "pending s2 = [v]" using assms(1,2) by (simp add: s2_def s1_def defer_pending)
  let ?n = "snd (next_deferred s2)"
  let ?t = "set_csr 2 (v AND 0x00ff) ?n"
  have n: "rap ?n = 2" "csr ?n = csr s" by (simp_all add: next_deferred_def s2_def s1_def)
  have "ddr3_wput fpga tmp0 A2065_RDP_OFF v ?n = Some ?t"
    using assms(4) by (simp add: ddr3_wput_def chip_wput_r_def chip_wput_def n)
  then have "ddr3_drain fpga tmp0 s2 = Some (ddr3_int_cleared ?t)"
    by (rule drain_single [OF ok p]) (use deferred.get_ok [OF ok] p in simp_all)
  then show ?thesis using n by (simp add: 1 2 ddr3_int_cleared_def)
qed

section \<open>What every operation of the daemon keeps\<close>

locale turn_frame = side_frame +
  assumes J_rap: "J s \<Longrightarrow> J (s\<lparr>rap := r\<rparr>)"

sublocale turn_frame \<subseteq> chip: ops_closed "ddr3_ops fpga" "Some ddr3_on_interrupt_cb" J
proof
  fix s :: "'a ddr3_scheme"
  assume j: "J s"
  show "holds (\<lambda>(_, s). J s) (op_rb (ddr3_ops fpga) off s)" "holds (\<lambda>(_, s). J s) (op_rw (ddr3_ops fpga) off s)"
    "holds J (op_wb (ddr3_ops fpga) off b s)" "holds J (op_ww (ddr3_ops fpga) off w s)" for off b w
    using access_keeps [OF j] by (auto simp: holds_iff ddr3_ops_def remote_ops_def)
  show "J (call_int (Some ddr3_on_interrupt_cb) s)"
    using J_int [OF j] by (simp add: call_int_def ddr3_on_interrupt_cb_def)
  show "J (s\<lparr>rap := r\<rparr>)" for r using J_rap [OF j] .
  show "J (set_csr k c s)" for k c by (rule J_side [OF j]) (simp add: same_side_def set_csr_def)
qed (erule J_side; simp add: same_side_def)+

context turn_frame
begin

lemma transmit_keeps: "J s \<Longrightarrow> holds (\<lambda>(_, t). J t) (ddr3_do_transmit fpga tmp0 s)"
  unfolding ddr3_do_transmit_def by (rule chip.P_do_transmit)

lemma wput_keeps: "J s \<Longrightarrow> holds J (ddr3_wput fpga tmp0 reg v s)"
proof -
  have "holds J (call_tx (Some (ddr3_on_transmit_cb fpga tmp0)) u)" if "J u" for u
    using transmit_keeps [OF that, of tmp0] J_retry
    by (cases "ddr3_do_transmit fpga tmp0 u") (auto simp: call_tx_def ddr3_on_transmit_cb_def)
  then show "J s \<Longrightarrow> ?thesis" unfolding ddr3_wput_def by (rule chip.P_chip_wput)
qed

lemma rx_keeps: "J s \<Longrightarrow> holds (\<lambda>(_, t). J t) (ddr3_rx fpga tmp0 answer rxbuf s)"
  unfolding ddr3_rx_def
  by (rule holds_pure, simp only: case_prod_beta, rule holds_if, erule chip.P_gotfunc [THEN holds_bind]) simp_all

end

lemma queue_ok_simps [simp]:
  "queue_ok (fpga_turn fpga s) = queue_ok s" "queue_ok (assert_mbx_int s) = queue_ok s" "queue_ok (schedule_tdmd_retry s) = queue_ok s"
  "queue_ok (s\<lparr>req_cnt := n\<rparr>) = queue_ok s" "queue_ok (s\<lparr>int_hold := k\<rparr>) = queue_ok s" "queue_ok (s\<lparr>tdmd_retry := k\<rparr>) = queue_ok s"
  by (simp_all add: queue_ok_def fpga_turn_def assert_mbx_int_def schedule_tdmd_retry_def wr64_def Let_def split: prod.splits)

text \<open>Inside a transfer the service touches its two slots and the head of the queue.\<close>

lemma service_cases:
  assumes "service_bridge_safe s = Some t"
  obtains "t = s"
  | n r d where "t = wr64 (wr64 (s\<lparr>req_cnt := n\<rparr>) MBX_RSP_OFF r) MBX_REQ_OFF 0"
  | n r a where "t = (wr64 (wr64 (s\<lparr>req_cnt := n\<rparr>) MBX_RSP_OFF r) MBX_REQ_OFF 0)\<lparr>rap := a\<rparr>"
  | n r d where "t = defer_csr0 d (wr64 (wr64 (s\<lparr>req_cnt := n\<rparr>) MBX_RSP_OFF r) MBX_REQ_OFF 0)"
  using assms by (auto simp: service_bridge_safe_def Let_def chip_wput_def split: if_splits bind_splits)

interpretation dq: turn_frame fpga queue_ok
proof
  fix s t :: "'a ddr3_scheme"
  assume q: "queue_ok s"
  show "call_service (Some service_bridge_safe) s = Some t \<Longrightarrow> queue_ok t"
    using q by (auto simp: call_service_def deferred.put_ok elim!: service_cases)
  show "same_side s t \<Longrightarrow> queue_ok t" using q by (simp add: queue_ok_def same_side_def)
qed simp_all

section \<open>The invariant of the daemon\<close>

definition int_agrees :: "'m ddr3_scheme \<Rightarrow> bool" where
  "int_agrees s \<longleftrightarrow> last_mbx_int s = -1 \<or> (last_mbx_int s = 0 \<and> rd64 s MBX_INT_OFF = 0) \<or> (last_mbx_int s = 1 \<and> rd64 s MBX_INT_OFF = 1)"

definition ddr3_inv :: "'m ddr3_scheme \<Rightarrow> bool" where
  "ddr3_inv s \<longleftrightarrow> queue_ok s \<and> int_agrees s \<and> int_hold s \<le> INT_HOLD_ITER \<and> tdmd_retry s \<le> 16 \<and> int_refresh s < 10"

definition keeps_int :: "'m fpga_fn \<Rightarrow> bool" where
  "keeps_int fpga \<longleftrightarrow> (\<forall>s. rd64 (fpga_turn fpga s) MBX_INT_OFF = rd64 s MBX_INT_OFF)"

lemma ddr3_inv_simps [simp]:
  "apart off MBX_INT_OFF \<Longrightarrow> ddr3_inv (wr64 s off v) = ddr3_inv s" "ddr3_inv (s\<lparr>req_cnt := n\<rparr>) = ddr3_inv s" "ddr3_inv (s\<lparr>rap := r\<rparr>) = ddr3_inv s"
  by (simp_all add: ddr3_inv_def int_agrees_def) (simp_all add: wr64_def rd64_def queue_ok_def)

lemma ddr3_inv_assert: "ddr3_inv s \<Longrightarrow> ddr3_inv (assert_mbx_int s)"
  by (simp add: ddr3_inv_def int_agrees_def) (simp add: assert_mbx_int_def wr64_def Let_def)

lemma ddr3_inv_defer: "ddr3_inv s \<Longrightarrow> ddr3_inv (defer_csr0 d s)"
  by (simp add: ddr3_inv_def int_agrees_def deferred.put_ok) (simp add: defer_csr0_def Let_def)

lemma ddr3_inv_fpga: "keeps_int fpga \<Longrightarrow> ddr3_inv s \<Longrightarrow> ddr3_inv (fpga_turn fpga s)"
  by (simp add: ddr3_inv_def int_agrees_def keeps_int_def) (simp add: fpga_turn_def split: prod.splits)

lemma inv_turn_frame: "keeps_int fpga \<Longrightarrow> turn_frame fpga ddr3_inv"
proof
  assume f: "keeps_int fpga"
  fix s t :: "'a ddr3_scheme"
  assume i: "ddr3_inv s"
  show "ddr3_inv (fpga_turn fpga s)" using f i by (rule ddr3_inv_fpga)
  show "call_service (Some service_bridge_safe) s = Some t \<Longrightarrow> ddr3_inv t"
    using i by (auto simp: call_service_def ddr3_inv_defer elim!: service_cases)
  show "ddr3_inv (schedule_tdmd_retry s)"
    using i by (auto simp: schedule_tdmd_retry_def ddr3_inv_def int_agrees_def rd64_def)
  show "same_side s t \<Longrightarrow> ddr3_inv t"
    using i by (simp add: ddr3_inv_def int_agrees_def queue_ok_def same_side_def rd64_def)
qed (simp_all add: ddr3_inv_assert)

lemma ddr3_inv_hold: "ddr3_inv s \<Longrightarrow> k \<le> INT_HOLD_ITER \<Longrightarrow> ddr3_inv (s\<lparr>int_hold := k\<rparr>)"
  by (simp add: ddr3_inv_def int_agrees_def rd64_def)

lemma ddr3_inv_retry: "ddr3_inv s \<Longrightarrow> k \<le> 16 \<Longrightarrow> ddr3_inv (s\<lparr>tdmd_retry := k\<rparr>)"
  by (simp add: ddr3_inv_def int_agrees_def rd64_def)

lemma ddr3_inv_cleared: "ddr3_inv s \<Longrightarrow> ddr3_inv (ddr3_int_cleared s)"
  by (simp add: ddr3_int_cleared_def ddr3_inv_hold)

lemma ddr3_inv_next: "ddr3_inv s \<Longrightarrow> deferred_csr0_tail s \<noteq> deferred_csr0_head s \<Longrightarrow> ddr3_inv (snd (next_deferred s))"
  by (simp add: ddr3_inv_def int_agrees_def next_deferred_def queue_ok_def rd64_def)

lemma ddr3_inv_int_steps: "ddr3_inv s \<Longrightarrow> ddr3_inv (ddr3_int_step s)" "ddr3_inv s \<Longrightarrow> ddr3_inv (ddr3_int_refresh s)"
proof -
  have slot: "rd64 (u\<lparr>last_mbx_int := a\<rparr>) off = rd64 u off" "rd64 (u\<lparr>int_refresh := k\<rparr>) off = rd64 u off"
    "queue_ok (u\<lparr>last_mbx_int := a\<rparr>) = queue_ok u" "queue_ok (u\<lparr>int_refresh := k\<rparr>) = queue_ok u"
    for u :: "'a ddr3_scheme" and a k off by (simp_all add: rd64_def queue_ok_def)
  have fields: "last_mbx_int (wr64 u off v) = last_mbx_int u" "int_hold (wr64 u off v) = int_hold u" "tdmd_retry (wr64 u off v) = tdmd_retry u"
    "int_refresh (wr64 u off v) = int_refresh u" for u :: "'a ddr3_scheme" and off v by (simp_all add: wr64_def)
  assume i: "ddr3_inv s"
  show "ddr3_inv (ddr3_int_step s)"
  proof (cases "int_hold s > 0")
    case True
    have "int_hold s - 1 \<le> INT_HOLD_ITER" using i unfolding ddr3_inv_def by linarith
    then show ?thesis using i True by (simp add: ddr3_int_step_def ddr3_inv_hold)
  next
    case False
    then show ?thesis using i by (simp add: ddr3_int_step_def write_mbx_int_def Let_def ddr3_inv_def int_agrees_def slot fields)
  qed
  show "ddr3_inv (ddr3_int_refresh s)"
    using i by (auto simp: ddr3_int_refresh_def Let_def ddr3_inv_def int_agrees_def slot fields)
qed

lemma inv_service:
  assumes f: "keeps_int fpga" and i: "ddr3_inv s"
  shows "holds ddr3_inv (ddr3_service_bridge fpga tmp0 s)"
proof -
  note wput = turn_frame.wput_keeps [OF inv_turn_frame [OF f]]
  have tail: "holds ddr3_inv (Option.bind (ddr3_wput fpga tmp0 reg v u) (\<lambda>s. Some
      (if c s \<and> int_hold (if d s then fpga_turn fpga (assert_mbx_int s) else s) > 0
       then (if d s then fpga_turn fpga (assert_mbx_int s) else s)\<lparr>int_hold := 1\<rparr>
       else (if d s then fpga_turn fpga (assert_mbx_int s) else s))))" if "ddr3_inv u" for reg v u c d
    using wput [OF that] by (rule holds_bind) (simp add: ddr3_inv_hold ddr3_inv_fpga [OF f] ddr3_inv_assert)
  have acked: "ddr3_inv (wr64 (wr64 u MBX_RSP_OFF r) MBX_REQ_OFF 0)" if "ddr3_inv u" for u r using that by simp
  have raised: "ddr3_inv (if c then assert_mbx_int u else u)" "ddr3_inv (if c then if d then fpga_turn fpga (assert_mbx_int u) else u else u)"
    if "ddr3_inv u" for u c d
    using that by (simp_all add: ddr3_inv_assert ddr3_inv_fpga [OF f])
  show ?thesis
    unfolding ddr3_service_bridge_def Let_def
    apply (rule holds_if)
     apply (simp add: i)
    apply (rule holds_pure)
    apply (rule holds_if)
     apply (rule tail, rule acked, rule raised, rule raised, simp add: i)
    apply (simp only: holds_simps)
    apply (rule acked, rule raised, rule raised, simp add: i)
    done
qed

lemma inv_drain:
  assumes f: "keeps_int fpga"
  shows "ddr3_drain fpga tmp0 s = Some t \<Longrightarrow> ddr3_inv s \<Longrightarrow> ddr3_inv t"
proof -
  assume "ddr3_drain fpga tmp0 s = Some t"
  then have "keeps_int fpga \<longrightarrow> ddr3_inv s \<longrightarrow> ddr3_inv t"
  proof (rule ddr3_drain.raw_induct [rotated])
    fix drain :: "'a fpga_fn \<Rightarrow> u8 list \<Rightarrow> 'a ddr3_scheme \<Rightarrow> ('a ddr3_scheme) option" and g tmp s t
    assume IH: "\<And>g tmp s t. drain g tmp s = Some t \<Longrightarrow> keeps_int g \<longrightarrow> ddr3_inv s \<longrightarrow> ddr3_inv t"
      and step: "(if deferred_csr0_tail s \<noteq> deferred_csr0_head s then
          (let (saved, s) = next_deferred s in Option.bind (ddr3_wput g tmp A2065_RDP_OFF saved s) (\<lambda>s. drain g tmp (ddr3_int_cleared s)))
        else Some s) = Some t"
    show "keeps_int g \<longrightarrow> ddr3_inv s \<longrightarrow> ddr3_inv t"
    proof (intro impI)
      assume g: "keeps_int g" and i: "ddr3_inv s"
      show "ddr3_inv t"
      proof (cases "deferred_csr0_tail s = deferred_csr0_head s")
        case False
        then obtain u where u: "ddr3_wput g tmp A2065_RDP_OFF (fst (next_deferred s)) (snd (next_deferred s)) = Some u"
          "drain g tmp (ddr3_int_cleared u) = Some t"
          using step by (auto simp: Let_def case_prod_beta bind_eq_Some_conv)
        have "ddr3_inv u"
          using turn_frame.wput_keeps [OF inv_turn_frame [OF g] ddr3_inv_next [OF i False], of tmp A2065_RDP_OFF "fst (next_deferred s)"] u(1)
          by simp
        then show ?thesis using IH [OF u(2)] g by (simp add: ddr3_inv_cleared)
      qed (use step i in simp)
    qed
  qed
  then show "ddr3_inv s \<Longrightarrow> ddr3_inv t" using f by blast
qed

lemma inv_retry:
  assumes f: "keeps_int fpga" and i: "ddr3_inv s"
  shows "holds ddr3_inv (ddr3_retry fpga tmp0 s)"
proof -
  have "tdmd_retry s - 1 \<le> 16" using i unfolding ddr3_inv_def by linarith
  then have "ddr3_inv (s\<lparr>tdmd_retry := tdmd_retry s - 1\<rparr>)" using i by (rule ddr3_inv_retry [rotated])
  then show ?thesis
    unfolding ddr3_retry_def Let_def
    by (intro holds_if) (auto simp: ddr3_inv_retry i intro!: turn_frame.transmit_keeps [OF inv_turn_frame [OF f], THEN holds_bind])
qed

lemma ddr3_turn_keeps:
  assumes "keeps_int fpga" and "ddr3_inv s" and "ddr3_turn fpga tmp0 s = Some t"
  shows "ddr3_inv t"
proof -
  obtain s1 s2 s3 where s: "ddr3_service_bridge fpga tmp0 s = Some s1" "ddr3_drain fpga tmp0 s1 = Some s2"
    "ddr3_retry fpga tmp0 s2 = Some s3" and t: "t = ddr3_int_refresh (ddr3_int_step s3)"
    using assms(3) by (auto simp: ddr3_turn_def bind_eq_Some_conv)
  have "ddr3_inv s1" using inv_service [OF assms(1,2), of tmp0] s(1) by simp
  then have "ddr3_inv s2" using inv_drain [OF assms(1) s(2)] by simp
  then have "ddr3_inv s3" using inv_retry [OF assms(1), of s2 tmp0] s(3) by simp
  then show ?thesis by (simp add: t ddr3_inv_int_steps)
qed

text \<open>Whatever the FPGA answers, and as long as it leaves the interrupt slot alone, every turn of the main loop keeps
  the indices of the queue in range, the interrupt slot equal to the last value written, and the hold, retry and
  refresh counters within their bounds.\<close>

theorem ddr3_turn_inv:
  assumes "keeps_int fpga" and "ddr3_inv s" and "ddr3_turn fpga tmp0 s = Some t"
  shows "ddr3_inv t"
  using assms by (rule ddr3_turn_keeps)

text \<open>Whatever the network delivers and the FPGA answers, a turn of the receive thread keeps the invariant.\<close>

theorem ddr3_rx_inv:
  assumes "keeps_int fpga" and "ddr3_inv s" and "ddr3_rx fpga tmp0 answer rxbuf s = Some (buf, t)"
  shows "ddr3_inv t"
  using turn_frame.rx_keeps [OF inv_turn_frame [OF assms(1)] assms(2), of tmp0 answer rxbuf] assms(3) by simp

section \<open>The interrupt line\<close>

primrec ddr3_run :: "'m fpga_fn \<Rightarrow> u8 list \<Rightarrow> nat \<Rightarrow> 'm ddr3_scheme \<Rightarrow> ('m ddr3_scheme) option" where
  "ddr3_run fpga tmp0 0 s = Some s"
| "ddr3_run fpga tmp0 (Suc n) s = Option.bind (ddr3_turn fpga tmp0 s) (\<lambda>s. ddr3_run fpga tmp0 n (fpga_turn fpga s))"

text \<open>Nothing to do: no request, no deferred write, no transmit to retry.\<close>

definition ddr3_idle :: "'m ddr3_scheme \<Rightarrow> bool" where
  "ddr3_idle s \<longleftrightarrow> \<not> has (rd64 s MBX_REQ_OFF) 1 \<and> deferred_csr0_tail s = deferred_csr0_head s \<and> tdmd_retry s = 0"

lemma idle_turn: "ddr3_idle s \<Longrightarrow> ddr3_turn fpga tmp0 s = Some (ddr3_int_refresh (ddr3_int_step s))"
  by (simp add: ddr3_turn_def ddr3_service_bridge_def ddr3_retry_def drain_unfold ddr3_idle_def)

lemma int_steps_idle: "ddr3_idle s \<Longrightarrow> ddr3_idle (ddr3_int_refresh (ddr3_int_step s))" "csr (ddr3_int_refresh (ddr3_int_step s)) = csr s"
  "int_hold (ddr3_int_refresh (ddr3_int_step s)) = int_hold s - 1"
proof -
  have w: "rd64 ((wr64 u MBX_INT_OFF v)\<lparr>last_mbx_int := a\<rparr>) MBX_REQ_OFF = rd64 u MBX_REQ_OFF"
    "rd64 ((wr64 u MBX_INT_OFF v)\<lparr>int_refresh := k\<rparr>) MBX_REQ_OFF = rd64 u MBX_REQ_OFF"
    "rd64 (u\<lparr>int_refresh := k\<rparr>) MBX_REQ_OFF = rd64 u MBX_REQ_OFF" "rd64 (u\<lparr>int_hold := k\<rparr>) MBX_REQ_OFF = rd64 u MBX_REQ_OFF"
    for u :: "'a ddr3_scheme" and v a k
    using rd64_wr64_apart [OF slots_mbx_apart(2), of u v] by (simp_all add: rd64_def)
  have f: "deferred_csr0_tail (wr64 u off v) = deferred_csr0_tail u" "deferred_csr0_head (wr64 u off v) = deferred_csr0_head u"
    "tdmd_retry (wr64 u off v) = tdmd_retry u" "csr (wr64 u off v) = csr u" "int_hold (wr64 u off v) = int_hold u"
    "int_refresh (wr64 u off v) = int_refresh u"
    for u :: "'a ddr3_scheme" and off v by (simp_all add: wr64_def)
  show "ddr3_idle s \<Longrightarrow> ddr3_idle (ddr3_int_refresh (ddr3_int_step s))" "csr (ddr3_int_refresh (ddr3_int_step s)) = csr s"
    "int_hold (ddr3_int_refresh (ddr3_int_step s)) = int_hold s - 1"
    by (simp_all add: ddr3_idle_def ddr3_int_refresh_def ddr3_int_step_def write_mbx_int_def Let_def w f)
qed

lemma int_published:
  assumes "ddr3_inv s" and "int_hold s = 0"
  shows "rd64 (ddr3_int_refresh (ddr3_int_step s)) MBX_INT_OFF = int_value (csr s 0)"
proof -
  have w: "rd64 ((wr64 u MBX_INT_OFF v)\<lparr>last_mbx_int := a\<rparr>) MBX_INT_OFF = v" "rd64 ((wr64 u MBX_INT_OFF v)\<lparr>int_refresh := k\<rparr>) MBX_INT_OFF = v"
    "rd64 (u\<lparr>int_refresh := k\<rparr>) MBX_INT_OFF = rd64 u MBX_INT_OFF"
    for u :: "'a ddr3_scheme" and v a k using rd64_wr64_same [of u MBX_INT_OFF v] by (simp_all add: rd64_def)
  show ?thesis
    using assms by (auto simp: ddr3_int_refresh_def ddr3_int_step_def write_mbx_int_def int_value_def ddr3_inv_def int_agrees_def
        registers_csr0_def Let_def w)
qed

text \<open>C26: once nothing is left to do, the interrupt line follows the chip at the latest after the hold time: after as many
  turns as the hold counter says and one more, the slot is 1 exactly if INTR and INEA are set.\<close>

theorem ddr3_int_settles:
  assumes "keeps_int fpga" and "quiet_fpga fpga" and "ddr3_inv s" and "ddr3_idle s"
  shows "\<exists>t. ddr3_run fpga tmp0 (int_hold s + 1) s = Some t \<and> rd64 t MBX_INT_OFF = int_value (csr t 0) \<and> csr t = csr s"
  using assms(3,4)
proof (induction "int_hold s" arbitrary: s)
  case 0
  have c: "csr (fpga_turn fpga u) = csr u" for u by (simp add: fpga_turn_def split: prod.splits)
  show ?case
    using 0 int_published [OF "0.prems"(1)] assms(1) by (simp add: idle_turn keeps_int_def c int_steps_idle)
next
  case (Suc k)
  let ?t = "fpga_turn fpga (ddr3_int_refresh (ddr3_int_step s))"
  have f: "csr (fpga_turn fpga u) = csr u" "int_hold (fpga_turn fpga u) = int_hold u" "deferred_csr0_tail (fpga_turn fpga u) = deferred_csr0_tail u"
    "deferred_csr0_head (fpga_turn fpga u) = deferred_csr0_head u" "tdmd_retry (fpga_turn fpga u) = tdmd_retry u" for u
    by (simp_all add: fpga_turn_def split: prod.splits)
  have k: "k = int_hold ?t" using Suc.hyps(2) by (simp add: f int_steps_idle)
  have "ddr3_inv ?t" using Suc.prems(1) by (simp add: ddr3_inv_fpga [OF assms(1)] ddr3_inv_int_steps)
  moreover have "ddr3_idle ?t"
    using int_steps_idle(1) [OF Suc.prems(2)] assms(2) by (simp add: ddr3_idle_def f quiet_fpga_def)
  ultimately obtain t where "ddr3_run fpga tmp0 (int_hold ?t + 1) ?t = Some t" "rd64 t MBX_INT_OFF = int_value (csr t 0)" "csr t = csr ?t"
    using Suc.hyps(1) [OF k] by blast
  moreover have "int_hold s + 1 = Suc (int_hold ?t + 1)" using Suc.hyps(2) k by simp
  ultimately show ?case using idle_turn [OF Suc.prems(2)] by (simp add: f int_steps_idle)
qed

section \<open>The dump mode\<close>

lemma dump_poll_answer:
  "answer_after env None n s = Some t \<Longrightarrow> n < m \<Longrightarrow>
   dump_poll env m s = (Some (ucast (drop_bit 1 (rd64 t MBX_RAM_RSP))), slots_clear t)"
proof (induction n arbitrary: s m)
  case 0
  then show ?case by (cases m) (auto simp: Let_def split: if_splits)
next
  case (Suc n)
  then obtain m' where m: "m = Suc m'" by (cases m) auto
  have "answer_after env None n (env s) = Some t" "\<not> has (rd64 (env s) MBX_RAM_RSP) 1"
    using Suc.prems(1) by (auto simp: call_service_def split: if_splits)
  then show ?case using Suc.IH [of "env s" m'] Suc.prems(2) by (simp add: m)
qed

lemma dump_request: "1 OR push_bit 2 (ucast (off AND 0x7FFE)) = xfer_request off False 0"
  by (simp add: xfer_request_def)

lemma dump_word:
  fixes off :: u16
  assumes sv: "serves env None view" and idle: "\<not> has (rd64 s MBX_RAM_RSP) 1"
  obtains t where "dump_poll env 100000 (wr64 s MBX_RAM_REQ (1 OR push_bit 2 (ucast (off AND 0x7FFE)))) =
      (Some (word_at (view s) (ucast (off AND 0x7FFE))), t)"
    and "view t = view s" and "\<not> has (rd64 t MBX_RAM_RSP) 1"
proof -
  let ?s = "wr64 s MBX_RAM_REQ (xfer_request off False 0)"
  have "\<not> has (rd64 ?s MBX_RAM_RSP) 1" "rd64 ?s MBX_RAM_REQ = xfer_request off False 0" using idle by simp_all
  then obtain n t where n: "n < 10000" "answer_after env None n ?s = Some t"
    "rd64 t MBX_RAM_RSP = 1 OR push_bit 1 (ucast (word_at (view ?s) (ucast (off AND 0x7FFE))))" "view t = view ?s"
    using sv unfolding serves_def by metis
  have vs: "view ?s = view s" "view (slots_clear t) = view t" using sv by (simp_all add: serves_def)
  have "dump_poll env 100000 ?s = (Some (word_at (view s) (ucast (off AND 0x7FFE))), slots_clear t)"
    using dump_poll_answer [OF n(2), of 100000] n(1) by (simp only: n(3) answer_word vs(1))
  then show thesis
    using that n(4) vs unfolding dump_request by (simp add: has_def)
qed

lemma dump_loop_words:
  assumes sv: "serves env None view"
  shows "\<not> has (rd64 s MBX_RAM_RSP) 1 \<Longrightarrow> stop \<le> uint off + 2 * int n \<Longrightarrow> uint off + 2 * int n \<le> stop + 1 \<Longrightarrow>
    uint off + 2 * int n \<le> 0xFFFF \<Longrightarrow>
    \<exists>t. dump_loop env stop off s =
      Some (map (\<lambda>k. (off + 2 * of_nat k, word_at (view s) (ucast ((off + 2 * of_nat k) AND 0x7FFE)))) [0..<n], t) \<and> view t = view s"
proof (induction n arbitrary: off s)
  case 0
  then show ?case by (subst dump_loop.simps) simp
next
  case (Suc n)
  obtain t where t: "dump_poll env 100000 (wr64 s MBX_RAM_REQ (1 OR push_bit 2 (ucast (off AND 0x7FFE)))) =
      (Some (word_at (view s) (ucast (off AND 0x7FFE))), t)" "view t = view s" "\<not> has (rd64 t MBX_RAM_RSP) 1"
    by (rule dump_word [OF sv Suc.prems(1)])
  have u: "uint (off + 2) = uint off + 2"
    using Suc.prems(4) by (simp add: uint_word_ariths)
  obtain w where w: "dump_loop env stop (off + 2) t =
      Some (map (\<lambda>k. (off + 2 + 2 * of_nat k, word_at (view s) (ucast ((off + 2 + 2 * of_nat k) AND 0x7FFE)))) [0..<n], w)" "view w = view s"
    using Suc.IH [of t "off + 2"] Suc.prems t(2,3) by (auto simp: u)
  have "uint off < stop" using Suc.prems(3) by simp
  moreover have "[0..<Suc n] = 0 # map Suc [0..<n]" by (simp add: upt_conv_Cons map_Suc_upt del: upt_Suc)
  ultimately show ?case
    using w t by (subst dump_loop.simps) (simp add: Let_def algebra_simps del: upt_Suc)
qed

text \<open>With an FPGA that serves its RAM, a dump that ends below the top of the 16-bit offsets returns and lists the words of
  the board RAM at every second offset, without changing it.\<close>

theorem dump_lists_ram:
  assumes "serves env None view" and "\<not> has (rd64 s MBX_RAM_RSP) 1" and "uint start + uint len \<le> 0xFFFE"
  shows "\<exists>t. dump_boardram env start len s =
    Some (map (\<lambda>k. (start + 2 * of_nat k, word_at (view s) (ucast ((start + 2 * of_nat k) AND 0x7FFE)))) [0..<(unat len + 1) div 2], t) \<and>
    view t = view s"
proof -
  have "unat len \<le> 2 * ((unat len + 1) div 2)" "2 * ((unat len + 1) div 2) \<le> unat len + 1" by presburger+
  moreover have "uint len = int (unat len)" by simp
  ultimately have "uint len \<le> 2 * int ((unat len + 1) div 2)" "2 * int ((unat len + 1) div 2) \<le> uint len + 1" by linarith+
  then show ?thesis
    unfolding dump_boardram_def by (intro dump_loop_words [OF assms(1,2)]) (use assms(3) in linarith)+
qed

text \<open>A dump whose end lies past the last 16-bit offset never returns: the offset wraps around below the bound.\<close>

theorem dump_diverges:
  assumes "0xFFFF < uint start + uint len"
  shows "dump_boardram env start len s = None"
proof -
  have "0xFFFF < stop \<longrightarrow> False" if "dump_loop env stop off s = Some r" for stop off s r
    using that
  proof (rule dump_loop.raw_induct [rotated])
    fix loop :: "('a window_scheme) fpga \<Rightarrow> int \<Rightarrow> u16 \<Rightarrow> 'a window_scheme \<Rightarrow> ((u16 \<times> u16) list \<times> 'a window_scheme) option"
      and env stop off s r
    assume IH: "\<And>env stop off s r. loop env stop off s = Some r \<Longrightarrow> 0xFFFF < stop \<longrightarrow> False"
      and step: "(if uint off < stop then
          (let s = wr64 s MBX_RAM_REQ (1 OR push_bit 2 (ucast (off AND 0x7FFE))); (v, s) = dump_poll env 100000 s
           in Option.bind (loop env stop (off + 2) s) (\<lambda>(out, s). Some (case v of None \<Rightarrow> out | Some v \<Rightarrow> (off, v) # out, s)))
        else Some ([], s)) = Some r"
    show "0xFFFF < stop \<longrightarrow> False"
    proof
      assume "0xFFFF < stop"
      moreover have "uint off < 0x10000" using uint_lt2p [of off] by simp
      ultimately show False
        using step IH by (auto simp: Let_def bind_eq_Some_conv split: prod.splits)
    qed
  qed
  then show ?thesis
    using assms by (cases "dump_boardram env start len s") (auto simp: dump_boardram_def)
qed

section \<open>The self test\<close>

lemma ww_step:
  assumes "serves env cb view" and "\<not> has (rd64 s MBX_RAM_RSP) 1"
    and "\<And>t. view t = set_word (view s) (even_addr off) w \<Longrightarrow> \<not> has (rd64 t MBX_RAM_RSP) 1 \<Longrightarrow> \<exists>r. f t = Some (n, r)"
  shows "\<exists>r. Option.bind (boardram_ww env cb True off w s) f = Some (n, r)"
  using remote_writes [OF assms(1,2), of off 0 w] assms(3) by (auto simp: has_def)

lemma wb_step:
  assumes "serves env cb view" and "\<not> has (rd64 s MBX_RAM_RSP) 1"
    and "\<And>t. view t = (view s)(ucast off := b) \<Longrightarrow> \<not> has (rd64 t MBX_RAM_RSP) 1 \<Longrightarrow> \<exists>r. f t = Some (n, r)"
  shows "\<exists>r. Option.bind (boardram_wb env cb True off b s) f = Some (n, r)"
  using remote_writes [OF assms(1,2), of off b 0] assms(3) by (auto simp: has_def)

lemma rw_step:
  assumes "serves env cb view" and "\<not> has (rd64 s MBX_RAM_RSP) 1"
    and "\<And>t. view t = view s \<Longrightarrow> \<not> has (rd64 t MBX_RAM_RSP) 1 \<Longrightarrow> \<exists>r. f (word_at (view s) (even_addr off), t) = Some (n, r)"
  shows "\<exists>r. Option.bind (boardram_rw env cb True off s) f = Some (n, r)"
  using remote_reads [OF assms(1,2), of off] assms(3) by (auto simp: has_def)

lemma even_addr_samples:
  "even_addr 0 = 0" "even_addr 2 = 2" "even_addr 0x7FFE = 0x7FFE" "even_addr 0x100 = 0x100" "even_addr 0x102 = 0x102" "even_addr 0x200 = 0x200"
  by (simp_all add: even_addr_def)

text \<open>With an FPGA that serves its RAM the self test of the remote board RAM passes.\<close>

theorem ddr3_self_test_passes:
  assumes sv: "serves env cb view" and idle: "\<not> has (rd64 s MBX_RAM_RSP) 1"
  shows "\<exists>t. ddr3_test_boardram env cb s = Some (0, t)"
  unfolding ddr3_test_boardram_def
  apply (rule ww_step [OF sv idle])
  apply (rule ww_step [OF sv], assumption)+
  apply (rule rw_step [OF sv], assumption, simp only: prod.case Let_def)+
  apply (rule ww_step [OF sv], assumption, rule wb_step [OF sv], assumption, rule wb_step [OF sv], assumption)
  apply (rule rw_step [OF sv], assumption, simp only: prod.case Let_def even_addr_samples)
  apply (simp add: word_at_def set_word_def)
  done

section \<open>Start-up\<close>

definition ddr3_fresh :: "'m ddr3_scheme \<Rightarrow> bool" where
  "ddr3_fresh s \<longleftrightarrow> queue_ok s \<and> last_mbx_int s = -1 \<and> int_hold s = 0 \<and> tdmd_retry s = 0"

lemma fresh_mailbox: "ddr3_fresh s \<Longrightarrow> ddr3_fresh ((ddr3_reset_mailbox fpga ^^ n) s)"
proof (induction n)
  case (Suc n)
  have "ddr3_fresh (wr64 u off v) = ddr3_fresh u" "ddr3_fresh (fpga_turn fpga u) = ddr3_fresh u" for u off v
    by (simp_all add: ddr3_fresh_def) (simp_all add: wr64_def fpga_turn_def split: prod.splits)
  then show ?case using Suc by (simp add: ddr3_reset_mailbox_def Let_def)
qed simp

text \<open>After start-up the chip is stopped and not initialised, the daemon is in its invariant, and the card has an address with the
  Commodore prefix whose last four bytes stand in the mailbox beside the valid bit.\<close>

theorem ddr3_start_ready:
  assumes "ddr3_fresh s"
  shows "let t = ddr3_start fpga nic local_boardram s
    in ddr3_inv t \<and> csr t 0 = CSR0_STOP \<and> \<not> am_initialized t \<and> length (fakemac t) = 6 \<and> take 3 (fakemac t) = [0x00, 0x80, 0x10] \<and>
       rd64 t MBX_MAC_OFF = 1 OR push_bit 32 (ucast (fakemac t ! 2)) OR push_bit 40 (ucast (fakemac t ! 3)) OR
         push_bit 48 (ucast (fakemac t ! 4)) OR push_bit 56 (ucast (fakemac t ! 5))"
proof -
  define u where "u = (ddr3_reset_mailbox fpga ^^ 5) s"
  define v where "v = snd (ethernet_open nic (registers_set_boardram local_boardram (registers_reset u)))"
  have u: "ddr3_fresh u" unfolding u_def by (rule fresh_mailbox [OF assms])
  have v: "ddr3_fresh v" "csr v 0 = CSR0_STOP" "\<not> am_initialized v"
    using u by (auto simp: v_def ddr3_fresh_def queue_ok_def ethernet_open_def registers_set_boardram_def registers_reset_def Let_def split: option.splits)
  define w where "w = ddr3_set_default_mac v"
  have w: "ddr3_fresh w" "csr w 0 = CSR0_STOP" "\<not> am_initialized w" "length (fakemac w) = 6" "take 3 (fakemac w) = [0x00, 0x80, 0x10]"
    using v by (simp_all add: w_def ddr3_set_default_mac_def registers_set_fakemac_def Let_def ddr3_fresh_def queue_ok_def)
  have st: "ddr3_start fpga nic local_boardram s = (ddr3_write_mbx_mac (fakemac w) w)\<lparr>int_refresh := 0\<rparr>"
    by (simp add: ddr3_start_def Let_def u_def v_def w_def)
  have slot: "rd64 (x\<lparr>int_refresh := 0\<rparr>) off = rd64 x off" for x :: "'a ddr3_scheme" and off by (simp add: rd64_def)
  have inv: "ddr3_inv (x\<lparr>int_refresh := 0\<rparr>)" if "ddr3_fresh x" for x :: "'a ddr3_scheme"
    using that by (simp add: ddr3_inv_def ddr3_fresh_def int_agrees_def queue_ok_def)
  have "ddr3_fresh (ddr3_write_mbx_mac m w)" for m using w(1) by (simp add: ddr3_write_mbx_mac_def ddr3_fresh_def) (simp add: wr64_def)
  then show ?thesis
    unfolding st Let_def using w inv by (simp add: slot ddr3_write_mbx_mac_def)
qed

section \<open>Witnesses\<close>

abbreviation fresh_ddr3 :: "(ram_addr \<Rightarrow> u8) ddr3_scheme" where
  "fresh_ddr3 \<equiv> ddr3_of (registers_reset (static_init 0))"

lemma fresh_ddr3_facts:
  "queue_ok (ddr3_of t)" "pending (ddr3_of t) = []" "ddr3_fresh (ddr3_of t)" "ddr3_inv (ddr3_of t)" "ddr3_idle (ddr3_of t)"
  "req_cnt (ddr3_of t) = 0" "int_hold (ddr3_of t) = 0"
  by (simp_all add: ddr3_of_def a2065.extend_def queue_ok_def pending_def ddr3_fresh_def ddr3_inv_def int_agrees_def ddr3_idle_def has_def rd64_def)

lemma identity_fpga: "keeps_int (\<lambda>x. x)" "quiet_fpga (\<lambda>x. x)"
  by (simp_all add: keeps_int_def quiet_fpga_def fpga_turn_def)

theorem deferred_burst_witness:
  "pending (fold defer_csr0 [1, 2, 3, 4, 5, 6, 7, 8, 9] fresh_ddr3) = [1, 2, 3, 4, 5, 6, 7]"
  using deferred_burst [OF fresh_ddr3_facts(1), of "[1, 2, 3, 4, 5, 6, 7, 8, 9]"] by (simp add: fresh_ddr3_facts)

theorem safe_service_answers_witness:
  "\<exists>t. service_bridge_safe (wr64 fresh_ddr3 MBX_REQ_OFF (mbx_request True A2065_RDP_OFF 0x42)) = Some t \<and> pending t = [0x42]"
proof -
  let ?s = "wr64 fresh_ddr3 MBX_REQ_OFF (mbx_request True A2065_RDP_OFF 0x42)"
  have "rd64 ?s MBX_REQ_OFF = mbx_request True A2065_RDP_OFF 0x42" "req_cnt ?s < INT_MAX" "queue_ok ?s"
    by (simp_all add: fresh_ddr3_facts)
  from safe_service_answers [OF this] show ?thesis by (auto simp: fresh_ddr3_facts)
qed

theorem deferred_write_misdirected_witness:
  "\<exists>t. do {
      s \<leftarrow> service_bridge_safe (wr64 (fresh_ddr3\<lparr>rap := 1\<rparr>) MBX_REQ_OFF (mbx_request True A2065_RDP_OFF 0x1234));
      s \<leftarrow> service_bridge_safe (wr64 s MBX_REQ_OFF (mbx_request True A2065_RAP_OFF 2));
      ddr3_drain prompt_fpga [] s
    } = Some t \<and> csr t 1 = 0 \<and> csr t 2 = 0x34"
proof -
  let ?s = "fresh_ddr3\<lparr>rap := 1\<rparr>"
  have cnt: "req_cnt (u\<lparr>rap := r\<rparr>) = req_cnt u" for u :: "(ram_addr \<Rightarrow> u8) ddr3_scheme" and r by simp
  have "queue_ok ?s" "pending ?s = []" "rap ?s = 1" "has (csr ?s 0) CSR0_STOP" "req_cnt ?s + 1 < INT_MAX"
    by (simp_all add: fresh_ddr3_facts registers_reset_def has_def cnt del: a2065.update_convs)
  from deferred_write_misdirected [OF this, of "0x1234" prompt_fpga "[]"] show ?thesis by (simp add: registers_reset_def)
qed

theorem ddr3_turn_inv_witness: "\<exists>t. ddr3_turn (\<lambda>x. x) [] fresh_ddr3 = Some t \<and> ddr3_inv t"
  using ddr3_turn_inv [OF identity_fpga(1) fresh_ddr3_facts(4), of "[]"] idle_turn [OF fresh_ddr3_facts(5)] by blast

theorem ddr3_rx_inv_witness: "\<exists>t. ddr3_rx (\<lambda>x. x) [] None [] fresh_ddr3 = Some ([], t) \<and> ddr3_inv t"
proof -
  have "ddr3_rx (\<lambda>x. x) [] None [] fresh_ddr3 = Some ([], fresh_ddr3)" by (simp add: ddr3_rx_def ethernet_recv_def)
  then show ?thesis using ddr3_rx_inv [OF identity_fpga(1) fresh_ddr3_facts(4)] by blast
qed

theorem ddr3_int_settles_witness:
  "\<exists>t. ddr3_run (\<lambda>x. x) [] (int_hold fresh_ddr3 + 1) fresh_ddr3 = Some t \<and> rd64 t MBX_INT_OFF = int_value (csr t 0)"
  using ddr3_int_settles [OF identity_fpga fresh_ddr3_facts(4,5)] by blast

theorem dump_lists_ram_witness: "\<exists>t. dump_boardram fpga_now 0x10 4 fpga_reset = Some ([(0x10, 0x5A5A), (0x12, 0x5A5A)], t)"
proof -
  have "\<not> has (rd64 fpga_reset MBX_RAM_RSP) 1" by (simp add: fpga_reset_idle has_def)
  note dump = dump_lists_ram [OF fpga_now_serves this, of "0x10" 4]
  have n: "(unat (4 :: u16) + 1) div 2 = 2" by simp
  have ks: "[0..<2] = [0, 1 :: nat]" by code_simp
  have w: "word_at (fpga_ram fpga_reset) a = 0x5A5A" for a by (simp add: fpga_reset_def word_at_def)
  show ?thesis using dump unfolding n ks w by auto
qed

theorem dump_diverges_witness: "dump_boardram fpga_now 0xFFF0 0x20 fpga_reset = None"
  using dump_diverges [of "0xFFF0" "0x20" fpga_now fpga_reset] by simp

theorem ddr3_self_test_passes_witness: "\<exists>t. ddr3_test_boardram fpga_now None fpga_reset = Some (0, t)"
proof -
  have "\<not> has (rd64 fpga_reset MBX_RAM_RSP) 1" by (simp add: fpga_reset_idle has_def)
  from ddr3_self_test_passes [OF fpga_now_serves this] show ?thesis .
qed

theorem ddr3_start_ready_witness: "csr (ddr3_start prompt_fpga sample_nic 0x20000 fresh_ddr3) 0 = CSR0_STOP"
  using ddr3_start_ready [OF fresh_ddr3_facts(3), of prompt_fpga sample_nic "0x20000"] by (simp add: Let_def)

end
