(* ===== verification/Ddr3_Race.thy ===== *)
theory Ddr3_Race
  imports Ddr3_Serve
begin

text \<open>
  The register mailbox of \<^verbatim>\<open>main_ddr3.cpp\<close> with both threads on it. \<^verbatim>\<open>service_bridge\<close> of the main thread reads the request
  slot, answers and clears it without the register lock, and takes the lock only to look at the registers and to
  perform a write. The receive thread holds the lock for a whole frame, and every transfer of that frame calls
  \<^verbatim>\<open>service_bridge_safe\<close> on the same slot.

  \<open>mbx_step\<close> interleaves the main thread, cut at its accesses to the slots, with services of the receive thread and
  requests of the FPGA, which posts one whenever the slot is empty. Run without the others the five cuts are
  \<open>ddr3_service_bridge\<close>.
\<close>

unbundle bit_operations_syntax

section \<open>The main thread, cut at the slots\<close>

text \<open>Where the main thread is, with the request it read and the result it will give.\<close>

datatype mbx_pc = Idle | Have u64 | Got u64 u16 | Replied u64 | Cleared u64

record 'm mbx =
  sh :: "'m ddr3_scheme"
  mpc :: mbx_pc

definition mbx_result :: "u64 \<Rightarrow> 'm ddr3_scheme \<Rightarrow> u16" where
  "mbx_result req s = (if \<not> req_rw req then chip_wget (ucast (req_addr req)) s else 0)"

definition mbx_reply :: "'m fpga_fn \<Rightarrow> u64 \<Rightarrow> u16 \<Rightarrow> 'm ddr3_scheme \<Rightarrow> ('m ddr3_scheme) option" where
  "mbx_reply fpga req result s = do {
     let rw = req_rw req;
     let addr = req_addr req;
     let data = req_data req;
     n \<leftarrow> int_incr (req_cnt s);
     let s = s\<lparr>req_cnt := n\<rparr>;
     let s = (if \<not> rw \<and> addr = 0 \<and> has result CSR0_INTR \<and> has result CSR0_INEA then assert_mbx_int s else s);
     let s = (if rw \<and> addr = 0 \<and> has data (CSR0_INIT OR CSR0_TDMD OR CSR0_STRT) then
                (let cur_csr0 = registers_csr0 s
                 in if has (data OR cur_csr0) CSR0_INEA then fpga_turn fpga (assert_mbx_int s) else s)
              else s);
     Some (wr64 s MBX_RSP_OFF (1 OR push_bit 1 (ucast result)))
   }"

definition mbx_perform :: "'m fpga_fn \<Rightarrow> u8 list \<Rightarrow> u64 \<Rightarrow> 'm ddr3_scheme \<Rightarrow> ('m ddr3_scheme) option" where
  "mbx_perform fpga tmp0 req s =
    (let addr = req_addr req; data = req_data req
     in if req_rw req then do {
          s \<leftarrow> ddr3_wput fpga tmp0 (ucast addr) data s;
          let do_init_delay = (addr = 0 \<and> has data CSR0_INIT \<and> has (registers_csr0 s) CSR0_INTR);
          let int_cleared = (addr = 0 \<and> \<not> has (registers_csr0 s) CSR0_INTR);
          let s = (if do_init_delay then fpga_turn fpga (assert_mbx_int s) else s);
          Some (if int_cleared \<and> int_hold s > 0 then s\<lparr>int_hold := 1\<rparr> else s)
        } else Some s)"

text \<open>With nobody else on the mailbox the cuts are the function.\<close>

lemma service_cut:
  assumes "has (rd64 s MBX_REQ_OFF) 1"
  shows "ddr3_service_bridge fpga tmp0 s = do {
     let req = rd64 s MBX_REQ_OFF;
     let result = mbx_result req s;
     s \<leftarrow> mbx_reply fpga req result s;
     let s = wr64 s MBX_REQ_OFF 0;
     mbx_perform fpga tmp0 req s
   }"
  using assms
  by (cases "int_incr (req_cnt s)") (simp_all add: ddr3_service_bridge_def mbx_result_def mbx_reply_def mbx_perform_def Let_def)

section \<open>Interleaving\<close>

inductive mbx_step :: "'m fpga_fn \<Rightarrow> u8 list \<Rightarrow> 'm mbx \<Rightarrow> 'm mbx \<Rightarrow> bool" for fpga tmp0 where
  fetch: "mpc c = Idle \<Longrightarrow> has (rd64 (sh c) MBX_REQ_OFF) 1 \<Longrightarrow> mbx_step fpga tmp0 c (c\<lparr>mpc := Have (rd64 (sh c) MBX_REQ_OFF)\<rparr>)"
| get: "mpc c = Have req \<Longrightarrow> mbx_step fpga tmp0 c (c\<lparr>mpc := Got req (mbx_result req (sh c))\<rparr>)"
| reply: "mpc c = Got req result \<Longrightarrow> mbx_reply fpga req result (sh c) = Some s \<Longrightarrow> mbx_step fpga tmp0 c (c\<lparr>sh := s, mpc := Replied req\<rparr>)"
| clear: "mpc c = Replied req \<Longrightarrow> mbx_step fpga tmp0 c (c\<lparr>sh := wr64 (sh c) MBX_REQ_OFF 0, mpc := Cleared req\<rparr>)"
| perform: "mpc c = Cleared req \<Longrightarrow> mbx_perform fpga tmp0 req (sh c) = Some s \<Longrightarrow> mbx_step fpga tmp0 c (c\<lparr>sh := s, mpc := Idle\<rparr>)"
| serve: "service_bridge_safe (sh c) = Some s \<Longrightarrow> mbx_step fpga tmp0 c (c\<lparr>sh := s\<rparr>)"
| post: "rd64 (sh c) MBX_REQ_OFF = 0 \<Longrightarrow> mbx_step fpga tmp0 c (c\<lparr>sh := wr64 (sh c) MBX_REQ_OFF req\<rparr>)"

inductive_cases mbx_stepE: "mbx_step fpga tmp0 c c'"

text \<open>The queue of deferred writes stays well formed in every interleaving.\<close>

lemma mbx_queue:
  assumes "mbx_step fpga tmp0 c c'" and "queue_ok (sh c)"
  shows "queue_ok (sh c')"
  using assms
proof (induction rule: mbx_step.induct)
  case (reply c req result s)
  then show ?case by (auto simp: mbx_reply_def Let_def bind_eq_Some_conv wr64_queue split: if_splits)
next
  case (perform c req s)
  have "holds queue_ok (ddr3_wput fpga tmp0 (ucast (req_addr req)) (req_data req) (sh c))"
    using dq.wput_keeps perform(3) by blast
  then show ?case
    using perform(2,3) by (auto simp: mbx_perform_def Let_def bind_eq_Some_conv split: if_splits)
next
  case (serve c s)
  then show ?case by (auto simp: deferred.put_ok elim!: service_cases)
qed simp_all

section \<open>A lost request\<close>

lemma pending_req_cnt [simp]: "pending (s\<lparr>req_cnt := n\<rparr>) = pending s"
  by (simp add: pending_def)

lemma reply_read:
  assumes "req_cnt s < INT_MAX"
  shows "mbx_reply fpga (mbx_request False A2065_RAP_OFF 0) result s =
    Some (wr64 (s\<lparr>req_cnt := req_cnt s + 1\<rparr>) MBX_RSP_OFF (1 OR push_bit 1 (ucast result)))"
  using assms ucast_u8_inj [of A2065_RAP_OFF 0]
  by (simp add: mbx_reply_def int_incr_def Let_def del: ucast_u8_inj)

text \<open>C40: The main thread reads a request; before it goes on the receive thread serves that request, and the FPGA posts the
  next one. The main thread then answers the new request with the old result and clears it: the write is
  acknowledged to the 68k, the slot is empty and no thread has it, but neither the chip nor the queue of deferred
  writes has seen it.\<close>

theorem mailbox_request_lost:
  assumes idle: "rd64 s MBX_REQ_OFF = 0" and cnt: "req_cnt s + 1 < INT_MAX"
  shows "\<exists>c c'. (mbx_step fpga tmp0)\<^sup>*\<^sup>* \<lparr>sh = s, mpc = Idle\<rparr> c \<and> rd64 (sh c) MBX_REQ_OFF = mbx_request True addr data \<and>
    (mbx_step fpga tmp0)\<^sup>*\<^sup>* c c' \<and> mpc c' = Idle \<and> rd64 (sh c') MBX_REQ_OFF = 0 \<and> has (rd64 (sh c') MBX_RSP_OFF) 1 \<and>
    csr (sh c') = csr s \<and> rap (sh c') = rap s \<and> pending (sh c') = pending s"
proof -
  let ?read = "mbx_request False A2065_RAP_OFF 0" and ?store = "mbx_request True addr data"
  let ?steps = "(mbx_step fpga tmp0)\<^sup>*\<^sup>*"
  define s1 where "s1 = wr64 s MBX_REQ_OFF ?read"
  define s2 where "s2 = acknowledged False A2065_RAP_OFF s1"
  define s3 where "s3 = wr64 s2 MBX_REQ_OFF ?store"
  define res where "res = mbx_result ?read s3"
  define s4 where "s4 = wr64 (s3\<lparr>req_cnt := req_cnt s3 + 1\<rparr>) MBX_RSP_OFF (1 OR push_bit 1 (ucast res))"
  define s5 where "s5 = wr64 s4 MBX_REQ_OFF 0"
  have cnt1: "req_cnt s1 < INT_MAX" "req_cnt s3 < INT_MAX" using cnt by (simp_all add: s3_def s2_def s1_def acknowledged_def)
  have r1: "rd64 s1 MBX_REQ_OFF = ?read" by (simp add: s1_def)
  have serve: "service_bridge_safe s1 = Some s2" using safe_service_eq [OF r1 cnt1(1)] by (simp add: s2_def)
  have r2: "rd64 s2 MBX_REQ_OFF = 0" by (simp add: s2_def)
  have "?steps \<lparr>sh = s, mpc = Idle\<rparr> \<lparr>sh = s1, mpc = Idle\<rparr>"
    using mbx_step.post [of "\<lparr>sh = s, mpc = Idle\<rparr>" fpga tmp0 ?read] idle by (auto simp: s1_def)
  also have "?steps \<lparr>sh = s1, mpc = Idle\<rparr> \<lparr>sh = s1, mpc = Have ?read\<rparr>"
    using mbx_step.fetch [of "\<lparr>sh = s1, mpc = Idle\<rparr>" fpga tmp0] r1 by auto
  also have "?steps \<lparr>sh = s1, mpc = Have ?read\<rparr> \<lparr>sh = s2, mpc = Have ?read\<rparr>"
    using mbx_step.serve [of "\<lparr>sh = s1, mpc = Have ?read\<rparr>" s2 fpga tmp0] serve by auto
  also have "?steps \<lparr>sh = s2, mpc = Have ?read\<rparr> \<lparr>sh = s3, mpc = Have ?read\<rparr>"
    using mbx_step.post [of "\<lparr>sh = s2, mpc = Have ?read\<rparr>" fpga tmp0 ?store] r2 by (auto simp: s3_def)
  finally have first: "?steps \<lparr>sh = s, mpc = Idle\<rparr> \<lparr>sh = s3, mpc = Have ?read\<rparr>" .
  have "?steps \<lparr>sh = s3, mpc = Have ?read\<rparr> \<lparr>sh = s3, mpc = Got ?read res\<rparr>"
    using mbx_step.get [of "\<lparr>sh = s3, mpc = Have ?read\<rparr>" ?read fpga tmp0] by (auto simp: res_def)
  also have "?steps \<lparr>sh = s3, mpc = Got ?read res\<rparr> \<lparr>sh = s4, mpc = Replied ?read\<rparr>"
    using mbx_step.reply [of "\<lparr>sh = s3, mpc = Got ?read res\<rparr>" ?read res fpga s4 tmp0] reply_read [OF cnt1(2)] by (auto simp: s4_def)
  also have "?steps \<lparr>sh = s4, mpc = Replied ?read\<rparr> \<lparr>sh = s5, mpc = Cleared ?read\<rparr>"
    using mbx_step.clear [of "\<lparr>sh = s4, mpc = Replied ?read\<rparr>" ?read fpga tmp0] by (auto simp: s5_def)
  also have "?steps \<lparr>sh = s5, mpc = Cleared ?read\<rparr> \<lparr>sh = s5, mpc = Idle\<rparr>"
    using mbx_step.perform [of "\<lparr>sh = s5, mpc = Cleared ?read\<rparr>" ?read fpga tmp0 s5] by (auto simp: mbx_perform_def)
  finally have second: "?steps \<lparr>sh = s3, mpc = Have ?read\<rparr> \<lparr>sh = s5, mpc = Idle\<rparr>" .
  have posted: "rd64 s3 MBX_REQ_OFF = ?store" by (simp add: s3_def)
  have answered: "rd64 s5 MBX_REQ_OFF = 0" "rd64 s5 MBX_RSP_OFF = 1 OR push_bit 1 (ucast res)"
    by (simp_all add: s5_def s4_def)
  have "has (1 OR push_bit 1 (ucast res) :: u64) 1"
    by (simp add: has_def and.commute [of _ 1] bit.conj_disj_distrib)
  moreover have "csr s5 = csr s" "rap s5 = rap s" "pending s5 = pending s"
    by (simp_all add: s5_def s4_def s3_def s2_def s1_def acknowledged_def)
  ultimately show ?thesis
    using first second posted answered by (intro exI [of _ "\<lparr>sh = s3, mpc = Have ?read\<rparr>"] exI [of _ "\<lparr>sh = s5, mpc = Idle\<rparr>"]) simp
qed

theorem mailbox_request_lost_witness:
  "\<exists>c c'. (mbx_step (\<lambda>x. x) [])\<^sup>*\<^sup>* \<lparr>sh = fresh_ddr3, mpc = Idle\<rparr> c \<and>
     rd64 (sh c) MBX_REQ_OFF = mbx_request True A2065_RDP_OFF CSR0_STOP \<and> (mbx_step (\<lambda>x. x) [])\<^sup>*\<^sup>* c c' \<and>
     rd64 (sh c') MBX_REQ_OFF = 0 \<and> pending (sh c') = []"
proof -
  have "rd64 fresh_ddr3 MBX_REQ_OFF = 0" "req_cnt fresh_ddr3 + 1 < INT_MAX"
    by (simp_all add: fresh_ddr3_facts)
  from mailbox_request_lost [OF this, of "\<lambda>x. x" "[]" A2065_RDP_OFF CSR0_STOP] show ?thesis
    by (auto simp: fresh_ddr3_facts)
qed

end
