(* ===== verification/Bridge.thy ===== *)
theory Bridge
  imports Tx_Gather
begin

text \<open>
  \<^verbatim>\<open>src/arm/src/main.cpp\<close> with \<^verbatim>\<open>bridge.cpp\<close>, \<^verbatim>\<open>bridge_sim.cpp\<close> and \<^verbatim>\<open>include/a2065_bridge.h\<close>: the daemon on
  the HPS-to-FPGA bridge. The window holds eight bytes of register mailbox, the interrupt registers
  and, from \<^verbatim>\<open>0x8000\<close>, the board RAM. The FPGA raises NEW_REQ for a register access and stretches the
  68k's bus cycle until DONE.

  \<open>bridge_turn\<close> is one turn of the main loop and \<open>bridge_rx\<close> one turn of the receive thread. The daemon
  takes no lock; each turn is run here without the other in between. File descriptors, mappings and
  the shared-memory name are the kernel's: what it holds for the process is recorded in the state,
  what it answers is an argument.
\<close>

unbundle bit_operations_syntax

section \<open>The window\<close>

abbreviation BRIDGE_WINDOW_SIZE :: u32 where "BRIDGE_WINDOW_SIZE \<equiv> 0x10000"
abbreviation BRIDGE_REG_DATA :: u32 where "BRIDGE_REG_DATA \<equiv> 0x0000"
abbreviation BRIDGE_REG_ADDR :: u32 where "BRIDGE_REG_ADDR \<equiv> 0x0002"
abbreviation BRIDGE_REG_RW :: u32 where "BRIDGE_REG_RW \<equiv> 0x0003"
abbreviation BRIDGE_REG_NEW_REQ :: u32 where "BRIDGE_REG_NEW_REQ \<equiv> 0x0004"
abbreviation BRIDGE_REG_DONE :: u32 where "BRIDGE_REG_DONE \<equiv> 0x0005"
abbreviation BRIDGE_REG_RESULT :: u32 where "BRIDGE_REG_RESULT \<equiv> 0x0006"
abbreviation BRIDGE_INT_SET :: u32 where "BRIDGE_INT_SET \<equiv> 0x0010"
abbreviation BRIDGE_BOARDRAM_OFF :: u32 where "BRIDGE_BOARDRAM_OFF \<equiv> 0x8000"

definition BRIDGE_READ8 :: "'a window_scheme \<Rightarrow> u32 \<Rightarrow> u8" where
  "BRIDGE_READ8 s off = map_w s off"

definition BRIDGE_READ16 :: "'a window_scheme \<Rightarrow> u32 \<Rightarrow> u16" where
  "BRIDGE_READ16 s off = ucast (map_w s off) OR push_bit 8 (ucast (map_w s (off + 1)))"

definition BRIDGE_WRITE8 :: "'a window_scheme \<Rightarrow> u32 \<Rightarrow> u8 \<Rightarrow> 'a window_scheme" where
  "BRIDGE_WRITE8 s off v = s\<lparr>map_w := (map_w s)(off := v)\<rparr>"

definition BRIDGE_WRITE16 :: "'a window_scheme \<Rightarrow> u32 \<Rightarrow> u16 \<Rightarrow> 'a window_scheme" where
  "BRIDGE_WRITE16 s off v = s\<lparr>map_w := (map_w s)(off := ucast v, off + 1 := ucast (drop_bit 8 v))\<rparr>"

section \<open>The daemon's state\<close>

text \<open>A pointer that \<^verbatim>\<open>mmap\<close> returned: null, the failure value, or a mapping of the window.\<close>

datatype map_ptr = Null | Map_Failed | Mapped

record bridge_daemon = a2065 +
  bridge :: map_ptr
  sim_mode :: bool
  tx_poll_counter :: int
  bridge_mapping :: map_ptr
  bridge_mapped_size :: u32
  bridge_fd :: int
  sim_mapping :: map_ptr
  sim_size :: u32
  sim_fd :: int
  os_fds :: "int list"
  os_maps :: nat
  os_shm :: bool

section \<open>Mapping the window\<close>

text \<open>The kernel's answers: the descriptor of \<^verbatim>\<open>open\<close> or \<^verbatim>\<open>shm_open\<close>, and whether \<^verbatim>\<open>ftruncate\<close> and \<^verbatim>\<open>mmap\<close>
  succeed.\<close>

record map_env =
  env_fd :: int
  env_truncate :: bool
  env_mmap :: bool

definition os_open :: "int \<Rightarrow> 'a bridge_daemon_scheme \<Rightarrow> 'a bridge_daemon_scheme" where
  "os_open fd s = (if fd < 0 then s else s\<lparr>os_fds := fd # os_fds s\<rparr>)"

definition os_close :: "int \<Rightarrow> 'a bridge_daemon_scheme \<Rightarrow> 'a bridge_daemon_scheme" where
  "os_close fd s = s\<lparr>os_fds := removeAll fd (os_fds s)\<rparr>"

definition bridge_do_mmap :: "map_env \<Rightarrow> u32 \<Rightarrow> 'a bridge_daemon_scheme \<Rightarrow> map_ptr \<times> 'a bridge_daemon_scheme" where
  "bridge_do_mmap env sz s =
    (let fd = env_fd env;
         s = os_open fd s
     in if fd < 0 then (Null, s)
        else if \<not> env_mmap env then (Null, os_close fd s)
        else (let s = s\<lparr>os_maps := os_maps s + 1\<rparr>;
                  s = s\<lparr>bridge_mapping := Mapped, bridge_mapped_size := sz, bridge_fd := fd\<rparr>
              in (Mapped, s)))"

definition bridge_unmap :: "'a bridge_daemon_scheme \<Rightarrow> 'a bridge_daemon_scheme" where
  "bridge_unmap s =
    (let s = (if bridge_mapping s \<noteq> Null \<and> bridge_mapping s \<noteq> Map_Failed
              then s\<lparr>os_maps := os_maps s - 1, bridge_mapping := Null\<rparr> else s)
     in if 0 \<le> bridge_fd s then (os_close (bridge_fd s) s)\<lparr>bridge_fd := -1\<rparr> else s)"

definition bridge_sim_open :: "map_env \<Rightarrow> u32 \<Rightarrow> 'a bridge_daemon_scheme \<Rightarrow> map_ptr \<times> 'a bridge_daemon_scheme" where
  "bridge_sim_open env sz s =
    (let s = os_open (env_fd env) s;
         s = s\<lparr>sim_fd := env_fd env\<rparr>
     in if sim_fd s < 0 then (Null, s)
        else (let s = s\<lparr>os_shm := True\<rparr>
          in if \<not> env_truncate env then (Null, (os_close (sim_fd s) s)\<lparr>sim_fd := -1\<rparr>)
             else if \<not> env_mmap env then (Null, (os_close (sim_fd s) (s\<lparr>sim_mapping := Map_Failed\<rparr>))\<lparr>sim_fd := -1\<rparr>)
             else (let s = s\<lparr>sim_mapping := Mapped, os_maps := os_maps s + 1\<rparr>;
                       s = s\<lparr>map_w := (\<lambda>a. if a < sz then 0 else map_w s a)\<rparr>;
                       s = s\<lparr>sim_size := sz\<rparr>
                   in (Mapped, s))))"

definition bridge_sim_close :: "'a bridge_daemon_scheme \<Rightarrow> 'a bridge_daemon_scheme" where
  "bridge_sim_close s =
    (let s = (if sim_mapping s \<noteq> Null \<and> sim_mapping s \<noteq> Map_Failed
              then s\<lparr>os_maps := os_maps s - 1, sim_mapping := Null\<rparr> else s)
     in if 0 \<le> sim_fd s then (os_close (sim_fd s) (s\<lparr>os_shm := False\<rparr>))\<lparr>sim_fd := -1\<rparr> else s)"

section \<open>Serving the bridge\<close>

definition bridge_on_interrupt_cb :: "'a bridge_daemon_scheme \<Rightarrow> 'a bridge_daemon_scheme" where
  "bridge_on_interrupt_cb s = (if bridge s = Null then s else BRIDGE_WRITE8 s BRIDGE_INT_SET 1)"

definition bridge_on_transmit_cb ::
  "u8 list \<Rightarrow> 'a bridge_daemon_scheme \<Rightarrow> (nat \<times> 'a bridge_daemon_scheme) option" where
  "bridge_on_transmit_cb tmp0 s = do_transmit (Some bridge_on_interrupt_cb) tmp0 s"

definition bridge_rx ::
  "u8 list \<Rightarrow> u8 list option \<Rightarrow> u8 list \<Rightarrow> 'a bridge_daemon_scheme \<Rightarrow> (u8 list \<times> 'a bridge_daemon_scheme) option" where
  "bridge_rx tmp0 answer rxbuf s = do {
     (len, rxbuf) \<leftarrow> ethernet_recv answer rxbuf s;
     if len > 0 then do {
       s \<leftarrow> gotfunc (Some bridge_on_interrupt_cb) tmp0 rxbuf (nat len) s;
       Some (rxbuf, s)
     } else Some (rxbuf, s)
   }"

definition service_bridge :: "u8 list \<Rightarrow> 'a bridge_daemon_scheme \<Rightarrow> ('a bridge_daemon_scheme) option" where
  "service_bridge tmp0 s =
    (if BRIDGE_READ8 s BRIDGE_REG_NEW_REQ = 0 then Some s
     else do {
       let addr_off = BRIDGE_READ8 s BRIDGE_REG_ADDR;
       let rw = BRIDGE_READ8 s BRIDGE_REG_RW;
       let data = BRIDGE_READ16 s BRIDGE_REG_DATA;
       (result, s) \<leftarrow> (if rw \<noteq> 0
          then do { s \<leftarrow> chip_wput (Some bridge_on_interrupt_cb) (Some (bridge_on_transmit_cb tmp0)) addr_off data s; Some (0, s) }
          else Some (chip_wget addr_off s, s));
       let s = BRIDGE_WRITE16 s BRIDGE_REG_RESULT result;
       Some (BRIDGE_WRITE8 s BRIDGE_REG_DONE 1)
     })"

definition bridge_set_default_mac :: "'a bridge_daemon_scheme \<Rightarrow> 'a bridge_daemon_scheme" where
  "bridge_set_default_mac s =
    (let realmac = (if \<not> sim_mode s then ethernet_get_mac s else replicate 6 0);
         fm = [0x00, 0x80, 0x10, realmac ! 3, realmac ! 4, realmac ! 5];
         realmac = realmac[0 := 0x00, 1 := 0x80, 2 := 0x10];
         s = s\<lparr>mac := mac_set_addresses fm realmac (mac s)\<rparr>
     in registers_set_fakemac fm s)"

text \<open>Lines 126 to 148: \<open>Inl\<close> is the exit status of a start that fails.\<close>

definition bridge_start ::
  "map_env \<Rightarrow> nic_env \<Rightarrow> 'a bridge_daemon_scheme \<Rightarrow> nat \<times> 'a bridge_daemon_scheme + 'a bridge_daemon_scheme" where
  "bridge_start menv nic s =
    (let (p, s) = (if sim_mode s then bridge_sim_open menv BRIDGE_WINDOW_SIZE s
                   else bridge_do_mmap menv BRIDGE_WINDOW_SIZE s);
         s = s\<lparr>bridge := p\<rparr>
     in if bridge s = Null then Inl (1, s)
        else (let s = registers_reset s;
                  s = registers_set_boardram BRIDGE_BOARDRAM_OFF s;
                  s = bridge_set_default_mac s
              in if \<not> sim_mode s then
                   (let (ok, s) = ethernet_open nic s in if \<not> ok then Inl (1, s) else Inr (s\<lparr>tx_poll_counter := 0\<rparr>))
                 else Inr (s\<lparr>tx_poll_counter := 0\<rparr>)))"

definition bridge_turn :: "u8 list \<Rightarrow> 'a bridge_daemon_scheme \<Rightarrow> ('a bridge_daemon_scheme) option" where
  "bridge_turn tmp0 s = do {
     s \<leftarrow> service_bridge tmp0 s;
     let s = s\<lparr>tx_poll_counter := tx_poll_counter s + 1\<rparr>;
     if tx_poll_counter s \<ge> 1000 then do {
       (_, s) \<leftarrow> do_transmit (Some bridge_on_interrupt_cb) tmp0 s;
       Some (s\<lparr>tx_poll_counter := 0\<rparr>)
     } else Some s
   }"

text \<open>Lines 166 to 174, after a signal.\<close>

definition bridge_stop :: "'a bridge_daemon_scheme \<Rightarrow> 'a bridge_daemon_scheme" where
  "bridge_stop s =
    (let s = ethernet_close s
     in if sim_mode s then bridge_sim_close s else bridge_unmap s)"

section \<open>Window accesses and the board RAM\<close>

lemma bridge_read_write [simp]:
  "BRIDGE_READ8 (BRIDGE_WRITE8 s off v) off' = (if off' = off then v else BRIDGE_READ8 s off')"
  "BRIDGE_READ8 (BRIDGE_WRITE16 s off w) off' =
     (if off' = off + 1 then ucast (drop_bit 8 w) else if off' = off then ucast w else BRIDGE_READ8 s off')"
  by (simp_all add: BRIDGE_READ8_def BRIDGE_WRITE8_def BRIDGE_WRITE16_def)

lemma bridge_word_round_trip [simp]: "BRIDGE_READ16 (BRIDGE_WRITE16 s off v) off = v"
proof -
  have "ucast (ucast v :: u8) OR push_bit 8 (ucast (ucast (drop_bit 8 v) :: u8)) = v"
    using u16_halves [of v] by (simp add: or.commute)
  then show ?thesis by (simp add: BRIDGE_READ16_def BRIDGE_WRITE16_def)
qed

lemma read16_write8 [simp]: "off' \<noteq> off \<Longrightarrow> off' + 1 \<noteq> off \<Longrightarrow> BRIDGE_READ16 (BRIDGE_WRITE8 s off v) off' = BRIDGE_READ16 s off'"
  by (simp add: BRIDGE_READ16_def BRIDGE_WRITE8_def)

lemma ram_view_write8:
  assumes "boardram s = BRIDGE_BOARDRAM_OFF" and "off < 0x8000"
  shows "ram_view (s\<lparr>map_w := (map_w s)(off := v)\<rparr>) = ram_view s"
proof (rule ext)
  fix x :: ram_addr
  let ?y = "(ucast x XOR 1) AND RAM_MASK :: u32"
  have "unat ?y < 0x8000" using and_RAM_MASK_le [of "ucast x XOR 1"] by (simp add: word_le_nat_alt)
  then have "unat (0x8000 + ?y) = 0x8000 + unat ?y" by (simp add: unat_word_ariths)
  then have "0x8000 + ?y \<noteq> off" using assms(2) by (auto simp: word_less_nat_alt)
  then show "ram_view (s\<lparr>map_w := (map_w s)(off := v)\<rparr>) x = ram_view s x"
    using assms(1) by (simp add: ram_view_def)
qed

lemma write8_same_chip:
  "boardram s = BRIDGE_BOARDRAM_OFF \<Longrightarrow> off < 0x8000 \<Longrightarrow> same_chip (BRIDGE_WRITE8 s off v) s"
  by (simp add: same_chip_def BRIDGE_WRITE8_def ram_view_write8)

lemma write16_split: "off + 1 \<noteq> off \<Longrightarrow> BRIDGE_WRITE16 s off v = BRIDGE_WRITE8 (BRIDGE_WRITE8 s off (ucast v)) (off + 1) (ucast (drop_bit 8 v))"
  by (simp add: BRIDGE_WRITE16_def BRIDGE_WRITE8_def)

lemma write16_same_chip:
  assumes "boardram s = BRIDGE_BOARDRAM_OFF" and "off < 0x7FFF"
  shows "same_chip (BRIDGE_WRITE16 s off v) s"
proof -
  have "off < 0x8000" "off + 1 < 0x8000" "off + 1 \<noteq> off"
    using assms(2) by (simp_all add: word_less_nat_alt unat_word_ariths)
  then show ?thesis
    using assms(1) write8_same_chip [of "BRIDGE_WRITE8 s off (ucast v)" "off + 1" "ucast (drop_bit 8 v)"]
      write8_same_chip [of s off "ucast v"]
    by (auto simp: write16_split BRIDGE_WRITE8_def intro: same_chip_trans)
qed

interpretation br: int_callback "Some bridge_on_interrupt_cb" BRIDGE_BOARDRAM_OFF
  by unfold_locales (simp add: call_int_def bridge_on_interrupt_cb_def write8_same_chip)

interpretation br: tx_callback "Some bridge_on_interrupt_cb" BRIDGE_BOARDRAM_OFF "Some (bridge_on_transmit_cb tmp0)" for tmp0
  by unfold_locales (auto simp: call_tx_def bridge_on_transmit_cb_def intro: br.do_transmit_busy)

text \<open>The daemon's own variables are left alone by the chip.\<close>

lemma ram_writes_vars [simp]:
  "bridge (put_ram_word s off w) = bridge s" "sim_mode (put_ram_word s off w) = sim_mode s"
  "tx_poll_counter (put_ram_word s off w) = tx_poll_counter s"
  "bridge (ram_write_block s off bs) = bridge s" "sim_mode (ram_write_block s off bs) = sim_mode s"
  "tx_poll_counter (ram_write_block s off bs) = tx_poll_counter s"
  by (simp_all add: put_ram_word_def put_ram_byte_def) (subst ram_write_block_map_w, simp)+

lemma chip_vars [simp]:
  "bridge (set_csr k v s) = bridge s" "sim_mode (set_csr k v s) = sim_mode s" "tx_poll_counter (set_csr k v s) = tx_poll_counter s"
  "bridge (BRIDGE_WRITE8 s off b) = bridge s" "sim_mode (BRIDGE_WRITE8 s off b) = sim_mode s"
  "tx_poll_counter (BRIDGE_WRITE8 s off b) = tx_poll_counter s"
  "bridge (BRIDGE_WRITE16 s off v) = bridge s" "sim_mode (BRIDGE_WRITE16 s off v) = sim_mode s"
  "tx_poll_counter (BRIDGE_WRITE16 s off v) = tx_poll_counter s"
  by (simp_all add: set_csr_def BRIDGE_WRITE8_def BRIDGE_WRITE16_def)

interpretation vars: ring_closed "Some bridge_on_interrupt_cb"
  "\<lambda>s. bridge s = p \<and> sim_mode s = sm \<and> tx_poll_counter s = n" for p sm n
  by unfold_locales (simp_all add: call_int_def bridge_on_interrupt_cb_def)

interpretation vars: chip_closed "Some bridge_on_interrupt_cb"
  "\<lambda>s. bridge s = p \<and> sim_mode s = sm \<and> tx_poll_counter s = n" "Some (bridge_on_transmit_cb tmp0)" for p sm n tmp0
  by unfold_locales
    (simp_all add: call_tx_def bridge_on_transmit_cb_def, auto dest: vars.P_do_transmit [rotated])

section \<open>The invariant\<close>

text \<open>The window is mapped, the chip is consistent with its board RAM at \<^verbatim>\<open>0x8000\<close>, and the transmit poll
  counter is within its period.\<close>

definition bridge_inv :: "'a bridge_daemon_scheme \<Rightarrow> bool" where
  "bridge_inv s \<longleftrightarrow> chip_inv BRIDGE_BOARDRAM_OFF s \<and> bridge s \<noteq> Null \<and> 0 \<le> tx_poll_counter s \<and> tx_poll_counter s < 1000"

lemma chip_inv_counter [simp]: "chip_inv base (s\<lparr>tx_poll_counter := n\<rparr>) = chip_inv base s"
  by (simp add: chip_inv_def chip_busy_def config_ok_def)

lemma chip_inv_boardram: "chip_inv base s \<Longrightarrow> boardram s = base"
  by (simp add: chip_inv_def chip_busy_def)

lemma service_bridge_cases:
  assumes "service_bridge tmp0 s = Some t"
  obtains "BRIDGE_READ8 s BRIDGE_REG_NEW_REQ = 0" "t = s"
  | result u where "BRIDGE_READ8 s BRIDGE_REG_NEW_REQ \<noteq> 0"
      "t = BRIDGE_WRITE8 (BRIDGE_WRITE16 u BRIDGE_REG_RESULT result) BRIDGE_REG_DONE 1"
      "if BRIDGE_READ8 s BRIDGE_REG_RW \<noteq> 0
       then result = 0 \<and> chip_wput (Some bridge_on_interrupt_cb) (Some (bridge_on_transmit_cb tmp0))
         (BRIDGE_READ8 s BRIDGE_REG_ADDR) (BRIDGE_READ16 s BRIDGE_REG_DATA) s = Some u
       else result = chip_wget (BRIDGE_READ8 s BRIDGE_REG_ADDR) s \<and> u = s"
  using assms by (auto simp: service_bridge_def Let_def split: if_splits bind_splits)

lemma reply_same_chip:
  assumes "boardram u = BRIDGE_BOARDRAM_OFF"
  shows "same_chip (BRIDGE_WRITE8 (BRIDGE_WRITE16 u BRIDGE_REG_RESULT r) BRIDGE_REG_DONE 1) u"
  using assms write16_same_chip [of u BRIDGE_REG_RESULT r] same_chip_trans
    write8_same_chip [of "BRIDGE_WRITE16 u BRIDGE_REG_RESULT r" BRIDGE_REG_DONE 1]
  by (fastforce simp: BRIDGE_WRITE16_def)

lemma service_bridge_inv:
  assumes inv: "bridge_inv s" and step: "service_bridge tmp0 s = Some t"
  shows "bridge_inv t \<and> tx_poll_counter t = tx_poll_counter s"
  using step
proof (cases rule: service_bridge_cases)
  case 1
  then show ?thesis using inv by simp
next
  case (2 result u)
  have "chip_inv BRIDGE_BOARDRAM_OFF s" using inv by (simp add: bridge_inv_def)
  then have u: "chip_inv BRIDGE_BOARDRAM_OFF u"
    using 2(3) br.chip_wput_inv by (auto split: if_splits)
  have v: "bridge u = bridge s \<and> tx_poll_counter u = tx_poll_counter s"
    using 2(3) vars.P_chip_wput [where p = "bridge s" and sm = "sim_mode s" and n = "tx_poll_counter s" and s = s]
    by (auto split: if_splits)
  have "chip_inv BRIDGE_BOARDRAM_OFF t"
    using same_chip_inv [OF reply_same_chip [of u result], of BRIDGE_BOARDRAM_OFF] u 2(2) by (simp add: chip_inv_boardram)
  then show ?thesis
    using inv v 2(2) by (simp add: bridge_inv_def)
qed

lemma bridge_turn_cases:
  assumes "bridge_turn tmp0 s = Some t"
  obtains u where "service_bridge tmp0 s = Some u" "tx_poll_counter u + 1 < 1000"
      "t = u\<lparr>tx_poll_counter := tx_poll_counter u + 1\<rparr>"
  | u r v where "service_bridge tmp0 s = Some u" "1000 \<le> tx_poll_counter u + 1"
      "do_transmit (Some bridge_on_interrupt_cb) tmp0 (u\<lparr>tx_poll_counter := tx_poll_counter u + 1\<rparr>) = Some (r, v)"
      "t = v\<lparr>tx_poll_counter := 0\<rparr>"
  using assms by (force simp: bridge_turn_def Let_def split: if_splits bind_splits)

lemma bridge_turn_facts:
  assumes inv: "bridge_inv s" and step: "bridge_turn tmp0 s = Some t"
  shows "bridge_inv t \<and> tx_poll_counter t = (tx_poll_counter s + 1) mod 1000"
  using step
proof (cases rule: bridge_turn_cases)
  case (1 u)
  then show ?thesis
    using service_bridge_inv [OF inv 1(1)] by (simp add: bridge_inv_def)
next
  case (2 u r v)
  have u: "bridge_inv u" "tx_poll_counter u = tx_poll_counter s" using service_bridge_inv [OF inv 2(1)] by simp_all
  have "chip_inv BRIDGE_BOARDRAM_OFF v"
    using br.do_transmit_inv [OF _ 2(3)] u by (simp add: bridge_inv_def)
  moreover have "bridge v = bridge u"
    using vars.P_do_transmit [OF _ 2(3), of "bridge u" "sim_mode u" "tx_poll_counter u + 1"] by simp
  moreover have "tx_poll_counter s + 1 = 1000" using u 2(2) by (simp add: bridge_inv_def)
  ultimately show ?thesis using u by (simp add: 2(4) bridge_inv_def)
qed

text \<open>Every turn of the bridge daemon's main loop keeps the chip consistent and the transmit poll on its
  period: the counter goes up by one, and every thousandth turn polls the transmit ring and starts
  again from zero.\<close>

theorem bridge_turn_inv:
  assumes "bridge_inv s" and "bridge_turn tmp0 s = Some t"
  shows "bridge_inv t \<and> tx_poll_counter t = (tx_poll_counter s + 1) mod 1000"
  using assms by (rule bridge_turn_facts)

text \<open>A turn of the bridge daemon's receive thread keeps the same invariant, whatever arrives.\<close>

theorem bridge_rx_inv:
  assumes "bridge_inv s" and "bridge_rx tmp0 answer rxbuf s = Some (rxbuf', t)"
  shows "bridge_inv t"
proof -
  consider "t = s" | len where "gotfunc (Some bridge_on_interrupt_cb) tmp0 rxbuf' len s = Some t"
    using assms(2) by (auto simp: bridge_rx_def split: if_splits bind_splits)
  then show ?thesis
  proof cases
    case 2
    then show ?thesis
      using br.gotfunc_inv [OF _ 2] vars.P_gotfunc [OF _ 2, of "bridge s" "sim_mode s" "tx_poll_counter s"] assms(1)
      by (auto simp: bridge_inv_def)
  qed (use assms(1) in simp)
qed

text \<open>A read the FPGA requested is answered in the same turn with the value of the register, the answer is
  marked done, and the chip is unchanged.\<close>

theorem service_bridge_read:
  assumes inv: "bridge_inv s" and req: "BRIDGE_READ8 s BRIDGE_REG_NEW_REQ \<noteq> 0" and rd: "BRIDGE_READ8 s BRIDGE_REG_RW = 0"
  shows "\<exists>t. service_bridge tmp0 s = Some t \<and>
    BRIDGE_READ16 t BRIDGE_REG_RESULT = chip_wget (BRIDGE_READ8 s BRIDGE_REG_ADDR) s \<and>
    BRIDGE_READ8 t BRIDGE_REG_DONE = 1 \<and> same_chip t s"
proof -
  have "boardram s = BRIDGE_BOARDRAM_OFF" using inv by (simp add: bridge_inv_def chip_inv_boardram)
  then show ?thesis
    using req rd reply_same_chip [of s "chip_wget (BRIDGE_READ8 s BRIDGE_REG_ADDR) s"] by (simp add: service_bridge_def)
qed

text \<open>The request fields lie below the board RAM, so no ring operation and no register write touches them.\<close>

lemma request_untouched:
  assumes "boardram s = BRIDGE_BOARDRAM_OFF" and "a < 0x8000"
  shows "map_w (put_ram_byte s off v) a = map_w s a"
proof -
  let ?y = "(off XOR 1) AND RAM_MASK"
  have "unat ?y < 0x8000" using and_RAM_MASK_le [of "off XOR 1"] by (simp add: word_le_nat_alt)
  then have "unat (0x8000 + ?y) = 0x8000 + unat ?y" by (simp add: unat_word_ariths)
  then have "a \<noteq> 0x8000 + ?y" using assms(2) by (auto simp: word_less_nat_alt)
  then show ?thesis using assms(1) by (simp add: put_ram_byte_def)
qed

lemma request_untouched_word:
  "boardram s = BRIDGE_BOARDRAM_OFF \<Longrightarrow> a < 0x8000 \<Longrightarrow> map_w (put_ram_word s off w) a = map_w s a"
  by (simp add: put_ram_word_def request_untouched)

lemma request_untouched_block:
  "boardram s = BRIDGE_BOARDRAM_OFF \<Longrightarrow> a < 0x8000 \<Longrightarrow> map_w (ram_write_block s off bs) a = map_w s a"
proof (induction bs arbitrary: s off)
  case (Cons b bs)
  then show ?case using request_untouched [of s a off b] by (simp add: put_ram_byte_def)
qed simp

definition request_is :: "u8 list \<Rightarrow> 'a window_scheme \<Rightarrow> bool" where
  "request_is req s \<longleftrightarrow> map (BRIDGE_READ8 s) [0, 1, BRIDGE_REG_ADDR, BRIDGE_REG_RW, BRIDGE_REG_NEW_REQ] = req"

lemma request_is_frame:
  assumes "boardram s = BRIDGE_BOARDRAM_OFF"
  shows "request_is req (put_ram_word s off w) = request_is req s" "request_is req (ram_write_block s off bs) = request_is req s"
  using assms by (simp_all add: request_is_def BRIDGE_READ8_def request_untouched_word request_untouched_block)

lemma request_is_chip [simp]:
  "request_is req (s\<lparr>boardram := b\<rparr>) = request_is req s" "request_is req (set_csr k v t) = request_is req t"
  "request_is req (BRIDGE_WRITE8 s BRIDGE_INT_SET 1) = request_is req s"
  "request_is req (BRIDGE_WRITE8 s BRIDGE_REG_DONE 1) = request_is req s"
  "request_is req (BRIDGE_WRITE16 s BRIDGE_REG_RESULT r) = request_is req s"
  by (simp_all add: request_is_def) (simp_all add: BRIDGE_READ8_def)

interpretation req: ring_closed "Some bridge_on_interrupt_cb" "\<lambda>s. boardram s = BRIDGE_BOARDRAM_OFF \<and> request_is q s" for q
  by unfold_locales
    (simp_all add: request_is_frame call_int_def bridge_on_interrupt_cb_def, simp_all add: request_is_def BRIDGE_READ8_def BRIDGE_WRITE8_def)

interpretation req: chip_closed "Some bridge_on_interrupt_cb" "\<lambda>s. boardram s = BRIDGE_BOARDRAM_OFF \<and> request_is q s"
  "Some (bridge_on_transmit_cb tmp0)" for q tmp0
  by unfold_locales
    (simp_all add: call_tx_def bridge_on_transmit_cb_def, auto dest: req.P_do_transmit [rotated], simp_all add: request_is_def BRIDGE_READ8_def)

lemma service_bridge_request:
  assumes inv: "bridge_inv s" and req: "request_is q s" and step: "service_bridge tmp0 s = Some t"
  shows "request_is q t"
  using step
proof (cases rule: service_bridge_cases)
  case (2 result u)
  have "boardram s = BRIDGE_BOARDRAM_OFF" using inv by (simp add: bridge_inv_def chip_inv_boardram)
  then have "request_is q u"
    using 2(3) req req.P_chip_wput [where q = q and s = s] by (auto split: if_splits)
  then show ?thesis using 2(2) by simp
qed (use req in simp)

text \<open>The daemon answers a request but never withdraws it: after the turn the request, its address, its
  direction and its data are still in the window, so unless the other side has cleared NEW_REQ by then
  the next turn performs the same access again.\<close>

theorem service_bridge_repeats:
  assumes "bridge_inv s" and "request_is q s" and "service_bridge tmp0 s = Some t"
  shows "request_is q t"
  using assms by (rule service_bridge_request)

section \<open>Start-up and the mapping\<close>

lemma map_frame [simp]:
  "host_mac (snd (bridge_do_mmap env sz s)) = host_mac s" "host_mac (snd (bridge_sim_open env sz s)) = host_mac s"
  "sim_mode (snd (bridge_do_mmap env sz s)) = sim_mode s" "sim_mode (snd (bridge_sim_open env sz s)) = sim_mode s"
  "config_ok (snd (bridge_do_mmap env sz s)) = config_ok s" "config_ok (snd (bridge_sim_open env sz s)) = config_ok s"
  by (simp_all add: bridge_do_mmap_def bridge_sim_open_def os_open_def os_close_def Let_def config_ok_def)

lemma config_ok_bridge [simp]: "config_ok (s\<lparr>bridge := p\<rparr>) = config_ok s"
  by (simp add: config_ok_def)

text \<open>The chip as the start-up leaves it before the network is opened.\<close>

definition bridge_chip :: "map_env \<Rightarrow> 'a bridge_daemon_scheme \<Rightarrow> 'a bridge_daemon_scheme" where
  "bridge_chip menv s =
    (let (p, s) = (if sim_mode s then bridge_sim_open menv BRIDGE_WINDOW_SIZE s else bridge_do_mmap menv BRIDGE_WINDOW_SIZE s)
     in bridge_set_default_mac (registers_set_boardram BRIDGE_BOARDRAM_OFF (registers_reset (s\<lparr>bridge := p\<rparr>))))"

lemma bridge_start_Inr:
  assumes "bridge_start menv nic s = Inr t"
  obtains u where "u = bridge_chip menv s \<or> u = snd (ethernet_open nic (bridge_chip menv s))"
    and "t = u\<lparr>tx_poll_counter := 0\<rparr>" and "bridge (bridge_chip menv s) \<noteq> Null"
proof -
  have "bridge (bridge_set_default_mac (registers_set_boardram b (registers_reset v))) = bridge v" for b and v :: "'a bridge_daemon_scheme"
    by (simp add: bridge_set_default_mac_def Let_def registers_set_fakemac_def registers_set_boardram_def registers_reset_def)
  then show thesis
    using assms that by (auto simp: bridge_start_def bridge_chip_def Let_def case_prod_beta split: if_splits)
qed

lemma bridge_chip_mac:
  assumes "host_mac s = replicate 6 0"
  shows "fakemac (bridge_chip menv s) = [0x00, 0x80, 0x10, 0, 0, 0]"
    "mac_fakemac (mac (bridge_chip menv s)) = [0x00, 0x80, 0x10, 0, 0, 0]"
    "mac_realmac (mac (bridge_chip menv s)) = [0x00, 0x80, 0x10, 0, 0, 0]"
proof -
  have rl: "replicate 6 (0 :: u8) = [0, 0, 0, 0, 0, 0]" by (simp add: numeral_eq_Suc)
  show "fakemac (bridge_chip menv s) = [0x00, 0x80, 0x10, 0, 0, 0]"
    "mac_fakemac (mac (bridge_chip menv s)) = [0x00, 0x80, 0x10, 0, 0, 0]"
    "mac_realmac (mac (bridge_chip menv s)) = [0x00, 0x80, 0x10, 0, 0, 0]"
    using assms
    by (simp_all add: bridge_chip_def case_prod_beta bridge_set_default_mac_def Let_def registers_set_fakemac_def mac_set_addresses_def
        registers_reset_def registers_set_boardram_def ethernet_get_mac_def rl)
qed

text \<open>Whatever the network interface reports later, the bridge daemon starts with the address
  00:80:10:00:00:00 on both sides, because it asks for the interface address before the interface is
  open: the card's address is not unique and the translation is switched off.\<close>

theorem bridge_start_mac:
  assumes mac: "host_mac s = replicate 6 0" and start: "bridge_start menv nic s = Inr t"
  shows "fakemac t = [0x00, 0x80, 0x10, 0, 0, 0] \<and> mungepacket (mac t) p len = Some (p, if len < 20 then 0 else len)"
  using start
proof (rule bridge_start_Inr)
  fix u
  assume "u = bridge_chip menv s \<or> u = snd (ethernet_open nic (bridge_chip menv s))" and "t = u\<lparr>tx_poll_counter := 0\<rparr>"
  then show ?thesis
    using bridge_chip_mac [OF mac, of menv] by (auto simp: mungepacket_def)
qed

text \<open>Whatever the kernel answers, opening the bridge and closing it again leaves no descriptor and no
  mapping behind, a failed opening leaves none to close, and closing twice is harmless.\<close>

theorem bridge_map_released:
  assumes "bridge_fd s = -1" and "bridge_mapping s = Null" and "env_fd env \<notin> set (os_fds s)"
    and "bridge_do_mmap env sz s = (p, t)" and "bridge_unmap t = u"
  shows "os_fds u = os_fds s \<and> os_maps u = os_maps s \<and> bridge_fd u = -1 \<and> bridge_mapping u = Null \<and>
    bridge_unmap u = u \<and> (p = Null \<longrightarrow> os_fds t = os_fds s \<and> os_maps t = os_maps s)"
  using assms
  by (auto simp: bridge_do_mmap_def bridge_unmap_def os_open_def os_close_def Let_def removeAll_id split: if_splits)

text \<open>The same for the simulated bridge, with one exception: when the mapping fails the shared-memory
  object has already been created and is never removed, because closing looks only at the descriptor.\<close>

theorem bridge_sim_released:
  assumes "sim_mapping s = Null" and "env_fd env \<notin> set (os_fds s)" and "\<not> os_shm s"
    and "bridge_sim_open env sz s = (p, t)" and "bridge_sim_close t = u"
  shows "os_fds u = os_fds s \<and> os_maps u = os_maps s \<and> sim_fd u < 0 \<and>
    (os_shm u \<longleftrightarrow> 0 \<le> env_fd env \<and> p = Null)"
  using assms
  by (auto simp: bridge_sim_open_def bridge_sim_close_def os_open_def os_close_def Let_def removeAll_id split: if_splits)

lemma bridge_start_facts:
  assumes "config_ok s" and "length (host_mac s) = 6" and start: "bridge_start menv nic s = Inr t"
  shows "bridge_inv t \<and> csr t 0 = CSR0_STOP"
  using start
proof (rule bridge_start_Inr)
  fix u
  assume u: "u = bridge_chip menv s \<or> u = snd (ethernet_open nic (bridge_chip menv s))"
    and t: "t = u\<lparr>tx_poll_counter := 0\<rparr>" and b: "bridge (bridge_chip menv s) \<noteq> Null"
  let ?c = "bridge_chip menv s"
  have conf: "config_ok (bridge_set_default_mac (registers_set_boardram b (registers_reset v)))"
    if "config_ok v" "length (host_mac v) = 6" for b and v :: "'a bridge_daemon_scheme"
    using that
    by (simp add: config_ok_def bridge_set_default_mac_def Let_def registers_set_fakemac_def mac_set_addresses_def mac_wf_def
        registers_reset_def registers_set_boardram_def ethernet_get_mac_def)
  have "config_ok ?c"
    using assms(1,2) by (simp add: bridge_chip_def case_prod_beta, intro conjI impI conf) simp_all
  moreover have "boardram ?c = BRIDGE_BOARDRAM_OFF" "csr ?c 0 = CSR0_STOP"
    by (simp_all add: bridge_chip_def case_prod_beta bridge_set_default_mac_def Let_def registers_set_fakemac_def
        registers_reset_def registers_set_boardram_def)
  ultimately have "chip_inv BRIDGE_BOARDRAM_OFF ?c" "csr ?c 0 = CSR0_STOP"
    by (simp_all add: chip_inv_def chip_busy_def csr0_settled_def csr0_ok_def has_def)
  moreover have "chip_inv BRIDGE_BOARDRAM_OFF (snd (ethernet_open nic ?c)) = chip_inv BRIDGE_BOARDRAM_OFF ?c"
    by (simp add: chip_inv_def chip_busy_def config_ok_def)
  moreover have "bridge (snd (ethernet_open nic ?c)) = bridge ?c"
    by (simp add: ethernet_open_def Let_def split: option.splits)
  ultimately show ?thesis
    using u b by (auto simp: t bridge_inv_def)
qed

text \<open>A bridge daemon that starts does so in its invariant, with the chip stopped.\<close>

theorem bridge_start_inv:
  assumes "config_ok s" and "length (host_mac s) = 6" and "bridge_start menv nic s = Inr t"
  shows "bridge_inv t \<and> csr t 0 = CSR0_STOP"
  using assms by (rule bridge_start_facts)

section \<open>A started bridge daemon\<close>

definition bridge_init :: "bool \<Rightarrow> bridge_daemon" where
  "bridge_init sim = a2065.extend (static_init 0)
     \<lparr>bridge = Null, sim_mode = sim, tx_poll_counter = 0, bridge_mapping = Null, bridge_mapped_size = 0, bridge_fd = -1,
      sim_mapping = Null, sim_size = 0, sim_fd = -1, os_fds = [], os_maps = 0, os_shm = False\<rparr>"


definition sample_map :: map_env where
  "sample_map = \<lparr>env_fd = 4, env_truncate = True, env_mmap = True\<rparr>"

definition sample_net :: nic_env where
  "sample_net = \<lparr>env_socket = 3, env_ifindex = True, env_hwaddr = Some [0x00, 0x1b, 0x21, 0x0a, 0x0b, 0x0c], env_bind = True\<rparr>"

lemma bridge_init_ok: "config_ok (bridge_init sim)" "length (host_mac (bridge_init sim)) = 6" "host_mac (bridge_init sim) = replicate 6 0"
  by (simp_all add: bridge_init_def static_init_def a2065.defs config_ok_def mac_wf_def)

text \<open>The daemon started on the hardware, and a read of CSR0 and a write of RAP waiting for it.\<close>

definition bridge_started :: bridge_daemon where
  "bridge_started = (case bridge_start sample_map sample_net (bridge_init False) of Inr t \<Rightarrow> t | Inl (_, t) \<Rightarrow> t)"

definition bridge_asked :: "u8 \<Rightarrow> u8 \<Rightarrow> bridge_daemon" where
  "bridge_asked addr rw = BRIDGE_WRITE8 (BRIDGE_WRITE8 (BRIDGE_WRITE8 bridge_started BRIDGE_REG_ADDR addr) BRIDGE_REG_RW rw) BRIDGE_REG_NEW_REQ 1"

lemma bridge_starts: "bridge_start sample_map sample_net (bridge_init False) = Inr bridge_started"
proof -
  have "sim_mode (bridge_init False) = False" by (simp add: bridge_init_def a2065.defs)
  moreover have "fst (bridge_do_mmap sample_map BRIDGE_WINDOW_SIZE (bridge_init False)) = Mapped"
    by (simp add: bridge_do_mmap_def sample_map_def Let_def)
  moreover have "fst (ethernet_open sample_net v)" for v :: bridge_daemon
    by (simp add: ethernet_open_def sample_net_def)
  ultimately have "\<exists>t. bridge_start sample_map sample_net (bridge_init False) = Inr t"
    by (simp add: bridge_start_def Let_def case_prod_beta registers_reset_def registers_set_boardram_def
        bridge_set_default_mac_def registers_set_fakemac_def)
  then show ?thesis by (auto simp: bridge_started_def)
qed

theorem bridge_start_inv_witness: "bridge_inv bridge_started \<and> csr bridge_started 0 = CSR0_STOP"
  using bridge_start_inv [OF bridge_init_ok(1,2) bridge_starts] .

theorem bridge_start_mac_witness: "fakemac bridge_started = [0x00, 0x80, 0x10, 0, 0, 0]"
  using bridge_start_mac [OF bridge_init_ok(3) bridge_starts, of "[]" 0] by simp

theorem bridge_map_released_witness:
  "os_fds (bridge_unmap (snd (bridge_do_mmap sample_map 0x10000 (bridge_init False)))) = []"
  using bridge_map_released [of "bridge_init False" sample_map "0x10000"
      "fst (bridge_do_mmap sample_map 0x10000 (bridge_init False))" "snd (bridge_do_mmap sample_map 0x10000 (bridge_init False))"
      "bridge_unmap (snd (bridge_do_mmap sample_map 0x10000 (bridge_init False)))"]
  by (simp add: bridge_init_def a2065.defs)

theorem bridge_sim_released_witness:
  "os_shm (bridge_sim_close (snd (bridge_sim_open (sample_map\<lparr>env_mmap := False\<rparr>) 0x10000 (bridge_init True))))"
  using bridge_sim_released [of "bridge_init True" "sample_map\<lparr>env_mmap := False\<rparr>" "0x10000"
      "fst (bridge_sim_open (sample_map\<lparr>env_mmap := False\<rparr>) 0x10000 (bridge_init True))"
      "snd (bridge_sim_open (sample_map\<lparr>env_mmap := False\<rparr>) 0x10000 (bridge_init True))"
      "bridge_sim_close (snd (bridge_sim_open (sample_map\<lparr>env_mmap := False\<rparr>) 0x10000 (bridge_init True)))"]
  by (simp add: bridge_init_def a2065.defs sample_map_def) (simp add: bridge_sim_open_def sample_map_def)

lemma bridge_started_facts: "bridge_inv bridge_started" "csr bridge_started 0 = CSR0_STOP" "tx_poll_counter bridge_started = 0"
proof -
  obtain u :: bridge_daemon where "bridge_started = u\<lparr>tx_poll_counter := 0\<rparr>"
    by (rule bridge_start_Inr [OF bridge_starts])
  from arg_cong [OF this, of tx_poll_counter] show "tx_poll_counter bridge_started = 0" by simp
qed (use bridge_start_facts [OF bridge_init_ok(1,2) bridge_starts] in simp_all)

lemma bridge_asked_facts:
  "bridge_inv (bridge_asked addr rw)" "BRIDGE_READ8 (bridge_asked addr rw) BRIDGE_REG_NEW_REQ = 1"
  "BRIDGE_READ8 (bridge_asked addr rw) BRIDGE_REG_RW = rw" "BRIDGE_READ8 (bridge_asked addr rw) BRIDGE_REG_ADDR = addr"
  "tx_poll_counter (bridge_asked addr rw) = 0"
proof -
  have w: "bridge_inv (BRIDGE_WRITE8 s off v)" if "bridge_inv s" "off < 0x8000" for s :: bridge_daemon and off v
    using that same_chip_inv [OF write8_same_chip [of s off v], of BRIDGE_BOARDRAM_OFF] by (simp add: bridge_inv_def chip_inv_boardram)
  show "bridge_inv (bridge_asked addr rw)"
    using bridge_started_facts(1) by (simp add: bridge_asked_def w)
qed (simp_all add: bridge_asked_def bridge_started_facts)

lemma bridge_asked_rap: "\<exists>t. service_bridge [] (bridge_asked A2065_RAP_OFF 1) = Some t"
  by (simp add: service_bridge_def bridge_asked_facts chip_wput_def)

theorem bridge_turn_inv_witness:
  "\<exists>t. bridge_turn [] (bridge_asked A2065_RAP_OFF 1) = Some t \<and> bridge_inv t \<and> tx_poll_counter t = 1"
proof -
  obtain u where u: "service_bridge [] (bridge_asked A2065_RAP_OFF 1) = Some u" using bridge_asked_rap by blast
  then have "tx_poll_counter u = 0"
    using service_bridge_inv [OF bridge_asked_facts(1) u] by (simp add: bridge_asked_facts)
  then have "\<exists>t. bridge_turn [] (bridge_asked A2065_RAP_OFF 1) = Some t"
    using u by (simp add: bridge_turn_def)
  then show ?thesis
    using bridge_turn_inv [OF bridge_asked_facts(1)] by (auto simp: bridge_asked_facts)
qed

theorem bridge_rx_inv_witness:
  "\<exists>b t. bridge_rx [] None [] bridge_started = Some (b, t) \<and> bridge_inv t"
proof -
  have "bridge_rx [] None [] bridge_started = Some ([], bridge_started)" by (simp add: bridge_rx_def ethernet_recv_def)
  then show ?thesis using bridge_rx_inv [OF bridge_started_facts(1), of "[]" None "[]" "[]"] by blast
qed

theorem service_bridge_read_witness:
  "\<exists>t. service_bridge [] (bridge_asked A2065_RDP_OFF 0) = Some t \<and> BRIDGE_READ8 t BRIDGE_REG_DONE = 1"
  using service_bridge_read [OF bridge_asked_facts(1), of A2065_RDP_OFF 0 "[]"] by (auto simp: bridge_asked_facts)

theorem service_bridge_repeats_witness:
  "\<exists>t. service_bridge [] (bridge_asked A2065_RAP_OFF 1) = Some t \<and> BRIDGE_READ8 t BRIDGE_REG_NEW_REQ = 1"
proof -
  let ?s = "bridge_asked A2065_RAP_OFF 1"
  obtain t where t: "service_bridge [] ?s = Some t" using bridge_asked_rap by blast
  have "request_is (map (BRIDGE_READ8 ?s) [0, 1, BRIDGE_REG_ADDR, BRIDGE_REG_RW, BRIDGE_REG_NEW_REQ]) ?s"
    by (simp add: request_is_def)
  then have "BRIDGE_READ8 t BRIDGE_REG_NEW_REQ = 1"
    using service_bridge_repeats [OF bridge_asked_facts(1) _ t] by (fastforce simp: request_is_def bridge_asked_facts)
  then show ?thesis using t by blast
qed

end
