(* ===== verification/Client.thy ===== *)
theory Client
  imports Bridge
begin

text \<open>
  \<^verbatim>\<open>src/arm/src/bridge_client.cpp\<close>: the program that plays the FPGA against a daemon started with
  \<^verbatim>\<open>--sim\<close>. It shares the window with the daemon through \<^verbatim>\<open>shm_open\<close>, posts register accesses in the
  mailbox, polls DONE a hundred times, and counts its checks.

  The daemon is another process on the same window. \<open>sched\<close> is the interleaving: the numbers of turns
  of the daemon's main loop (\<open>bridge_turn\<close>) that complete before each access and during each sleep of
  the client, in order; when the list is used up the daemon takes no more turns. A turn is run here
  without an access of the client in between. The two byte reads of \<^verbatim>\<open>ram_get_word\<close>, which C leaves
  unordered, are made left to right.

  The lemmas compose the two programs: which schedules make a posted read return the register, and
  what the mailbox, in which nobody ever clears NEW_REQ, does on the others.
\<close>

unbundle bit_operations_syntax

section \<open>Client and daemon\<close>

record bridge_client = bridge_daemon +
  sched :: "nat list"
  pass_count :: int
  fail_count :: int

fun daemon_turns :: "u8 list \<Rightarrow> nat \<Rightarrow> 'a bridge_daemon_scheme \<Rightarrow> ('a bridge_daemon_scheme) option" where
  "daemon_turns tmp0 0 s = Some s"
| "daemon_turns tmp0 (Suc n) s = do { s \<leftarrow> bridge_turn tmp0 s; daemon_turns tmp0 n s }"

definition run_daemon :: "u8 list \<Rightarrow> 'a bridge_client_scheme \<Rightarrow> ('a bridge_client_scheme) option" where
  "run_daemon tmp0 s = (case sched s of [] \<Rightarrow> Some s | n # ns \<Rightarrow> daemon_turns tmp0 n (s\<lparr>sched := ns\<rparr>))"

definition store8 :: "u8 list \<Rightarrow> u32 \<Rightarrow> u8 \<Rightarrow> 'a bridge_client_scheme \<Rightarrow> ('a bridge_client_scheme) option" where
  "store8 tmp0 off v s = do { s \<leftarrow> run_daemon tmp0 s; Some (BRIDGE_WRITE8 s off v) }"

definition store16 :: "u8 list \<Rightarrow> u32 \<Rightarrow> u16 \<Rightarrow> 'a bridge_client_scheme \<Rightarrow> ('a bridge_client_scheme) option" where
  "store16 tmp0 off v s = do { s \<leftarrow> run_daemon tmp0 s; Some (BRIDGE_WRITE16 s off v) }"

definition load8 :: "u8 list \<Rightarrow> u32 \<Rightarrow> 'a bridge_client_scheme \<Rightarrow> (u8 \<times> 'a bridge_client_scheme) option" where
  "load8 tmp0 off s = do { s \<leftarrow> run_daemon tmp0 s; Some (BRIDGE_READ8 s off, s) }"

definition load16 :: "u8 list \<Rightarrow> u32 \<Rightarrow> 'a bridge_client_scheme \<Rightarrow> (u16 \<times> 'a bridge_client_scheme) option" where
  "load16 tmp0 off s = do { s \<leftarrow> run_daemon tmp0 s; Some (BRIDGE_READ16 s off, s) }"

definition CHECK :: "bool \<Rightarrow> 'a bridge_client_scheme \<Rightarrow> 'a bridge_client_scheme" where
  "CHECK cond s = (if cond then s\<lparr>pass_count := pass_count s + 1\<rparr> else s\<lparr>fail_count := fail_count s + 1\<rparr>)"

section \<open>The operations of the client\<close>

definition ram_put_word :: "u8 list \<Rightarrow> u32 \<Rightarrow> u16 \<Rightarrow> 'a bridge_client_scheme \<Rightarrow> ('a bridge_client_scheme) option" where
  "ram_put_word tmp0 off v s = do {
     s \<leftarrow> store8 tmp0 (BRIDGE_BOARDRAM_OFF + off) (ucast (drop_bit 8 v)) s;
     store8 tmp0 (BRIDGE_BOARDRAM_OFF + off + 1) (ucast v) s
   }"

definition ram_put_byte :: "u8 list \<Rightarrow> u32 \<Rightarrow> u8 \<Rightarrow> 'a bridge_client_scheme \<Rightarrow> ('a bridge_client_scheme) option" where
  "ram_put_byte tmp0 off v s = store8 tmp0 (BRIDGE_BOARDRAM_OFF + off) v s"

definition ram_get_word :: "u8 list \<Rightarrow> u32 \<Rightarrow> 'a bridge_client_scheme \<Rightarrow> (u16 \<times> 'a bridge_client_scheme) option" where
  "ram_get_word tmp0 off s = do {
     (hi, s) \<leftarrow> load8 tmp0 (BRIDGE_BOARDRAM_OFF + off) s;
     (lo, s) \<leftarrow> load8 tmp0 (BRIDGE_BOARDRAM_OFF + off + 1) s;
     Some (push_bit 8 (ucast hi) OR ucast lo, s)
   }"

text \<open>\<^verbatim>\<open>for (int i = 0; i < 100; i++) { if (DONE) break; nanosleep(...); }\<close>\<close>

fun wait_done :: "u8 list \<Rightarrow> nat \<Rightarrow> 'a bridge_client_scheme \<Rightarrow> ('a bridge_client_scheme) option" where
  "wait_done tmp0 0 s = Some s"
| "wait_done tmp0 (Suc n) s = do {
     (done, s) \<leftarrow> load8 tmp0 BRIDGE_REG_DONE s;
     if done \<noteq> 0 then Some s
     else do { s \<leftarrow> run_daemon tmp0 s; wait_done tmp0 n s }
   }"

definition write_reg :: "u8 list \<Rightarrow> u8 \<Rightarrow> u16 \<Rightarrow> 'a bridge_client_scheme \<Rightarrow> ('a bridge_client_scheme) option" where
  "write_reg tmp0 addr_off data s = do {
     s \<leftarrow> store16 tmp0 BRIDGE_REG_DATA data s;
     s \<leftarrow> store8 tmp0 BRIDGE_REG_ADDR addr_off s;
     s \<leftarrow> store8 tmp0 BRIDGE_REG_RW 1 s;
     s \<leftarrow> store8 tmp0 BRIDGE_REG_NEW_REQ 1 s;
     s \<leftarrow> wait_done tmp0 100 s;
     store8 tmp0 BRIDGE_REG_DONE 0 s
   }"

definition read_reg :: "u8 list \<Rightarrow> u8 \<Rightarrow> 'a bridge_client_scheme \<Rightarrow> (u16 \<times> 'a bridge_client_scheme) option" where
  "read_reg tmp0 addr_off s = do {
     s \<leftarrow> store8 tmp0 BRIDGE_REG_ADDR addr_off s;
     s \<leftarrow> store8 tmp0 BRIDGE_REG_RW 0 s;
     s \<leftarrow> store8 tmp0 BRIDGE_REG_NEW_REQ 1 s;
     s \<leftarrow> wait_done tmp0 100 s;
     s \<leftarrow> store8 tmp0 BRIDGE_REG_DONE 0 s;
     load16 tmp0 BRIDGE_REG_RESULT s
   }"

definition write_rap :: "u8 list \<Rightarrow> u16 \<Rightarrow> 'a bridge_client_scheme \<Rightarrow> ('a bridge_client_scheme) option" where
  "write_rap tmp0 v s = write_reg tmp0 A2065_RAP_OFF v s"

definition write_rdp :: "u8 list \<Rightarrow> u16 \<Rightarrow> 'a bridge_client_scheme \<Rightarrow> ('a bridge_client_scheme) option" where
  "write_rdp tmp0 v s = write_reg tmp0 A2065_RDP_OFF v s"

definition read_rdp :: "u8 list \<Rightarrow> 'a bridge_client_scheme \<Rightarrow> (u16 \<times> 'a bridge_client_scheme) option" where
  "read_rdp tmp0 s = read_reg tmp0 A2065_RDP_OFF s"

abbreviation TX_RING :: u32 where "TX_RING \<equiv> 0x1000"
abbreviation RX_RING :: u32 where "RX_RING \<equiv> 0x2000"
abbreviation TX_BUF :: u32 where "TX_BUF \<equiv> 0x3000"
abbreviation RX_BUF :: u32 where "RX_BUF \<equiv> 0x4000"

definition build_init_block :: "u8 list \<Rightarrow> 'a bridge_client_scheme \<Rightarrow> ('a bridge_client_scheme) option" where
  "build_init_block tmp0 s = do {
     s \<leftarrow> ram_put_word tmp0 0 0x0000 s;
     s \<leftarrow> ram_put_byte tmp0 2 0x80 s;
     s \<leftarrow> ram_put_byte tmp0 3 0x00 s;
     s \<leftarrow> ram_put_byte tmp0 4 0xBB s;
     s \<leftarrow> ram_put_byte tmp0 5 0x10 s;
     s \<leftarrow> ram_put_byte tmp0 6 0xCC s;
     s \<leftarrow> ram_put_byte tmp0 7 0xAA s;
     s \<leftarrow> ram_put_word tmp0 8 0 s;
     s \<leftarrow> ram_put_word tmp0 10 0 s;
     s \<leftarrow> ram_put_word tmp0 12 0 s;
     s \<leftarrow> ram_put_word tmp0 14 0 s;
     let rdr = (push_bit 29 2 OR (RX_RING AND 0x00fffff8) :: u32);
     let tdr = (push_bit 29 2 OR (TX_RING AND 0x00fffff8) :: u32);
     s \<leftarrow> ram_put_word tmp0 16 (ucast rdr) s;
     s \<leftarrow> ram_put_word tmp0 18 (ucast (drop_bit 16 rdr)) s;
     s \<leftarrow> ram_put_word tmp0 20 (ucast tdr) s;
     ram_put_word tmp0 22 (ucast (drop_bit 16 tdr)) s
   }"

definition test_init_sequence :: "u8 list \<Rightarrow> 'a bridge_client_scheme \<Rightarrow> ('a bridge_client_scheme) option" where
  "test_init_sequence tmp0 s = do {
     s \<leftarrow> write_rap tmp0 0 s;
     s \<leftarrow> write_rdp tmp0 CSR0_STOP s;
     let s = CHECK True s;
     s \<leftarrow> write_rap tmp0 1 s;
     s \<leftarrow> write_rdp tmp0 0x0000 s;
     s \<leftarrow> write_rap tmp0 2 s;
     s \<leftarrow> write_rdp tmp0 0x0000 s;
     s \<leftarrow> write_rap tmp0 0 s;
     s \<leftarrow> write_rdp tmp0 CSR0_INIT s;
     s \<leftarrow> run_daemon tmp0 s;
     s \<leftarrow> write_rdp tmp0 CSR0_STRT s;
     s \<leftarrow> run_daemon tmp0 s;
     (csr0, s) \<leftarrow> read_rdp tmp0 s;
     let s = CHECK (has csr0 CSR0_IDON) s;
     Some (CHECK (has csr0 CSR0_STRT) s)
   }"

definition test_frame :: "u8 list" where
  "test_frame =
    (let frame = replicate 60 0;
         frame = frame[0 := 0xFF, 1 := 0xFF, 2 := 0xFF, 3 := 0xFF, 4 := 0xFF, 5 := 0xFF];
         frame = frame[6 := 0x00, 7 := 0x80, 8 := 0x10, 9 := 0xAA, 10 := 0xBB, 11 := 0xCC, 12 := 0x08, 13 := 0x06]
     in fold (\<lambda>i frame. frame[i := of_nat i]) [14..<60] frame)"

fun store_frame :: "u8 list \<Rightarrow> u32 \<Rightarrow> u8 list \<Rightarrow> 'a bridge_client_scheme \<Rightarrow> ('a bridge_client_scheme) option" where
  "store_frame tmp0 off [] s = Some s"
| "store_frame tmp0 off (b # bs) s = do { s \<leftarrow> store8 tmp0 off b s; store_frame tmp0 (off + 1) bs s }"

definition test_tx :: "u8 list \<Rightarrow> 'a bridge_client_scheme \<Rightarrow> ('a bridge_client_scheme) option" where
  "test_tx tmp0 s = do {
     let off = TX_RING;
     s \<leftarrow> ram_put_word tmp0 (off + 0) (ucast TX_BUF) s;
     s \<leftarrow> ram_put_word tmp0 (off + 2) (TX_OWN OR TX_STP OR TX_ENP) s;
     s \<leftarrow> ram_put_word tmp0 (off + 4) (- 60) s;
     s \<leftarrow> ram_put_word tmp0 (off + 6) 0 s;
     s \<leftarrow> store_frame tmp0 (BRIDGE_BOARDRAM_OFF + TX_BUF) test_frame s;
     s \<leftarrow> write_rap tmp0 0 s;
     s \<leftarrow> write_rdp tmp0 (CSR0_INEA OR CSR0_TDMD OR CSR0_STRT OR CSR0_INIT) s;
     s \<leftarrow> run_daemon tmp0 s;
     (tmd1, s) \<leftarrow> ram_get_word tmp0 (TX_RING + 2) s;
     let s = CHECK (\<not> has tmd1 TX_OWN) s;
     (csr0, s) \<leftarrow> read_rdp tmp0 s;
     Some (CHECK (has csr0 CSR0_TINT) s)
   }"

definition test_rx :: "u8 list \<Rightarrow> 'a bridge_client_scheme \<Rightarrow> ('a bridge_client_scheme) option" where
  "test_rx tmp0 s = do {
     let off = RX_RING;
     s \<leftarrow> ram_put_word tmp0 (off + 0) (ucast RX_BUF) s;
     s \<leftarrow> ram_put_word tmp0 (off + 2) RX_OWN s;
     s \<leftarrow> ram_put_word tmp0 (off + 4) (- 1024) s;
     s \<leftarrow> ram_put_word tmp0 (off + 6) 0 s;
     s \<leftarrow> write_rap tmp0 0 s;
     (csr0, s) \<leftarrow> read_rdp tmp0 s;
     s \<leftarrow> (if \<not> has csr0 CSR0_RXON
           then do { s \<leftarrow> write_rdp tmp0 (CSR0_INEA OR CSR0_STRT OR CSR0_INIT) s; run_daemon tmp0 s }
           else Some s);
     (_, s) \<leftarrow> ram_get_word tmp0 (RX_RING + 2) s;
     let s = CHECK True s;
     (rmd1, s) \<leftarrow> ram_get_word tmp0 (RX_RING + 2) s;
     s \<leftarrow> (if \<not> has rmd1 RX_OWN
           then do { (rmd3, s) \<leftarrow> ram_get_word tmp0 (RX_RING + 6) s; Some (CHECK (rmd3 > 0) s) }
           else Some s);
     (csr0, s) \<leftarrow> read_rdp tmp0 s;
     if has csr0 CSR0_RINT then Some (CHECK (has csr0 CSR0_RINT) s) else Some (CHECK True s)
   }"

text \<open>\<^verbatim>\<open>main\<close>: the exit status, with the kernel's answers to \<^verbatim>\<open>shm_open\<close> and \<^verbatim>\<open>mmap\<close> in the environment.\<close>

definition client_main :: "map_env \<Rightarrow> u8 list \<Rightarrow> 'a bridge_client_scheme \<Rightarrow> (nat \<times> 'a bridge_client_scheme) option" where
  "client_main env tmp0 s =
    (if env_fd env < 0 then Some (1, s)
     else if \<not> env_mmap env then Some (1, s)
     else do {
       s \<leftarrow> build_init_block tmp0 s;
       s \<leftarrow> test_init_sequence tmp0 s;
       s \<leftarrow> test_tx tmp0 s;
       s \<leftarrow> test_rx tmp0 s;
       Some (if fail_count s \<noteq> 0 then 1 else 0, s)
     })"

section \<open>What a turn of the daemon leaves alone\<close>

lemma ram_writes_client [simp]:
  "sched (put_ram_word s off w) = sched s" "pass_count (put_ram_word s off w) = pass_count s"
  "fail_count (put_ram_word s off w) = fail_count s"
  "sched (ram_write_block s off bs) = sched s" "pass_count (ram_write_block s off bs) = pass_count s"
  "fail_count (ram_write_block s off bs) = fail_count s"
  by (simp_all add: put_ram_word_def put_ram_byte_def) (subst ram_write_block_map_w, simp)+

lemma chip_client [simp]:
  "sched (set_csr k v s) = sched s" "pass_count (set_csr k v s) = pass_count s" "fail_count (set_csr k v s) = fail_count s"
  "sched (BRIDGE_WRITE8 s off b) = sched s" "pass_count (BRIDGE_WRITE8 s off b) = pass_count s"
  "fail_count (BRIDGE_WRITE8 s off b) = fail_count s"
  "sched (BRIDGE_WRITE16 s off w) = sched s" "pass_count (BRIDGE_WRITE16 s off w) = pass_count s"
  "fail_count (BRIDGE_WRITE16 s off w) = fail_count s"
  by (simp_all add: set_csr_def BRIDGE_WRITE8_def BRIDGE_WRITE16_def)

definition client_vars :: "nat list \<Rightarrow> int \<Rightarrow> int \<Rightarrow> 'a bridge_client_scheme \<Rightarrow> bool" where
  "client_vars ns p f s \<longleftrightarrow> sched s = ns \<and> pass_count s = p \<and> fail_count s = f"

interpretation cv: ring_closed "Some bridge_on_interrupt_cb" "client_vars ns p f" for ns p f
  by unfold_locales (simp_all add: call_int_def bridge_on_interrupt_cb_def client_vars_def)

interpretation cv: chip_closed "Some bridge_on_interrupt_cb" "client_vars ns p f" "Some (bridge_on_transmit_cb tmp0)" for ns p f tmp0
  by unfold_locales
    (simp_all add: call_tx_def bridge_on_transmit_cb_def client_vars_def,
     auto dest: cv.P_do_transmit [unfolded client_vars_def, rotated])

lemma service_bridge_vars:
  assumes "client_vars ns p f s" and step: "service_bridge tmp0 s = Some t"
  shows "client_vars ns p f t"
  using step
proof (cases rule: service_bridge_cases)
  case (2 result u)
  then have "client_vars ns p f u"
    using assms(1) cv.P_chip_wput [where s = s] by (auto split: if_splits)
  then show ?thesis using 2(2) by (simp add: client_vars_def)
qed (use assms in simp)

lemma client_vars_counter [simp]: "client_vars ns p f (s\<lparr>tx_poll_counter := k\<rparr>) = client_vars ns p f s"
  by (simp add: client_vars_def)

lemma bridge_turn_vars:
  assumes "client_vars ns p f s" and step: "bridge_turn tmp0 s = Some t"
  shows "client_vars ns p f t"
  using step
proof (cases rule: bridge_turn_cases)
  case (1 u)
  then show ?thesis using service_bridge_vars [OF assms(1)] by simp
next
  case (2 u r v)
  then show ?thesis using service_bridge_vars [OF assms(1)] cv.P_do_transmit [OF _ 2(3)] by simp
qed

lemma daemon_turns_vars: "client_vars ns p f s \<Longrightarrow> daemon_turns tmp0 n s = Some t \<Longrightarrow> client_vars ns p f t"
  by (induction n arbitrary: s) (auto split: bind_splits dest: bridge_turn_vars)

lemma run_daemon_counts:
  assumes "run_daemon tmp0 s = Some t"
  shows "pass_count t = pass_count s \<and> fail_count t = fail_count s \<and> sched t = drop 1 (sched s)"
proof (cases "sched s")
  case (Cons n ns)
  have "client_vars ns (pass_count s) (fail_count s) (s\<lparr>sched := ns\<rparr>)" by (simp add: client_vars_def)
  moreover have "daemon_turns tmp0 n (s\<lparr>sched := ns\<rparr>) = Some t" using assms Cons by (simp add: run_daemon_def)
  ultimately have "client_vars ns (pass_count s) (fail_count s) t" by (rule daemon_turns_vars)
  then show ?thesis using Cons by (simp add: client_vars_def)
qed (use assms in \<open>simp add: run_daemon_def\<close>)

section \<open>What holds across an interleaved run\<close>

text \<open>A property that a turn of the daemon and a store of the client keep is kept by every operation of the
  client, whatever the schedule.\<close>

locale client_closed =
  fixes tmp0 :: "u8 list" and P :: "'a bridge_client_scheme \<Rightarrow> bool"
  assumes P_turn: "P s \<Longrightarrow> holds P (bridge_turn tmp0 s)"
    and P_sched: "P s \<Longrightarrow> P (s\<lparr>sched := ns\<rparr>)"
    and P_write8: "P s \<Longrightarrow> P (BRIDGE_WRITE8 s off b)"
    and P_write16: "P s \<Longrightarrow> P (BRIDGE_WRITE16 s off v)"
begin

lemma P_run_daemon: "P s \<Longrightarrow> holds P (run_daemon tmp0 s)"
proof -
  have "P s \<Longrightarrow> holds P (daemon_turns tmp0 n s)" for n s
    by (induction n arbitrary: s) (auto intro: P_turn [THEN holds_bind])
  then show "P s \<Longrightarrow> holds P (run_daemon tmp0 s)"
    by (simp add: run_daemon_def P_sched split: list.split)
qed

lemma P_access:
  assumes "P s"
  shows "holds P (store8 tmp0 off b s)" "holds P (store16 tmp0 off v s)"
    "holds (\<lambda>(_, s). P s) (load8 tmp0 off s)" "holds (\<lambda>(_, s). P s) (load16 tmp0 off s)"
  using P_run_daemon [OF assms]
  by (auto simp: store8_def store16_def load8_def load16_def elim!: holds_bind intro: P_write8 P_write16)

lemmas access_rules = P_access(1,2) [THEN holds_bind] P_access(3,4) [THEN holds_bind_pair] P_run_daemon [THEN holds_bind]

lemma P_wait_done: "P s \<Longrightarrow> holds P (wait_done tmp0 n s)"
  by (induction n arbitrary: s) (auto intro!: access_rules)

lemma P_ram:
  assumes "P s"
  shows "holds P (ram_put_word tmp0 off v s)" "holds P (ram_put_byte tmp0 off b s)"
    "holds (\<lambda>(_, s). P s) (ram_get_word tmp0 off s)"
  using assms by (auto simp: ram_put_word_def ram_put_byte_def ram_get_word_def intro!: access_rules P_access)

lemma P_store_frame: "P s \<Longrightarrow> holds P (store_frame tmp0 off bs s)"
  by (induction bs arbitrary: off s) (auto intro!: access_rules)

lemma P_port:
  assumes "P s"
  shows "holds P (write_rap tmp0 v s)" "holds P (write_rdp tmp0 v s)" "holds (\<lambda>(_, s). P s) (read_rdp tmp0 s)"
  using assms
  by (auto simp: write_rap_def write_rdp_def read_rdp_def write_reg_def read_reg_def
      intro!: access_rules P_wait_done [THEN holds_bind] P_access)

lemmas op_rules = P_run_daemon [THEN holds_bind] P_ram(1,2) [THEN holds_bind] P_ram(3) [THEN holds_bind_pair]
  P_store_frame [THEN holds_bind] P_port(1,2) [THEN holds_bind] P_port(3) [THEN holds_bind_pair]

lemma P_build_init_block: "P s \<Longrightarrow> holds P (build_init_block tmp0 s)"
  unfolding build_init_block_def Let_def by (intro op_rules P_ram)

end

text \<open>If the checks keep it too, the whole program does.\<close>

locale client_checked = client_closed +
  assumes P_CHECK: "P s \<Longrightarrow> P (CHECK c s)"
begin

lemma P_test_init_sequence: "P s \<Longrightarrow> holds P (test_init_sequence tmp0 s)"
  unfolding test_init_sequence_def Let_def by (auto intro!: op_rules P_CHECK)

lemma P_test_tx: "P s \<Longrightarrow> holds P (test_tx tmp0 s)"
  unfolding test_tx_def Let_def by (auto intro!: op_rules P_CHECK)

lemma P_test_rx:
  assumes "P s"
  shows "holds P (test_rx tmp0 s)"
proof -
  have rxon: "holds P (if b then Option.bind (write_rdp tmp0 v s) (run_daemon tmp0) else Some s)" if "P s" for b v s
    using that by (auto intro!: op_rules P_run_daemon)
  have own: "holds P (if b then Option.bind (ram_get_word tmp0 off s) (\<lambda>(r, s). Some (CHECK (0 < r) s)) else Some s)" if "P s" for b off s
    using that by (auto intro!: op_rules P_CHECK)
  show ?thesis
    unfolding test_rx_def Let_def using assms
    by (auto intro!: op_rules rxon [THEN holds_bind] own [THEN holds_bind] P_CHECK)
qed

lemma P_client_main: "P s \<Longrightarrow> holds (\<lambda>(_, s). P s) (client_main env tmp0 s)"
  unfolding client_main_def
  by (auto intro!: P_build_init_block [THEN holds_bind] P_test_init_sequence [THEN holds_bind] P_test_tx [THEN holds_bind]
      P_test_rx [THEN holds_bind])

end

lemma bridge_inv_client [simp]:
  "bridge_inv (BRIDGE_WRITE8 s off b) = bridge_inv s" "bridge_inv (BRIDGE_WRITE16 s off v) = bridge_inv s"
  "bridge_inv (s\<lparr>sched := ns\<rparr>) = bridge_inv s" "bridge_inv (CHECK c s) = bridge_inv s"
  by (simp_all add: bridge_inv_def BRIDGE_WRITE8_def BRIDGE_WRITE16_def CHECK_def chip_inv_def chip_busy_def config_ok_def)

lemma bridge_turn_holds: "bridge_inv s \<Longrightarrow> holds bridge_inv (bridge_turn tmp0 s)"
  using bridge_turn_facts [of s tmp0] by (simp add: holds_iff)

interpretation ci: client_checked tmp0 bridge_inv for tmp0
  by unfold_locales (simp_all add: bridge_turn_holds)

text \<open>Whatever the client does and however its accesses are interleaved with the daemon's turns, the daemon's
  invariant holds when the client ends.\<close>

theorem client_keeps_daemon:
  assumes "bridge_inv s" and "client_main env tmp0 s = Some (status, t)"
  shows "bridge_inv t"
  using ci.P_client_main assms by (force simp: holds_iff)

section \<open>The checks\<close>

text \<open>The number of checks made lies between \<open>n\<close> and \<open>m\<close>, at least \<open>k\<close> of them passed.\<close>

definition tally :: "int \<Rightarrow> int \<Rightarrow> int \<Rightarrow> 'a bridge_client_scheme \<Rightarrow> bool" where
  "tally n m k s \<longleftrightarrow> n \<le> pass_count s + fail_count s \<and> pass_count s + fail_count s \<le> m \<and> k \<le> pass_count s \<and> 0 \<le> fail_count s"

lemma tally_turn: "tally n m k s \<Longrightarrow> holds (tally n m k) (bridge_turn tmp0 s)"
  using bridge_turn_vars [of "sched s" "pass_count s" "fail_count s" s]
  by (auto simp: holds_iff tally_def client_vars_def)

interpretation tl: client_closed tmp0 "tally n m k" for tmp0 n m k
  by unfold_locales (simp_all add: tally_turn, simp_all add: tally_def)

lemma tally_CHECK:
  "tally n m k s \<Longrightarrow> c \<Longrightarrow> tally (n + 1) (m + 1) (k + 1) (CHECK c s)"
  "tally n m k s \<Longrightarrow> tally (n + 1) (m + 1) k (CHECK c s)"
  by (auto simp: tally_def CHECK_def)

lemma tally_CHECK_end: "tally (n - 1) (m - 1) k s \<Longrightarrow> tally n m k (CHECK c s)"
  by (auto simp: tally_def CHECK_def)

lemma tally_init_sequence: "tally n m k s \<Longrightarrow> holds (tally (n + 3) (m + 3) (k + 1)) (test_init_sequence tmp0 s)"
  unfolding test_init_sequence_def Let_def
  by (rule tl.op_rules tally_CHECK(1) TrueI | assumption | simp only: prod.case)+ (simp, intro tally_CHECK_end, simp add: algebra_simps)

lemma tally_tx: "tally n m k s \<Longrightarrow> holds (tally (n + 2) (m + 2) k) (test_tx tmp0 s)"
  unfolding test_tx_def Let_def
  by (rule tl.op_rules tally_CHECK(2) | assumption | simp only: prod.case)+ (simp, intro tally_CHECK_end, simp add: algebra_simps)

lemma tally_rx:
  assumes "tally n m k s"
  shows "holds (tally (n + 2) (m + 3) (k + 2)) (test_rx tmp0 s)"
proof -
  have rxon: "tally n m k s \<Longrightarrow>
      holds (tally n m k) (if b then Option.bind (write_rdp tmp0 v s) (run_daemon tmp0) else Some s)" for b v s n m k
    by (auto intro!: tl.op_rules tl.P_run_daemon)
  have own: "tally n m k s \<Longrightarrow>
      holds (tally n (m + 1) k) (if b then Option.bind (ram_get_word tmp0 off s) (\<lambda>(r, s). Some (CHECK (0 < r) s)) else Some s)"
    for b off s n m k
    by (auto intro!: tl.op_rules, auto simp: tally_def CHECK_def)
  have last: "tally (n + 1) (m + 1 + 1) (k + 1) s \<Longrightarrow>
      holds (tally (n + 2) (m + 3) (k + 2)) (if b then Some (CHECK b s) else Some (CHECK True s))" for b s
    by (auto simp: tally_def CHECK_def)
  show ?thesis
    unfolding test_rx_def Let_def using assms
    by - (rule tl.op_rules rxon [THEN holds_bind] own [THEN holds_bind] last tally_CHECK(1) TrueI | assumption | simp only: prod.case)+
qed

text \<open>A client that gets its window makes seven or eight checks, three of which cannot fail, and its exit
  status is 1 exactly when one of the others did.\<close>

theorem client_main_checks:
  assumes "0 \<le> env_fd env" and "env_mmap env" and "pass_count s = 0" and "fail_count s = 0"
    and "client_main env tmp0 s = Some (status, t)"
  shows "pass_count t + fail_count t \<in> {7, 8} \<and> 3 \<le> pass_count t \<and> (status = 0 \<longleftrightarrow> fail_count t = 0)"
proof -
  have s: "tally 0 0 0 s" using assms(3,4) by (simp add: tally_def)
  have "holds (\<lambda>(st, t). tally 7 8 3 t \<and> (st = 0 \<longleftrightarrow> fail_count t = 0)) (client_main env tmp0 s)"
    using assms(1,2) s
    by (auto simp: client_main_def
      intro!: tl.P_build_init_block [THEN holds_bind] tally_init_sequence [THEN holds_bind] tally_tx [THEN holds_bind]
        tally_rx [THEN holds_bind])
  then show ?thesis using assms(5) by (auto simp: tally_def)
qed

section \<open>A read that is answered\<close>

text \<open>A read of the register at \<open>a\<close> is posted, the chip is as in \<open>s0\<close>, and what is marked done is its answer.\<close>

definition reading :: "u8 \<Rightarrow> 'a bridge_client_scheme \<Rightarrow> 'a bridge_client_scheme \<Rightarrow> bool" where
  "reading a s0 s \<longleftrightarrow> bridge_inv s \<and> same_chip s s0 \<and>
     BRIDGE_READ8 s BRIDGE_REG_NEW_REQ \<noteq> 0 \<and> BRIDGE_READ8 s BRIDGE_REG_RW = 0 \<and> BRIDGE_READ8 s BRIDGE_REG_ADDR = a \<and>
     (BRIDGE_READ8 s BRIDGE_REG_DONE \<noteq> 0 \<longrightarrow> BRIDGE_READ16 s BRIDGE_REG_RESULT = chip_wget a s0)"

definition budget :: "'a bridge_client_scheme \<Rightarrow> bool" where
  "budget s \<longleftrightarrow> tx_poll_counter s + int (sum_list (sched s)) < 1000"

lemma same_chip_wget: "same_chip s t \<Longrightarrow> chip_wget a s = chip_wget a t"
  by (simp add: same_chip_def chip_wget_def)

lemma ram_view_upd [simp]:
  "ram_view (s\<lparr>tx_poll_counter := k\<rparr>) = ram_view s" "ram_view (s'\<lparr>sched := ns\<rparr>) = ram_view s'"
  by (rule ext, simp add: ram_view_def)+

lemma same_chip_upd [simp]:
  "same_chip (s\<lparr>tx_poll_counter := k\<rparr>) t = same_chip s t" "same_chip (s'\<lparr>sched := ns\<rparr>) t = same_chip s' t"
  by (simp_all add: same_chip_def)

lemma window_upd [simp]:
  "BRIDGE_READ8 (s\<lparr>tx_poll_counter := k\<rparr>) off = BRIDGE_READ8 s off" "BRIDGE_READ16 (s\<lparr>tx_poll_counter := k\<rparr>) off = BRIDGE_READ16 s off"
  "BRIDGE_READ8 (s'\<lparr>sched := ns\<rparr>) off = BRIDGE_READ8 s' off" "BRIDGE_READ16 (s'\<lparr>sched := ns\<rparr>) off = BRIDGE_READ16 s' off"
  by (simp_all add: BRIDGE_READ8_def BRIDGE_READ16_def)

lemma reading_turn:
  assumes r: "reading a s0 s" and c: "tx_poll_counter s + 1 < 1000"
  shows "\<exists>t. bridge_turn tmp0 s = Some t \<and> reading a s0 t \<and> tx_poll_counter t = tx_poll_counter s + 1 \<and> sched t = sched s \<and>
    BRIDGE_READ8 t BRIDGE_REG_DONE \<noteq> 0"
proof -
  let ?r = "BRIDGE_WRITE8 (BRIDGE_WRITE16 s BRIDGE_REG_RESULT (chip_wget a s)) BRIDGE_REG_DONE 1"
  let ?t = "?r\<lparr>tx_poll_counter := tx_poll_counter s + 1\<rparr>"
  have turn: "bridge_turn tmp0 s = Some ?t"
    using r c by (simp add: bridge_turn_def service_bridge_def reading_def)
  have "boardram s = BRIDGE_BOARDRAM_OFF" using r by (simp add: reading_def bridge_inv_def chip_inv_boardram)
  then have "same_chip ?t s0"
    using reply_same_chip [of s "chip_wget a s"] r same_chip_trans by (fastforce simp: reading_def)
  moreover have "bridge_inv ?t" using bridge_turn_facts [OF _ turn] r by (simp add: reading_def)
  ultimately have "reading a s0 ?t" using r same_chip_wget [of s s0 a] by (simp add: reading_def)
  then show ?thesis using turn by simp
qed

lemma reading_turns:
  assumes "reading a s0 s" and "tx_poll_counter s + int n < 1000"
  shows "\<exists>t. daemon_turns tmp0 n s = Some t \<and> reading a s0 t \<and> tx_poll_counter t = tx_poll_counter s + int n \<and> sched t = sched s \<and>
    (n = 0 \<longrightarrow> t = s) \<and> (0 < n \<longrightarrow> BRIDGE_READ8 t BRIDGE_REG_DONE \<noteq> 0)"
  using assms
proof (induction n arbitrary: s)
  case (Suc n)
  obtain u where u: "bridge_turn tmp0 s = Some u" "reading a s0 u" "tx_poll_counter u = tx_poll_counter s + 1" "sched u = sched s"
      "BRIDGE_READ8 u BRIDGE_REG_DONE \<noteq> 0"
    using reading_turn [OF Suc.prems(1), of tmp0] Suc.prems(2) by auto
  then show ?case
    using Suc.IH [of u] Suc.prems(2) by (cases "n = 0") auto
qed simp

text \<open>The answer once given stays in the window while the daemon answers again.\<close>

definition answered :: "u8 \<Rightarrow> 'a bridge_client_scheme \<Rightarrow> 'a bridge_client_scheme \<Rightarrow> bool" where
  "answered a s0 s \<longleftrightarrow> reading a s0 s \<and> BRIDGE_READ16 s BRIDGE_REG_RESULT = chip_wget a s0"

lemma reading_sched [simp]: "reading a s0 (s\<lparr>sched := ns\<rparr>) = reading a s0 s"
  by (simp add: reading_def)

lemma reading_run:
  assumes r: "reading a s0 s" and b: "budget s"
  obtains t where "run_daemon tmp0 s = Some t" "reading a s0 t" "budget t" "sched t = drop 1 (sched s)"
    "BRIDGE_READ8 s BRIDGE_REG_DONE \<noteq> 0 \<or> (\<exists>m \<in> set (take 1 (sched s)). 0 < m) \<Longrightarrow> BRIDGE_READ8 t BRIDGE_REG_DONE \<noteq> 0"
    "answered a s0 s \<Longrightarrow> answered a s0 t"
proof (cases "sched s")
  case Nil
  then show thesis using that [of s] r b by (simp add: run_daemon_def)
next
  case (Cons n ns)
  let ?s = "s\<lparr>sched := ns\<rparr>"
  obtain t where t: "daemon_turns tmp0 n ?s = Some t" "reading a s0 t" "tx_poll_counter t = tx_poll_counter s + int n" "sched t = ns"
      "n = 0 \<longrightarrow> t = ?s" "0 < n \<longrightarrow> BRIDGE_READ8 t BRIDGE_REG_DONE \<noteq> 0"
    using reading_turns [of a s0 ?s n tmp0] r b Cons by (auto simp: budget_def)
  show thesis
  proof (rule that)
    show "run_daemon tmp0 s = Some t" using t(1) Cons by (simp add: run_daemon_def)
    show "budget t" using b t(3,4) Cons by (simp add: budget_def)
    show "BRIDGE_READ8 s BRIDGE_REG_DONE \<noteq> 0 \<or> (\<exists>m \<in> set (take 1 (sched s)). 0 < m) \<Longrightarrow> BRIDGE_READ8 t BRIDGE_REG_DONE \<noteq> 0"
      using t(5,6) Cons by (cases "n = 0") auto
    show "answered a s0 s \<Longrightarrow> answered a s0 t"
      using t(2,5,6) by (cases "n = 0") (auto simp: answered_def reading_def)
  qed (use t Cons in simp_all)
qed

lemma wait_done_keeps_done:
  assumes "reading a s0 s" and "budget s" and "BRIDGE_READ8 s BRIDGE_REG_DONE \<noteq> 0" and "wait_done tmp0 n s = Some t"
  shows "BRIDGE_READ8 t BRIDGE_REG_DONE \<noteq> 0"
proof (cases n)
  case (Suc k)
  obtain u where "run_daemon tmp0 s = Some u" "BRIDGE_READ8 u BRIDGE_REG_DONE \<noteq> 0"
    by (rule reading_run [OF assms(1,2), of tmp0]) (use assms(3) in blast)
  then show ?thesis using assms(4) Suc by (simp add: load8_def)
qed (use assms in simp)

lemma reading_wait:
  assumes "reading a s0 s" and "budget s"
  shows "\<exists>t. wait_done tmp0 n s = Some t \<and> reading a s0 t \<and> budget t \<and>
    ((\<exists>m \<in> set (take (2 * n) (sched s)). 0 < m) \<longrightarrow> BRIDGE_READ8 t BRIDGE_REG_DONE \<noteq> 0)"
  using assms
proof (induction n arbitrary: s)
  case (Suc n)
  obtain u where u: "run_daemon tmp0 s = Some u" "reading a s0 u" "budget u" "sched u = drop 1 (sched s)"
      "\<exists>m \<in> set (take 1 (sched s)). 0 < m \<Longrightarrow> BRIDGE_READ8 u BRIDGE_REG_DONE \<noteq> 0"
    by (rule reading_run [OF Suc.prems, of tmp0]) blast
  show ?case
  proof (cases "BRIDGE_READ8 u BRIDGE_REG_DONE = 0")
    case False
    then show ?thesis using u by (simp add: load8_def)
  next
    case True
    obtain v where v: "run_daemon tmp0 u = Some v" "reading a s0 v" "budget v" "sched v = drop 1 (sched u)"
        "\<exists>m \<in> set (take 1 (sched u)). 0 < m \<Longrightarrow> BRIDGE_READ8 v BRIDGE_REG_DONE \<noteq> 0"
      by (rule reading_run [OF u(2,3), of tmp0]) blast
    obtain t where t: "wait_done tmp0 n v = Some t" "reading a s0 t" "budget t"
        "(\<exists>m \<in> set (take (2 * n) (sched v)). 0 < m) \<Longrightarrow> BRIDGE_READ8 t BRIDGE_REG_DONE \<noteq> 0"
      using Suc.IH [OF v(2,3)] by blast
    have stay: "BRIDGE_READ8 v BRIDGE_REG_DONE \<noteq> 0 \<Longrightarrow> BRIDGE_READ8 t BRIDGE_REG_DONE \<noteq> 0"
      using wait_done_keeps_done [OF v(2,3) _ t(1)] by blast
    have split: "take (2 * Suc n) (sched s) = take 1 (sched s) @ take 1 (sched u) @ take (2 * n) (sched v)"
      using u(4) v(4) by (cases "sched s"; cases "drop 1 (sched s)") auto
    have "BRIDGE_READ8 t BRIDGE_REG_DONE \<noteq> 0" if "\<exists>m \<in> set (take (2 * Suc n) (sched s)). 0 < m"
      using that u(5) v(5) t(4) stay True unfolding split by auto
    then show ?thesis using u(1) v(1) t True by (simp add: load8_def del: mult_Suc_right)
  qed
qed simp

lemma run_daemon_idle: "set (sched s) \<subseteq> {0} \<Longrightarrow> run_daemon tmp0 s = Some (s\<lparr>sched := drop 1 (sched s)\<rparr>)"
  by (cases "sched s") (simp_all add: run_daemon_def)

lemma run_daemon_zero: "sched s = 0 # ns \<Longrightarrow> run_daemon tmp0 s = Some (s\<lparr>sched := ns\<rparr>)"
  by (simp add: run_daemon_def)

text \<open>C28: A read posted while the daemon is between turns and no answer is waiting returns the register: it is
  enough that the daemon completes one turn during the hundred polls. Further turns answer again with
  the same value, as long as they stay within the transmit poll's period; the chip is unchanged.\<close>

theorem client_read_answered:
  assumes inv: "bridge_inv s" and unanswered: "BRIDGE_READ8 s BRIDGE_REG_DONE = 0" and sched: "sched s = 0 # 0 # 0 # ns"
    and turn: "\<exists>m \<in> set (take 200 ns). 0 < m" and period: "tx_poll_counter s + int (sum_list ns) < 1000"
  shows "\<exists>t. read_reg tmp0 a s = Some (chip_wget a s, t) \<and> bridge_inv t \<and> same_chip t s"
proof -
  define p where "p = BRIDGE_WRITE8 (BRIDGE_WRITE8 (BRIDGE_WRITE8 s BRIDGE_REG_ADDR a) BRIDGE_REG_RW 0) BRIDGE_REG_NEW_REQ 1"
  let ?p = "p\<lparr>sched := ns\<rparr>"
  have upd: "BRIDGE_WRITE8 (u\<lparr>sched := l\<rparr>) off v = (BRIDGE_WRITE8 u off v)\<lparr>sched := l\<rparr>" for u :: "'a bridge_client_scheme" and l off v
    by (simp add: BRIDGE_WRITE8_def)
  have posted: "read_reg tmp0 a s = do { s \<leftarrow> wait_done tmp0 100 ?p; s \<leftarrow> store8 tmp0 BRIDGE_REG_DONE 0 s; load16 tmp0 BRIDGE_REG_RESULT s }"
    using sched by (simp add: read_reg_def store8_def run_daemon_zero upd p_def)
  have br: "boardram s = BRIDGE_BOARDRAM_OFF" using inv by (simp add: bridge_inv_def chip_inv_boardram)
  then have chip: "same_chip p s"
    unfolding p_def by (intro same_chip_trans [OF write8_same_chip] write8_same_chip) (simp_all add: BRIDGE_WRITE8_def)
  have r: "reading a s ?p" using inv unanswered chip by (simp add: reading_def) (simp add: p_def)
  have b: "budget ?p" using period by (simp add: budget_def) (simp add: p_def)
  obtain u where u: "wait_done tmp0 100 ?p = Some u" "reading a s u" "budget u" "BRIDGE_READ8 u BRIDGE_REG_DONE \<noteq> 0"
    using reading_wait [OF r b, of tmp0 100] turn by auto
  have au: "answered a s u" using u(2,4) by (simp add: answered_def reading_def)
  obtain v where v: "run_daemon tmp0 u = Some v" "reading a s v" "budget v" "answered a s v"
    by (rule reading_run [OF u(2,3), of tmp0]) (use au in blast)
  let ?v = "BRIDGE_WRITE8 v BRIDGE_REG_DONE 0"
  have bv: "boardram v = BRIDGE_BOARDRAM_OFF" using v(2) by (simp add: reading_def bridge_inv_def chip_inv_boardram)
  have "same_chip ?v v" by (rule write8_same_chip [OF bv]) simp
  then have "same_chip ?v s" by (rule same_chip_trans) (use v(2) in \<open>simp add: reading_def\<close>)
  then have av: "answered a s ?v" "budget ?v"
    using v(2,3,4) by (simp_all add: answered_def reading_def budget_def)
  then have "reading a s ?v" by (simp add: answered_def)
  then obtain t where t: "run_daemon tmp0 ?v = Some t" "answered a s t"
    using reading_run [of a s ?v tmp0] av by metis
  have "read_reg tmp0 a s = Some (chip_wget a s, t)"
    using u(1) v(1) t by (simp add: posted store8_def load16_def answered_def)
  then show ?thesis using t(2) by (simp add: answered_def reading_def)
qed

section \<open>Requests that are never withdrawn\<close>

lemma request_run:
  assumes "bridge_inv s \<and> request_is q s"
  shows "holds (\<lambda>t. bridge_inv t \<and> request_is q t) (run_daemon tmp0 s)"
proof -
  have turn: "holds (\<lambda>t. bridge_inv t \<and> request_is q t) (bridge_turn tmp0 s)"
    if s: "bridge_inv s \<and> request_is q s" for s :: "'a bridge_client_scheme"
  proof -
    have "request_is q t" if t: "bridge_turn tmp0 s = Some t" for t
      using t
    proof (cases rule: bridge_turn_cases)
      case (1 u)
      then show ?thesis using service_bridge_request [of s q tmp0 u] s by (simp add: request_is_def)
    next
      case (2 u r v)
      have "boardram u = BRIDGE_BOARDRAM_OFF" using service_bridge_inv [OF _ 2(1)] s by (simp add: bridge_inv_def chip_inv_boardram)
      then have "request_is q v"
        using service_bridge_request [of s q tmp0 u] 2(1) s req.P_do_transmit [OF _ 2(3), of q] by (simp add: request_is_def)
      then show ?thesis using 2(4) by (simp add: request_is_def)
    qed
    then show ?thesis using bridge_turn_facts [of s tmp0] s by (auto simp: holds_iff)
  qed
  have "bridge_inv s \<and> request_is q s \<Longrightarrow> holds (\<lambda>t. bridge_inv t \<and> request_is q t) (daemon_turns tmp0 n s)"
    for n and s :: "'a bridge_client_scheme"
    by (induction n arbitrary: s) (auto intro: turn [THEN holds_bind])
  then show ?thesis using assms by (simp add: run_daemon_def request_is_def split: list.split)
qed

lemma request_wait:
  "bridge_inv s \<and> request_is q s \<Longrightarrow> holds (\<lambda>t. bridge_inv t \<and> request_is q t) (wait_done tmp0 n s)"
proof (induction n arbitrary: s)
  case (Suc n)
  have "holds (\<lambda>(_, t). bridge_inv t \<and> request_is q t) (load8 tmp0 BRIDGE_REG_DONE s)"
    unfolding load8_def using request_run [OF Suc.prems] by (rule holds_bind) simp
  then show ?case
    by (auto elim!: holds_bind_pair intro!: request_run [THEN holds_bind] Suc.IH)
qed simp

text \<open>What a write leaves in the mailbox: the request, still raised.\<close>

lemma request_store:
  assumes "bridge_inv s \<and> request_is [d, e, x, y, z] s"
  shows "holds (\<lambda>t. bridge_inv t \<and> request_is [ucast v, ucast (drop_bit 8 v), x, y, z] t) (store16 tmp0 BRIDGE_REG_DATA v s)"
    "holds (\<lambda>t. bridge_inv t \<and> request_is [d, e, b, y, z] t) (store8 tmp0 BRIDGE_REG_ADDR b s)"
    "holds (\<lambda>t. bridge_inv t \<and> request_is [d, e, x, b, z] t) (store8 tmp0 BRIDGE_REG_RW b s)"
    "holds (\<lambda>t. bridge_inv t \<and> request_is [d, e, x, y, b] t) (store8 tmp0 BRIDGE_REG_NEW_REQ b s)"
    "holds (\<lambda>t. bridge_inv t \<and> request_is [d, e, x, y, z] t) (store8 tmp0 BRIDGE_REG_DONE b s)"
  using request_run [OF assms, of tmp0]
  by (auto simp: store16_def store8_def request_is_def elim!: holds_bind)

lemma write_reg_posted:
  assumes "bridge_inv s" and "write_reg tmp0 a v s = Some t"
  shows "bridge_inv t \<and> request_is [ucast v, ucast (drop_bit 8 v), a, 1, 1] t"
proof -
  have "\<exists>d e x y z. request_is [d, e, x, y, z] s" by (simp add: request_is_def)
  then have "holds (\<lambda>t. bridge_inv t \<and> request_is [ucast v, ucast (drop_bit 8 v), a, 1, 1] t) (write_reg tmp0 a v s)"
    unfolding write_reg_def using assms(1)
    by (auto intro!: request_store [THEN holds_bind] request_wait [THEN holds_bind] request_store)
  then show ?thesis using assms(2) by simp
qed

text \<open>The client's accesses while the daemon is idle.\<close>

definition idle :: "'a bridge_client_scheme \<Rightarrow> bool" where
  "idle s \<longleftrightarrow> set (sched s) \<subseteq> {0}"

lemma idle_upd [simp]:
  "idle s \<Longrightarrow> idle (t\<lparr>sched := drop n (sched s)\<rparr>)" "idle (BRIDGE_WRITE8 s off b) = idle s" "idle (BRIDGE_WRITE16 s off v) = idle s"
  by (auto simp: idle_def dest: in_set_dropD)

lemma idle_access:
  assumes "idle s"
  shows "store8 tmp0 off b s = Some (BRIDGE_WRITE8 (s\<lparr>sched := drop 1 (sched s)\<rparr>) off b)"
    "load16 tmp0 off s = Some (BRIDGE_READ16 s off, s\<lparr>sched := drop 1 (sched s)\<rparr>)"
    "BRIDGE_READ8 s BRIDGE_REG_DONE \<noteq> 0 \<Longrightarrow> 0 < n \<Longrightarrow> wait_done tmp0 n s = Some (s\<lparr>sched := drop 1 (sched s)\<rparr>)"
  using assms by (auto simp: store8_def load16_def load8_def idle_def run_daemon_idle gr0_conv_Suc)

text \<open>With an answer already waiting, nobody looks at the access that is posted next.\<close>

lemma answer_waiting:
  assumes "run_daemon tmp0 s = Some u" and "idle u" and "BRIDGE_READ8 u BRIDGE_REG_DONE \<noteq> 0"
  shows "\<exists>t. read_reg tmp0 a s = Some (BRIDGE_READ16 u BRIDGE_REG_RESULT, t)"
  using assms
  by (simp add: read_reg_def store8_def [of tmp0 BRIDGE_REG_ADDR] idle_access del: One_nat_def)

text \<open>A write is still raised when it has been answered, so one further turn of the daemon performs it again
  and marks it done again; the read that follows takes that as its own answer, and returns 0 for
  every register.\<close>

theorem client_read_stale:
  assumes inv: "bridge_inv s" and wr: "write_reg tmp0 b v s = Some t" and sched: "sched t = 1 # ns" "set ns \<subseteq> {0}"
    and turn: "bridge_turn tmp0 (t\<lparr>sched := ns\<rparr>) = Some u" and period: "tx_poll_counter t + 1 < 1000"
  shows "\<exists>t'. read_reg tmp0 a t = Some (0, t')"
proof -
  have posted: "bridge_inv t" "request_is [ucast v, ucast (drop_bit 8 v), b, 1, 1] t"
    using write_reg_posted [OF inv wr] by simp_all
  have run: "run_daemon tmp0 t = Some u" using sched(1) turn by (simp add: run_daemon_def)
  then have "idle u" using sched run_daemon_counts [OF run] by (simp add: idle_def)
  moreover have "BRIDGE_READ8 u BRIDGE_REG_DONE \<noteq> 0 \<and> BRIDGE_READ16 u BRIDGE_REG_RESULT = 0"
    using turn
  proof (cases rule: bridge_turn_cases)
    case (1 w)
    from 1(1) show ?thesis
      by (cases rule: service_bridge_cases) (use posted(2) 1(3) in \<open>auto simp: request_is_def\<close>)
  next
    case (2 w r x)
    then show ?thesis using service_bridge_inv [OF _ 2(1)] posted(1) period by simp
  qed
  ultimately show ?thesis using answer_waiting [OF run, of a] by simp
qed

lemma rap_turn:
  assumes "BRIDGE_READ8 s BRIDGE_REG_NEW_REQ = 1" and "BRIDGE_READ8 s BRIDGE_REG_RW = 1" and "BRIDGE_READ8 s BRIDGE_REG_ADDR = A2065_RAP_OFF"
    and "tx_poll_counter s + 1 < 1000"
  obtains t where "bridge_turn tmp0 s = Some t" "rap t = ucast (BRIDGE_READ16 s BRIDGE_REG_DATA AND 0x7f)"
    "BRIDGE_READ8 t BRIDGE_REG_DONE = 1" "tx_poll_counter t = tx_poll_counter s + 1"
  using assms
  by (simp add: bridge_turn_def service_bridge_def chip_wput_def BRIDGE_WRITE16_def BRIDGE_WRITE8_def BRIDGE_READ8_def)

text \<open>The data of a write is stored before its address while the previous request is still raised. A turn of
  the daemon in between performs the previous request with the new data: after a write of RAP, the
  value meant for the selected register selects a register instead.\<close>

theorem client_write_torn:
  assumes inv: "bridge_inv s" and rap: "write_rap tmp0 r s = Some t" and sched: "sched t = 0 # 1 # ns" "set ns \<subseteq> {0}"
    and period: "tx_poll_counter t + 1 < 1000"
  shows "\<exists>u. write_rdp tmp0 v t = Some u \<and> rap u = ucast (v AND 0x7f)"
proof -
  have posted: "bridge_inv t" "request_is [ucast r, ucast (drop_bit 8 r), A2065_RAP_OFF, 1, 1] t"
    using write_reg_posted [OF inv rap [unfolded write_rap_def]] by simp_all
  let ?d = "(BRIDGE_WRITE16 t BRIDGE_REG_DATA v)\<lparr>sched := 1 # ns\<rparr>"
  let ?e = "?d\<lparr>sched := ns\<rparr>"
  have "BRIDGE_READ8 ?e BRIDGE_REG_NEW_REQ = 1" "BRIDGE_READ8 ?e BRIDGE_REG_RW = 1" "BRIDGE_READ8 ?e BRIDGE_REG_ADDR = A2065_RAP_OFF"
      "BRIDGE_READ16 ?e BRIDGE_REG_DATA = v" "tx_poll_counter ?e + 1 < 1000"
    using posted(2) period by (simp_all add: request_is_def)
  then obtain w where w: "bridge_turn tmp0 ?e = Some w" "rap w = ucast (v AND 0x7f)" "BRIDGE_READ8 w BRIDGE_REG_DONE = 1"
    by (metis rap_turn)
  have run: "run_daemon tmp0 ?d = Some w" using w(1) by (simp add: run_daemon_def)
  then have "idle w" using sched(2) run_daemon_counts [OF run] by (simp add: idle_def)
  moreover have data: "store16 tmp0 BRIDGE_REG_DATA v t = Some ?d"
    using sched(1) by (simp add: store16_def run_daemon_zero BRIDGE_WRITE16_def)
  moreover have "rap (BRIDGE_WRITE8 q off b) = rap q" for q :: "'a bridge_client_scheme" and off b by (simp add: BRIDGE_WRITE8_def)
  ultimately show ?thesis
    using run w(2,3)
    by (simp add: write_rdp_def write_reg_def store8_def [of tmp0 BRIDGE_REG_ADDR] idle_access del: One_nat_def)
qed

section \<open>The initialisation block\<close>

lemma idle_ram_put:
  assumes "idle s"
  shows "ram_put_byte tmp0 off b s = Some ((BRIDGE_WRITE8 s (BRIDGE_BOARDRAM_OFF + off) b)\<lparr>sched := drop 1 (sched s)\<rparr>)"
    "ram_put_word tmp0 off v s =
      Some ((BRIDGE_WRITE8 (BRIDGE_WRITE8 s (BRIDGE_BOARDRAM_OFF + off) (ucast (drop_bit 8 v))) (BRIDGE_BOARDRAM_OFF + off + 1) (ucast v))
        \<lparr>sched := drop 2 (sched s)\<rparr>)"
  using assms by (simp_all add: ram_put_byte_def ram_put_word_def idle_access del: One_nat_def)
    (simp_all add: BRIDGE_WRITE8_def numeral_2_eq_2)

text \<open>The client stores the block without the byte order that the daemon's accesses assume: each word that
  the daemon reads has its bytes exchanged. The rings it finds are single descriptors at 0x10 and
  0x20, inside the block itself, in place of four each at 0x1000 and 0x2000.\<close>

theorem client_init_block_swapped:
  assumes "idle s" and "boardram s = BRIDGE_BOARDRAM_OFF" and "csr s 1 = 0" and "csr s 2 = 0"
  shows "\<exists>t. build_init_block tmp0 s = Some t \<and> fakemac (chip_init t) = [0x80, 0x00, 0xBB, 0x10, 0xCC, 0xAA] \<and>
    am_rdr_rdra (chip_init t) = 0x20 \<and> am_rdr_rlen (chip_init t) = 1 \<and>
    am_tdr_tdra (chip_init t) = 0x10 \<and> am_tdr_tlen (chip_init t) = 1"
  using assms
  by (simp add: build_init_block_def idle_ram_put del: One_nat_def)
    (simp add: chip_init_def chip_init_mask_def rings_reset_loopback_count_def get_ram_word_def get_ram_byte_def BRIDGE_WRITE8_def Let_def)

section \<open>A client without a daemon\<close>

definition succeeds :: "('a \<Rightarrow> bool) \<Rightarrow> 'a option \<Rightarrow> bool" where
  "succeeds Q x \<longleftrightarrow> (\<exists>v. x = Some v \<and> Q v)"

lemma succeeds_Some [simp]: "succeeds Q (Some v) = Q v"
  by (simp add: succeeds_def)

lemma succeeds_bind: "succeeds A x \<Longrightarrow> (\<And>a. A a \<Longrightarrow> succeeds Q (f a)) \<Longrightarrow> succeeds Q (Option.bind x f)"
  by (auto simp: succeeds_def)

lemma succeeds_bind_pair: "succeeds (\<lambda>(_, s). P s) x \<Longrightarrow> (\<And>r s. P s \<Longrightarrow> succeeds Q (f (r, s))) \<Longrightarrow> succeeds Q (Option.bind x f)"
  by (auto simp: succeeds_def)

text \<open>The daemon takes no turn, the result slot reads 0, and at least \<open>k\<close> checks have failed.\<close>

definition quiet :: "int \<Rightarrow> 'a bridge_client_scheme \<Rightarrow> bool" where
  "quiet k s \<longleftrightarrow> idle s \<and> BRIDGE_READ16 s BRIDGE_REG_RESULT = 0 \<and> k \<le> fail_count s"

lemma quiet_run: "quiet k s \<Longrightarrow> succeeds (quiet k) (run_daemon tmp0 s)"
  by (simp add: quiet_def run_daemon_idle idle_def) (auto dest: in_set_dropD)

lemma quiet_store:
  assumes "quiet k s"
  shows "off \<noteq> 6 \<Longrightarrow> off \<noteq> 7 \<Longrightarrow> succeeds (quiet k) (store8 tmp0 off b s)" "succeeds (quiet k) (store16 tmp0 BRIDGE_REG_DATA v s)"
    "succeeds (\<lambda>(_, s). quiet k s) (load8 tmp0 off' s)" "succeeds (\<lambda>(_, s). quiet k s) (load16 tmp0 off' s)"
  using quiet_run [OF assms, of tmp0]
  by (auto simp: store8_def store16_def load8_def load16_def quiet_def BRIDGE_WRITE16_def BRIDGE_READ16_def BRIDGE_WRITE8_def idle_def
      elim!: succeeds_bind)

lemmas quiet_access = quiet_store(1,2) [THEN succeeds_bind] quiet_store(3,4) [THEN succeeds_bind_pair] quiet_run [THEN succeeds_bind]

lemma quiet_wait: "quiet k s \<Longrightarrow> succeeds (quiet k) (wait_done tmp0 n s)"
  by (induction n arbitrary: s) (auto intro!: quiet_access)

lemma quiet_ram:
  assumes "quiet k s" and "off < 0x7FFF"
  shows "succeeds (quiet k) (ram_put_word tmp0 off v s)" "succeeds (quiet k) (ram_put_byte tmp0 off b s)"
    "succeeds (\<lambda>(_, s). quiet k s) (ram_get_word tmp0 off s)"
proof -
  have "unat (0x8000 + off) = 0x8000 + unat off" "unat (0x8001 + off) = 0x8001 + unat off"
    using assms(2) by (simp_all add: word_less_nat_alt unat_word_ariths)
  moreover have high: "x \<noteq> 6 \<and> x \<noteq> 7" if "0x8000 \<le> unat x" for x :: u32 using that by auto
  ultimately have "0x8000 + off \<noteq> 6 \<and> 0x8000 + off \<noteq> 7" "0x8001 + off \<noteq> 6 \<and> 0x8001 + off \<noteq> 7" by (intro high, simp)+
  then show "succeeds (quiet k) (ram_put_word tmp0 off v s)" "succeeds (quiet k) (ram_put_byte tmp0 off b s)"
      "succeeds (\<lambda>(_, s). quiet k s) (ram_get_word tmp0 off s)"
    using assms(1) by (auto simp: ram_put_word_def ram_put_byte_def ram_get_word_def add.commute [of off] intro!: quiet_access quiet_store)
qed

lemma quiet_store_frame:
  "quiet k s \<Longrightarrow> 0x8000 \<le> unat off \<Longrightarrow> unat off + length bs < 0x10000 \<Longrightarrow> succeeds (quiet k) (store_frame tmp0 off bs s)"
proof (induction bs arbitrary: off s)
  case (Cons b bs)
  have "off \<noteq> 6" "off \<noteq> 7" using Cons.prems(2) by auto
  moreover have "unat (off + 1) = unat off + 1" using Cons.prems(3) by (simp add: unat_word_ariths)
  ultimately show ?case using Cons by (auto intro!: quiet_access)
qed simp

lemma quiet_port:
  assumes "quiet k s"
  shows "succeeds (quiet k) (write_rap tmp0 v s)" "succeeds (quiet k) (write_rdp tmp0 v s)"
    "succeeds (\<lambda>(r, s). r = 0 \<and> quiet k s) (read_rdp tmp0 s)"
proof -
  have "quiet k s \<Longrightarrow> succeeds (\<lambda>(r, s). r = 0 \<and> quiet k s) (load16 tmp0 BRIDGE_REG_RESULT s)" for s :: "'a bridge_client_scheme"
    unfolding load16_def by (erule quiet_access(5)) (simp add: quiet_def)
  then show "succeeds (quiet k) (write_rap tmp0 v s)" "succeeds (quiet k) (write_rdp tmp0 v s)"
      "succeeds (\<lambda>(r, s). r = 0 \<and> quiet k s) (read_rdp tmp0 s)"
    using assms
    by (auto simp: write_rap_def write_rdp_def read_rdp_def write_reg_def read_reg_def
        intro!: quiet_access quiet_wait [THEN succeeds_bind] quiet_store)
qed

lemma quiet_CHECK: "quiet k s \<Longrightarrow> quiet k (CHECK c s)" "quiet k s \<Longrightarrow> \<not> c \<Longrightarrow> quiet (k + 1) (CHECK c s)"
  by (auto simp: quiet_def CHECK_def idle_def BRIDGE_READ16_def)

lemma quiet_read_rdp: "quiet k s \<Longrightarrow> (\<And>s. quiet k s \<Longrightarrow> succeeds Q (f (0, s))) \<Longrightarrow> succeeds Q (Option.bind (read_rdp tmp0 s) f)"
  by (rule succeeds_bind [OF quiet_port(3)]) auto

lemmas quiet_ops = quiet_run [THEN succeeds_bind] quiet_ram(1,2) [THEN succeeds_bind] quiet_ram(3) [THEN succeeds_bind_pair]
  quiet_store_frame [THEN succeeds_bind] quiet_port(1,2) [THEN succeeds_bind] quiet_read_rdp

lemma quiet_init_block: "quiet k s \<Longrightarrow> succeeds (quiet k) (build_init_block tmp0 s)"
  unfolding build_init_block_def Let_def by (intro quiet_ops quiet_ram) simp_all

lemma quiet_init_sequence: "quiet k s \<Longrightarrow> succeeds (quiet (k + 1)) (test_init_sequence tmp0 s)"
  unfolding test_init_sequence_def Let_def
  by (rule quiet_ops quiet_CHECK(1) | assumption | simp only: prod.case)+ (simp add: quiet_CHECK has_def)

lemma quiet_tx: "quiet k s \<Longrightarrow> succeeds (quiet k) (test_tx tmp0 s)"
  unfolding test_tx_def Let_def
  by (auto intro!: quiet_ops quiet_CHECK simp: test_frame_def)

lemma quiet_rx:
  assumes "quiet k s"
  shows "succeeds (quiet k) (test_rx tmp0 s)"
proof -
  have rxon: "succeeds (quiet k) (if b then Option.bind (write_rdp tmp0 v s) (run_daemon tmp0) else Some s)" if "quiet k s" for b v s
    using that by (auto intro!: quiet_ops quiet_run)
  have own: "succeeds (quiet k) (if b then Option.bind (ram_get_word tmp0 (RX_RING + 6) s) (\<lambda>(r, s). Some (CHECK (0 < r) s)) else Some s)"
    if "quiet k s" for b s
    using that by (auto intro!: quiet_ops quiet_CHECK)
  show ?thesis
    unfolding test_rx_def Let_def using assms
    by (auto intro!: quiet_ops rxon [THEN succeeds_bind] own [THEN succeeds_bind] quiet_CHECK)
qed

text \<open>With no daemon behind the window, and no answer left in it, the client still ends, and reports failure.\<close>

theorem client_no_daemon:
  assumes "sched s = []" and "BRIDGE_READ16 s BRIDGE_REG_RESULT = 0" and "fail_count s = 0"
  shows "\<exists>t. client_main env tmp0 s = Some (1, t)"
proof -
  have "quiet 0 s" using assms by (simp add: quiet_def idle_def)
  then have "succeeds (\<lambda>(status, _). status = 1) (client_main env tmp0 s)"
    by (auto simp: client_main_def intro!: quiet_init_block [THEN succeeds_bind] quiet_init_sequence [THEN succeeds_bind]
        quiet_tx [THEN succeeds_bind] quiet_rx [THEN succeeds_bind] simp: quiet_def)
  then show ?thesis by (auto simp: succeeds_def)
qed

section \<open>A client beside a started daemon\<close>

text \<open>The daemon started, the mailbox empty, and a schedule.\<close>

definition client_of :: "nat list \<Rightarrow> bridge_client" where
  "client_of ns = BRIDGE_WRITE16 (BRIDGE_WRITE8 (bridge_daemon.extend bridge_started \<lparr>sched = ns, pass_count = 0, fail_count = 0\<rparr>)
     BRIDGE_REG_DONE 0) BRIDGE_REG_RESULT 0"

lemma bridge_inv_extend [simp]: "bridge_inv (bridge_daemon.extend s x) = bridge_inv s"
  by (simp add: bridge_inv_def chip_inv_def chip_busy_def config_ok_def bridge_daemon.defs)

lemma client_of_facts [simp]:
  "bridge_inv (client_of ns)" "sched (client_of ns) = ns" "pass_count (client_of ns) = 0" "fail_count (client_of ns) = 0"
  "tx_poll_counter (client_of ns) = 0" "BRIDGE_READ8 (client_of ns) BRIDGE_REG_DONE = 0" "BRIDGE_READ16 (client_of ns) BRIDGE_REG_RESULT = 0"
  "boardram (client_of ns) = BRIDGE_BOARDRAM_OFF"
proof -
  show inv: "bridge_inv (client_of ns)" using bridge_started_facts(1) by (simp add: client_of_def)
  show "boardram (client_of ns) = BRIDGE_BOARDRAM_OFF" using inv by (simp add: bridge_inv_def chip_inv_boardram)
qed (simp_all add: client_of_def bridge_daemon.defs bridge_started_facts)

theorem client_read_answered_witness:
  "\<exists>t. read_reg [] A2065_RDP_OFF (client_of [0, 0, 0, 0, 0, 2, 1]) = Some (chip_wget A2065_RDP_OFF (client_of [0, 0, 0, 0, 0, 2, 1]), t)"
  using client_read_answered [of "client_of [0, 0, 0, 0, 0, 2, 1]" "[0, 0, 2, 1]" "[]" A2065_RDP_OFF] by auto

text \<open>A write of RAP that the daemon answers at the first poll.\<close>

lemma client_writes_rap:
  obtains t where "write_rap [] 0 (client_of (0 # 0 # 0 # 0 # 1 # 0 # ns)) = Some t" "sched t = ns" "tx_poll_counter t = 1"
proof -
  let ?s = "client_of (0 # 0 # 0 # 0 # 1 # 0 # ns)"
  let ?p = "(BRIDGE_WRITE8 (BRIDGE_WRITE8 (BRIDGE_WRITE8 (BRIDGE_WRITE16 ?s BRIDGE_REG_DATA 0)
    BRIDGE_REG_ADDR A2065_RAP_OFF) BRIDGE_REG_RW 1) BRIDGE_REG_NEW_REQ 1)\<lparr>sched := 0 # ns\<rparr>"
  obtain u where u: "bridge_turn [] ?p = Some u" "BRIDGE_READ8 u BRIDGE_REG_DONE = 1" "tx_poll_counter u = 1"
    by (rule rap_turn [of ?p "[]"]) simp_all
  have "client_vars (0 # ns) 0 0 u"
    by (rule bridge_turn_vars [OF _ u(1)]) (simp add: client_vars_def)
  then have v: "sched u = 0 # ns" by (simp add: client_vars_def)
  have upd: "BRIDGE_WRITE8 (w\<lparr>sched := l\<rparr>) off b = (BRIDGE_WRITE8 w off b)\<lparr>sched := l\<rparr>"
      "BRIDGE_WRITE16 (w\<lparr>sched := l\<rparr>) off x = (BRIDGE_WRITE16 w off x)\<lparr>sched := l\<rparr>" for w :: bridge_client and l off b x
    by (simp_all add: BRIDGE_WRITE8_def BRIDGE_WRITE16_def)
  have wait: "wait_done [] 100 (?p\<lparr>sched := 1 # 0 # ns\<rparr>) = Some u"
    using u(1,2) by (simp add: numeral_eq_Suc load8_def run_daemon_def)
  have "write_rap [] 0 ?s = Some (BRIDGE_WRITE8 (u\<lparr>sched := ns\<rparr>) BRIDGE_REG_DONE 0)"
    using wait v by (simp add: write_rap_def write_reg_def store16_def store8_def run_daemon_zero upd)
  then show thesis by (rule that) (simp_all add: u(3))
qed

theorem client_read_stale_witness:
  "\<exists>t u. write_rap [] 0 (client_of [0, 0, 0, 0, 1, 0, 1]) = Some t \<and> read_reg [] A2065_RDP_OFF t = Some (0, u)"
proof -
  obtain t where t: "write_rap [] 0 (client_of [0, 0, 0, 0, 1, 0, 1]) = Some t" "sched t = [1]" "tx_poll_counter t = 1"
    by (rule client_writes_rap)
  have p: "request_is [0, 0, A2065_RAP_OFF, 1, 1] (t\<lparr>sched := []\<rparr>)"
    using write_reg_posted [OF _ t(1) [unfolded write_rap_def]] by (simp add: request_is_def)
  obtain u where "bridge_turn [] (t\<lparr>sched := []\<rparr>) = Some u"
    by (rule rap_turn [of "t\<lparr>sched := []\<rparr>" "[]"]) (use p t(3) in \<open>simp_all add: request_is_def\<close>)
  then show ?thesis
    using client_read_stale [OF _ t(1) [unfolded write_rap_def], of "[]" u A2065_RDP_OFF] t by auto
qed

theorem client_write_torn_witness:
  "\<exists>t u. write_rap [] 0 (client_of [0, 0, 0, 0, 1, 0, 0, 1]) = Some t \<and> write_rdp [] CSR0_STOP t = Some u \<and> rap u = 4"
proof -
  obtain t where t: "write_rap [] 0 (client_of [0, 0, 0, 0, 1, 0, 0, 1]) = Some t" "sched t = [0, 1]" "tx_poll_counter t = 1"
    by (rule client_writes_rap)
  then show ?thesis using client_write_torn [OF _ t(1), of "[]" CSR0_STOP] by auto
qed

theorem client_init_block_swapped_witness:
  "\<exists>t. build_init_block [] (set_csr 1 0 (set_csr 2 0 (client_of []))) = Some t \<and> am_tdr_tdra (chip_init t) = 0x10"
  using client_init_block_swapped [of "set_csr 1 0 (set_csr 2 0 (client_of []))" "[]"] by (auto simp: idle_def)

theorem client_no_daemon_witness: "\<exists>t. client_main sample_map [] (client_of []) = Some (1, t)"
  using client_no_daemon [of "client_of []" sample_map "[]"] by simp

lemma client_runs_alone: obtains status t where "client_main sample_map [] (client_of []) = Some (status, t)"
proof -
  have "succeeds (\<lambda>_. True) (client_main sample_map [] (client_of []))"
    by (auto simp: client_main_def quiet_def idle_def intro!: quiet_init_block [of 0, THEN succeeds_bind]
        quiet_init_sequence [THEN succeeds_bind] quiet_tx [THEN succeeds_bind] quiet_rx [THEN succeeds_bind])
  then show thesis using that by (auto simp: succeeds_def)
qed

theorem client_main_checks_witness:
  "\<exists>status t. client_main sample_map [] (client_of []) = Some (status, t) \<and> 3 \<le> pass_count t"
proof -
  obtain status t where t: "client_main sample_map [] (client_of []) = Some (status, t)" by (rule client_runs_alone)
  then show ?thesis
    using client_main_checks [OF _ _ _ _ t] by (simp add: sample_map_def)
qed

theorem client_keeps_daemon_witness:
  "\<exists>status t. client_main sample_map [] (client_of []) = Some (status, t) \<and> bridge_inv t"
proof -
  obtain status t where t: "client_main sample_map [] (client_of []) = Some (status, t)" by (rule client_runs_alone)
  then show ?thesis using client_keeps_daemon [OF _ t] by simp
qed

end
