(* ===== verification/Cmdline.thy ===== *)
theory Cmdline
  imports Prelude
begin

text \<open>
  The command lines: the argument loops of \<^verbatim>\<open>main.cpp\<close>, \<^verbatim>\<open>main_doorbell.cpp\<close>, \<^verbatim>\<open>main_ddr3.cpp\<close> and
  \<^verbatim>\<open>bridge_status.cpp\<close>, and the number conversions they call. An argument list is \<^verbatim>\<open>argv[1]\<close> onwards; the
  test \<^verbatim>\<open>i + 1 < argc\<close> is that something follows.

  \<open>strtol\<close>, \<open>strtoul\<close> and \<open>atoi\<close> are the C library's on the 32-bit ARM, where \<^verbatim>\<open>long\<close> has 32 bits: white
  space, a sign, a base prefix, digits, and saturation when the value does not fit. With no
  digits the value is 0, which none of the callers tells from a zero.
\<close>

section \<open>Numbers\<close>

definition digit_value :: "char \<Rightarrow> nat option" where
  "digit_value c =
    (let n = of_char c :: nat
     in if 48 \<le> n \<and> n \<le> 57 then Some (n - 48)
        else if 65 \<le> n \<and> n \<le> 90 then Some (n - 55)
        else if 97 \<le> n \<and> n \<le> 122 then Some (n - 87)
        else None)"

definition is_space :: "char \<Rightarrow> bool" where
  "is_space c \<longleftrightarrow> (let n = of_char c :: nat in n = 32 \<or> 9 \<le> n \<and> n \<le> 13)"

definition is_digit :: "nat \<Rightarrow> char \<Rightarrow> bool" where
  "is_digit base c \<longleftrightarrow> (case digit_value c of None \<Rightarrow> False | Some d \<Rightarrow> d < base)"

fun digits :: "nat \<Rightarrow> nat \<Rightarrow> string \<Rightarrow> nat" where
  "digits base acc [] = acc"
| "digits base acc (c # cs) = (if is_digit base c then digits base (acc * base + the (digit_value c)) cs else acc)"

definition hex_prefix :: "string \<Rightarrow> bool" where
  "hex_prefix s \<longleftrightarrow> (case s of z # x # d # _ \<Rightarrow> z = CHR ''0'' \<and> (x = CHR ''x'' \<or> x = CHR ''X'') \<and> is_digit 16 d | _ \<Rightarrow> False)"

text \<open>The sign and the magnitude of a numeral; base 0 takes the base from the prefix.\<close>

definition numeral_of :: "nat \<Rightarrow> string \<Rightarrow> bool \<times> nat" where
  "numeral_of base s =
    (let s = dropWhile is_space s;
         neg = (s \<noteq> [] \<and> hd s = CHR ''-'');
         s = (if s \<noteq> [] \<and> (hd s = CHR ''-'' \<or> hd s = CHR ''+'') then tl s else s);
         b = (if base \<noteq> 0 then base else if hex_prefix s then 16 else if s \<noteq> [] \<and> hd s = CHR ''0'' then 8 else 10);
         s = (if b = 16 \<and> hex_prefix s then drop 2 s else s)
     in (neg, digits b 0 s))"

definition strtoul :: "nat \<Rightarrow> string \<Rightarrow> u32" where
  "strtoul base s =
    (let (neg, n) = numeral_of base s
     in if 2 ^ 32 \<le> n then 0xFFFFFFFF else if neg then - of_nat n else of_nat n)"

definition strtol :: "nat \<Rightarrow> string \<Rightarrow> int" where
  "strtol base s =
    (let (neg, n) = numeral_of base s;
         v = (if neg then - int n else int n)
     in max (- 2147483648) (min 2147483647 v))"

definition atoi :: "string \<Rightarrow> int" where
  "atoi s = strtol 10 s"

text \<open>\<^verbatim>\<open>"0x%08X"\<close>, the form in which the programs print an address.\<close>

definition hex_digit :: "nat \<Rightarrow> char" where
  "hex_digit d = char_of (if d < 10 then 48 + d else 55 + d)"

fun hex_digits :: "nat \<Rightarrow> nat \<Rightarrow> string" where
  "hex_digits 0 n = []"
| "hex_digits (Suc k) n = hex_digits k (n div 16) @ [hex_digit (n mod 16)]"

definition print_addr :: "u32 \<Rightarrow> string" where
  "print_addr a = ''0x'' @ hex_digits 8 (unat a)"

section \<open>The argument loops\<close>

record bridge_opts =
  br_iface :: string
  br_base :: u32
  br_sim :: bool

function (sequential) bridge_args :: "string list \<Rightarrow> bridge_opts \<Rightarrow> bridge_opts" where
  "bridge_args [] opts = opts"
| "bridge_args (arg # rest) opts =
    (if arg = ''--iface'' \<and> rest \<noteq> [] then bridge_args (tl rest) (opts\<lparr>br_iface := hd rest\<rparr>)
     else if arg = ''--bridge-base'' \<and> rest \<noteq> [] then bridge_args (tl rest) (opts\<lparr>br_base := strtoul 16 (hd rest)\<rparr>)
     else if arg = ''--sim'' then bridge_args rest (opts\<lparr>br_sim := True\<rparr>)
     else bridge_args rest opts)"
  by pat_completeness auto
termination by (relation "measure (\<lambda>(args, _). length args)") simp_all

record doorbell_opts =
  db_iface :: string
  db_test_boardram :: bool
  db_debug :: bool

function (sequential) doorbell_args :: "string list \<Rightarrow> doorbell_opts \<Rightarrow> doorbell_opts" where
  "doorbell_args [] opts = opts"
| "doorbell_args (arg # rest) opts =
    (if arg = ''--iface'' \<and> rest \<noteq> [] then doorbell_args (tl rest) (opts\<lparr>db_iface := hd rest\<rparr>)
     else if arg = ''--test-boardram'' then doorbell_args rest (opts\<lparr>db_test_boardram := True\<rparr>)
     else if arg = ''--debug'' \<or> arg = ''-d'' then doorbell_args rest (opts\<lparr>db_debug := True\<rparr>)
     else doorbell_args rest opts)"
  by pat_completeness auto
termination by (relation "measure (\<lambda>(args, _). length args)") simp_all

record ddr3_opts =
  dd_iface :: string
  dd_test_boardram :: bool
  dd_dump :: bool
  dd_dump_start :: u16
  dd_dump_len :: u16

function (sequential) ddr3_args :: "string list \<Rightarrow> ddr3_opts \<Rightarrow> ddr3_opts" where
  "ddr3_args [] opts = opts"
| "ddr3_args (arg # rest) opts =
    (if arg = ''--iface'' \<and> rest \<noteq> [] then ddr3_args (tl rest) (opts\<lparr>dd_iface := hd rest\<rparr>)
     else if arg = ''--test-boardram'' then ddr3_args rest (opts\<lparr>dd_test_boardram := True\<rparr>)
     else if arg = ''--dump-boardram'' then
       (let opts = opts\<lparr>dd_dump := True\<rparr>
        in if 2 \<le> length rest
           then ddr3_args (drop 2 rest)
             (opts\<lparr>dd_dump_start := of_int (strtol 0 (rest ! 0)), dd_dump_len := of_int (strtol 0 (rest ! 1))\<rparr>)
           else ddr3_args rest opts)
     else ddr3_args rest opts)"
  by pat_completeness auto
termination by (relation "measure (\<lambda>(args, _). length args)") simp_all

record status_opts =
  st_base :: u32
  st_poll :: int
  st_force :: bool

function (sequential) status_args :: "string list \<Rightarrow> status_opts \<Rightarrow> status_opts" where
  "status_args [] opts = opts"
| "status_args (arg # rest) opts =
    (if arg = ''--bridge-base'' \<and> rest \<noteq> [] then status_args (tl rest) (opts\<lparr>st_base := strtoul 16 (hd rest)\<rparr>)
     else if arg = ''--poll'' \<and> rest \<noteq> [] then status_args (tl rest) (opts\<lparr>st_poll := atoi (hd rest)\<rparr>)
     else if arg = ''--force'' then status_args rest (opts\<lparr>st_force := True\<rparr>)
     else status_args rest opts)"
  by pat_completeness auto
termination by (relation "measure (\<lambda>(args, _). length args)") simp_all

section \<open>Printing and reading an address\<close>

lemma digit_value_hex: "d < 16 \<Longrightarrow> digit_value (hex_digit d) = Some d"
  by (simp add: digit_value_def hex_digit_def Let_def)

lemma is_digit_hex: "d < 16 \<Longrightarrow> is_digit 16 (hex_digit d)"
  by (simp add: is_digit_def digit_value_hex)

lemma digits_append: "list_all (is_digit base) s \<Longrightarrow> digits base acc (s @ t) = digits base (digits base acc s) t"
  by (induction s arbitrary: acc) auto

lemma hex_digits_facts: "list_all (is_digit 16) (hex_digits k n) \<and> length (hex_digits k n) = k"
  by (induction k arbitrary: n) (simp_all add: is_digit_hex)

lemma digits_hex: "digits 16 acc (hex_digits k n) = acc * 16 ^ k + n mod 16 ^ k"
proof (induction k arbitrary: n)
  case (Suc k)
  have "digits 16 acc (hex_digits (Suc k) n) = (acc * 16 ^ k + n div 16 mod 16 ^ k) * 16 + n mod 16"
    using hex_digits_facts [of k "n div 16"] Suc by (simp add: digits_append is_digit_hex digit_value_hex)
  then show ?case by (simp add: mod_mult2_eq [of n 16 "16 ^ k"] algebra_simps)
qed simp

text \<open>An address as a program prints it is read back as the same address.\<close>

lemma print_addr_read: "strtoul 16 (print_addr a) = a"
proof -
  obtain d ds where ds: "hex_digits 8 (unat a) = d # ds"
    using hex_digits_facts [of 8 "unat a"] by (cases "hex_digits 8 (unat a)") auto
  have "is_digit 16 d" using hex_digits_facts [of 8 "unat a"] ds by simp
  then have "hex_prefix (''0x'' @ hex_digits 8 (unat a))" by (simp add: hex_prefix_def ds)
  then have "numeral_of 16 (print_addr a) = (False, digits 16 0 (hex_digits 8 (unat a)))"
    by (simp add: numeral_of_def print_addr_def is_space_def)
  moreover have less: "unat a < 2 ^ 32" by (rule order_less_le_trans [OF unsigned_less]) simp
  moreover have "digits 16 0 (hex_digits 8 (unat a)) = unat a" using less by (simp add: digits_hex)
  ultimately show ?thesis by (simp add: strtoul_def)
qed

definition bridge_argv :: "bridge_opts \<Rightarrow> string list" where
  "bridge_argv opts = [''--iface'', br_iface opts, ''--bridge-base'', print_addr (br_base opts)] @ (if br_sim opts then [''--sim''] else [])"

text \<open>The options of the bridge daemon, written out as a command line, are read back.\<close>

theorem bridge_args_read: "bridge_args (bridge_argv opts) \<lparr>br_iface = i, br_base = b, br_sim = False\<rparr> = opts"
  by (simp add: bridge_argv_def print_addr_read)

text \<open>An option without its value is ignored.\<close>

lemma bridge_args_missing: "bridge_args [''--iface''] opts = opts" "bridge_args [''--bridge-base''] opts = opts"
  by simp_all

text \<open>The dump option takes the two arguments that follow it as numbers whatever they are.\<close>

lemma dump_swallows:
  "ddr3_args [''--dump-boardram'', ''--iface'', ''eth1''] opts = opts\<lparr>dd_dump := True, dd_dump_start := 0, dd_dump_len := 0\<rparr>"
  by (simp add: strtol_def numeral_of_def is_space_def is_digit_def digit_value_def hex_prefix_def)

end
