(* ===== verification/Probe.thy ===== *)
theory Probe
  imports Bridge Cmdline
begin

text \<open>
  The diagnostic tools: \<^verbatim>\<open>bridge_status.cpp\<close>, \<^verbatim>\<open>bridge_scan.cpp\<close>, \<^verbatim>\<open>bridge_test_safe.cpp\<close>, \<^verbatim>\<open>ddr3_scan.cpp\<close>,
  \<^verbatim>\<open>sdram_map.cpp\<close>, and the stand-in daemon \<^verbatim>\<open>bridge_ddr3.cpp\<close>. What a tool prints is the value it
  returns. \<open>None\<close> is a run with no outcome: an access outside the mapping, or a bus cycle that
  nobody ends, which on this SoC stops the processor.

  What the hardware answers is an argument: the memory behind an address, whether the kernel maps it,
  and for a bus read whether the answer comes in time, late, or never.
\<close>

unbundle bit_operations_syntax

section \<open>\<^verbatim>\<open>bridge_status.cpp\<close>\<close>

abbreviation BRIDGE_MAC_BASE :: u32 where "BRIDGE_MAC_BASE \<equiv> 0x0008"
abbreviation BRIDGE_INT_CLR :: u32 where "BRIDGE_INT_CLR \<equiv> 0x0011"

text \<open>The control word is returned as a signed integer, \<open>-1\<close> meaning that it could not be read.\<close>

definition check_bridge_mgr :: "map_env \<Rightarrow> u32 \<Rightarrow> int" where
  "check_bridge_mgr env ctl =
    (if env_fd env < 0 then -1
     else if \<not> env_mmap env then -1
     else sint ctl)"

definition do_mmap :: "map_env \<Rightarrow> map_ptr" where
  "do_mmap env = (if env_fd env < 0 then Null else if \<not> env_mmap env then Null else Mapped)"

definition port_name :: "u8 \<Rightarrow> string" where
  "port_name addr = (if addr = 0 then ''RDP'' else if addr = 2 then ''RAP'' else ''???'')"

definition dump_regs :: "'a window_scheme \<Rightarrow> (string \<times> nat \<times> string) list" where
  "dump_regs w =
    (let data = BRIDGE_READ16 w BRIDGE_REG_DATA;
         addr = BRIDGE_READ8 w BRIDGE_REG_ADDR;
         rw = BRIDGE_READ8 w BRIDGE_REG_RW;
         new_req = BRIDGE_READ8 w BRIDGE_REG_NEW_REQ;
         done = BRIDGE_READ8 w BRIDGE_REG_DONE;
         result = BRIDGE_READ16 w BRIDGE_REG_RESULT
     in [(''DATA'', unat data, []), (''ADDR'', unat addr, port_name addr),
         (''RW'', unat rw, if rw \<noteq> 0 then ''write'' else ''read''),
         (''NEW_REQ'', unat new_req, if new_req \<noteq> 0 then ''PENDING'' else ''idle''),
         (''DONE'', unat done, []), (''RESULT'', unat result, [])])"

definition dump_mac_shadow :: "'a window_scheme \<Rightarrow> u8 list" where
  "dump_mac_shadow w = map (\<lambda>i. BRIDGE_READ8 w (BRIDGE_MAC_BASE + of_nat i)) [0..<6]"

definition dump_int_regs :: "'a window_scheme \<Rightarrow> u8 \<times> u8" where
  "dump_int_regs w = (BRIDGE_READ8 w BRIDGE_INT_SET, BRIDGE_READ8 w BRIDGE_INT_CLR)"

definition probe_boardram :: "'a window_scheme \<Rightarrow> (bool \<times> u8 list) \<times> 'a window_scheme" where
  "probe_boardram w =
    (let ram = BRIDGE_BOARDRAM_OFF;
         saved0 = BRIDGE_READ8 w (ram + 0);
         saved1 = BRIDGE_READ8 w (ram + 1);
         w = BRIDGE_WRITE8 w (ram + 0) 0xA5;
         w = BRIDGE_WRITE8 w (ram + 1) 0x5A;
         r0 = BRIDGE_READ8 w (ram + 0);
         r1 = BRIDGE_READ8 w (ram + 1);
         ok = (r0 = 0xA5 \<and> r1 = 0x5A);
         w = BRIDGE_WRITE8 w (ram + 0) saved0;
         w = BRIDGE_WRITE8 w (ram + 1) saved1
     in ((ok, map (\<lambda>i. BRIDGE_READ8 w (ram + of_nat i)) [0..<16]), w))"

text \<open>\<open>fpga\<close> is what happens to the window during \<^verbatim>\<open>usleep\<close>.\<close>

fun poll_requests ::
  "('a window_scheme \<Rightarrow> 'a window_scheme) \<Rightarrow> nat \<Rightarrow> nat \<Rightarrow> 'a window_scheme \<Rightarrow> (nat \<times> u8 \<times> u8 \<times> u16) list \<times> 'a window_scheme" where
  "poll_requests fpga i 0 w = ([], w)"
| "poll_requests fpga i (Suc n) w =
    (let req = BRIDGE_READ8 w BRIDGE_REG_NEW_REQ;
         line = (if req \<noteq> 0
                 then [(i, BRIDGE_READ8 w BRIDGE_REG_ADDR, BRIDGE_READ8 w BRIDGE_REG_RW, BRIDGE_READ16 w BRIDGE_REG_DATA)]
                 else []);
         (lines, w) = poll_requests fpga (Suc i) n (fpga w)
     in (line @ lines, w))"

record status_report =
  rep_regs :: "(string \<times> nat \<times> string) list"
  rep_mac :: "u8 list"
  rep_int :: "u8 \<times> u8"
  rep_ram :: "bool \<times> u8 list"
  rep_polls :: "(nat \<times> u8 \<times> u8 \<times> u16) list"
  rep_new_req :: bool
  rep_done :: bool
  rep_inactive :: bool

text \<open>The exit status and the report. \<open>slave\<close> says whether a slave answers in the window; without one the
  first access never ends.\<close>

definition status_main ::
  "map_env \<Rightarrow> u32 \<Rightarrow> map_env \<Rightarrow> bool \<Rightarrow> ('a window_scheme \<Rightarrow> 'a window_scheme) \<Rightarrow> string list \<Rightarrow> 'a window_scheme \<Rightarrow>
   (nat \<times> status_report option \<times> 'a window_scheme) option" where
  "status_main mgr_env ctl env slave fpga argv w =
    (let opts = status_args argv \<lparr>st_base = 0xC0000000, st_poll = 0, st_force = False\<rparr>;
         mgr = check_bridge_mgr mgr_env ctl
     in if mgr < 0 then Some (1, None, w)
        else if \<not> bit mgr 0 \<and> \<not> st_force opts then Some (1, None, w)
        else if do_mmap env = Null then Some (1, None, w)
        else if \<not> slave then None
        else
          (let regs = dump_regs w;
               macs = dump_mac_shadow w;
               ints = dump_int_regs w;
               (ram, w) = probe_boardram w;
               (polls, w) = (if 0 < st_poll opts then poll_requests fpga 0 (nat (st_poll opts)) w else ([], w));
               new_req = BRIDGE_READ8 w BRIDGE_REG_NEW_REQ;
               done = BRIDGE_READ8 w BRIDGE_REG_DONE
           in Some (0, Some \<lparr>rep_regs = regs, rep_mac = macs, rep_int = ints, rep_ram = ram, rep_polls = polls,
                rep_new_req = (new_req \<noteq> 0), rep_done = (done \<noteq> 0), rep_inactive = (new_req = 0 \<and> done = 0)\<rparr>, w)))"

section \<open>\<^verbatim>\<open>ddr3_scan.cpp\<close>\<close>

abbreviation MAGIC_HI :: u32 where "MAGIC_HI \<equiv> 0xA2065A20"
abbreviation MAGIC_LO :: u32 where "MAGIC_LO \<equiv> 0x65A20650"

definition rd32 :: "(u32 \<Rightarrow> u8) \<Rightarrow> u32 \<Rightarrow> u32" where
  "rd32 mem a = ucast (mem a) OR push_bit 8 (ucast (mem (a + 1))) OR push_bit 16 (ucast (mem (a + 2))) OR push_bit 24 (ucast (mem (a + 3)))"

definition try_read :: "(u32 \<Rightarrow> bool) \<Rightarrow> (u32 \<Rightarrow> u8) \<Rightarrow> u32 \<Rightarrow> int" where
  "try_read mappable mem phys =
    (if \<not> mappable phys then -1
     else let lo = rd32 mem phys; hi = rd32 mem (phys + 4)
          in if lo = MAGIC_LO \<and> hi = MAGIC_HI then 0 else 1)"

text \<open>The loop: the address where the magic was found, and the progress lines printed on the way.\<close>

function scan_loop :: "(u32 \<Rightarrow> bool) \<Rightarrow> (u32 \<Rightarrow> u8) \<Rightarrow> nat \<Rightarrow> nat option \<times> nat list" where
  "scan_loop mappable mem addr =
    (if addr < 0x40000000 then
       (let r = try_read mappable mem (of_nat addr)
        in if r = 0 then (Some addr, [])
           else if r < 0 then scan_loop mappable mem (addr + 0x100000)
           else let (found, progress) = scan_loop mappable mem (addr + 0x100000)
                in (found, if (of_nat addr :: u32) AND 0x0F000000 = 0 then addr # progress else progress))
     else (None, []))"
  by pat_completeness auto
termination by (relation "measure (\<lambda>(_, _, addr). 0x40000000 - addr)") auto

definition scan_main :: "int \<Rightarrow> (u32 \<Rightarrow> bool) \<Rightarrow> (u32 \<Rightarrow> u8) \<Rightarrow> nat" where
  "scan_main fd mappable mem = (if fd < 0 then 1 else case fst (scan_loop mappable mem 0) of Some _ \<Rightarrow> 0 | None \<Rightarrow> 1)"

declare scan_loop.simps [simp del]

section \<open>\<^verbatim>\<open>sdram_map.cpp\<close>\<close>

abbreviation SDR_CTRL_SIZE :: nat where "SDR_CTRL_SIZE \<equiv> 0x1000"

text \<open>\<open>regs\<close> are the bytes of the controller from its base; the mapping holds the first \<open>SDR_CTRL_SIZE\<close>.\<close>

definition sdram_read_reg :: "(nat \<Rightarrow> u8) \<Rightarrow> nat \<Rightarrow> u32 option" where
  "sdram_read_reg regs offset =
    (if offset + 4 \<le> SDR_CTRL_SIZE
     then Some (ucast (regs offset) OR push_bit 8 (ucast (regs (offset + 1))) OR push_bit 16 (ucast (regs (offset + 2))) OR
                push_bit 24 (ucast (regs (offset + 3))))
     else None)"

text \<open>The line printed for a port: disabled, or its address and size in DDR3 and its range on the ARM side.\<close>

definition sdram_region :: "u32 \<Rightarrow> u32 \<Rightarrow> (u32 \<times> u32 \<times> u32 \<times> u32) option" where
  "sdram_region bas msk =
    (if has bas 1 then
       (let addr_base = bas AND NOT 0xFFF;
            addr_mask = msk AND NOT 0xFFF;
            sz = NOT addr_mask + 1
        in Some (addr_base, sz div (1024 * 1024), 0xC0000000 + addr_base, 0xC0000000 + addr_base + sz - 1))
     else None)"

fun sdram_regions :: "(nat \<Rightarrow> u8) \<Rightarrow> (nat \<times> nat) list \<Rightarrow> ((u32 \<times> u32 \<times> (u32 \<times> u32 \<times> u32 \<times> u32) option) list) option" where
  "sdram_regions regs [] = Some []"
| "sdram_regions regs ((base_off, mask_off) # rest) = do {
     bas \<leftarrow> sdram_read_reg regs base_off;
     msk \<leftarrow> sdram_read_reg regs mask_off;
     lines \<leftarrow> sdram_regions regs rest;
     Some ((bas, msk, sdram_region bas msk) # lines)
   }"

fun sdram_dump :: "(nat \<Rightarrow> u8) \<Rightarrow> nat list \<Rightarrow> ((nat \<times> u32) list) option" where
  "sdram_dump regs [] = Some []"
| "sdram_dump regs (off # offs) = do {
     v \<leftarrow> sdram_read_reg regs off;
     lines \<leftarrow> sdram_dump regs offs;
     Some ((off, v) # lines)
   }"

definition sdram_main ::
  "map_env \<Rightarrow> (nat \<Rightarrow> u8) \<Rightarrow> (nat \<times> ((u32 \<times> u32 \<times> (u32 \<times> u32 \<times> u32 \<times> u32) option) list \<times> (nat \<times> u32) list) option) option" where
  "sdram_main env regs =
    (if env_fd env < 0 then Some (1, None)
     else if \<not> env_mmap env then Some (1, None)
     else do {
       regions \<leftarrow> sdram_regions regs [(0x5080, 0x5084), (0x5088, 0x508C), (0x5090, 0x5094), (0x5098, 0x509C)];
       raw \<leftarrow> sdram_dump regs (map (\<lambda>i. 0x5080 + 4 * i) [0..<8]);
       Some (0, Some (regions, raw))
     })"

section \<open>\<^verbatim>\<open>bridge_scan.cpp\<close> and \<^verbatim>\<open>bridge_test_safe.cpp\<close>\<close>

text \<open>What a bus read does: answer before the alarm, answer after it, or never answer. A read that is not
  answered does not return to the program, so the alarm's flag is not looked at.\<close>

datatype bus = In_Time u32 | Late u32 | Stalled

datatype scan_line = Mmap_Failed | Timeout | Found u32

definition timed_read :: "bus \<Rightarrow> (bool \<times> u32) option" where
  "timed_read b = (case b of In_Time v \<Rightarrow> Some (False, v) | Late v \<Rightarrow> Some (True, v) | Stalled \<Rightarrow> None)"

definition scan_bases :: "u32 list" where
  "scan_bases = [0xC0000000, 0xC4000000, 0xC8000000, 0xCC000000, 0xD0000000, 0xD4000000, 0xD8000000, 0xDC000000,
     0xDE000000, 0xDF000000, 0xDFF00000]"

fun bridge_scan_loop :: "(u32 \<Rightarrow> bool) \<Rightarrow> (u32 \<Rightarrow> bus) \<Rightarrow> u32 list \<Rightarrow> ((u32 \<times> scan_line) list) option" where
  "bridge_scan_loop mappable read [] = Some []"
| "bridge_scan_loop mappable read (b # bs) =
    (let page_base = b AND NOT 0xFFF
     in if \<not> mappable page_base then do { lines \<leftarrow> bridge_scan_loop mappable read bs; Some ((b, Mmap_Failed) # lines) }
        else do {
          (got_alarm, val) \<leftarrow> timed_read (read (page_base + (b - page_base)));
          lines \<leftarrow> bridge_scan_loop mappable read bs;
          Some ((b, if got_alarm then Timeout else Found val) # lines)
        })"

definition bridge_scan_main :: "int \<Rightarrow> (u32 \<Rightarrow> bool) \<Rightarrow> (u32 \<Rightarrow> bus) \<Rightarrow> (nat \<times> (u32 \<times> scan_line) list) option" where
  "bridge_scan_main fd mappable read =
    (if fd < 0 then Some (1, []) else do { lines \<leftarrow> bridge_scan_loop mappable read scan_bases; Some (0, lines) })"

definition probe_offsets :: "u32 list" where
  "probe_offsets = [0x00, 0x02, 0x03, 0x04, 0x05, 0x06, 0x08, 0x09, 0x0A, 0x0B, 0x0C, 0x0D, 0x8000, 0x8100]"

text \<open>The loop stops at the first late answer. \<open>fail\<close> and the values printed.\<close>

fun test_safe_loop :: "(u32 \<Rightarrow> bus) \<Rightarrow> u32 list \<Rightarrow> (bool \<times> (u32 \<times> u32) list) option" where
  "test_safe_loop read [] = Some (False, [])"
| "test_safe_loop read (off # offs) = do {
     (got_alarm, val) \<leftarrow> timed_read (read off);
     if got_alarm then Some (True, [])
     else do { (fail, lines) \<leftarrow> test_safe_loop read offs; Some (fail, (off, val) # lines) }
   }"

definition test_safe_main :: "map_env \<Rightarrow> (u32 \<Rightarrow> bus) \<Rightarrow> (nat \<times> (u32 \<times> u32) list) option" where
  "test_safe_main env read =
    (if env_fd env < 0 then Some (1, [])
     else if \<not> env_mmap env then Some (1, [])
     else do { (fail, lines) \<leftarrow> test_safe_loop read probe_offsets; Some (if fail then 1 else 0, lines) })"

section \<open>\<^verbatim>\<open>bridge_ddr3.cpp\<close>\<close>

definition stub_start :: "map_env \<Rightarrow> 'a window_scheme \<Rightarrow> nat + 'a window_scheme" where
  "stub_start env w =
    (if env_fd env < 0 then Inl 1
     else if \<not> env_mmap env then Inl 1
     else let w = wr64 w 0x8000 0 in Inr (wr64 w 0x8008 0))"

text \<open>One turn of the stand-in's loop. It has no chip: what it answers depends on the request alone.\<close>

definition stub_turn :: "'a window_scheme \<Rightarrow> 'a window_scheme" where
  "stub_turn w =
    (let req = rd64 w 0x8000
     in if has req 1 then
          (let rw = bit req 1;
               addr = ucast (drop_bit 2 req AND 0xFF) :: u16;
               data = ucast (drop_bit 10 req AND 0xFFFF) :: u16;
               rsp = (if \<not> rw then
                        (let result = (if addr = 2 then if data = 0 then 0x0004 else 0x0115 else 0x0004 :: u16)
                         in 1 OR push_bit 1 (ucast result))
                      else 1);
               w = wr64 w 0x8008 rsp
           in wr64 w 0x8000 0)
        else w)"

section \<open>What the tools do\<close>

text \<open>The probe of the board RAM leaves the window as it was and, on a window that keeps what is written,
  reports success.\<close>

theorem probe_restores: "snd (probe_boardram w) = w \<and> fst (fst (probe_boardram w))"
  by (simp add: probe_boardram_def Let_def) (simp add: BRIDGE_WRITE8_def BRIDGE_READ8_def fun_upd_twist)

lemma no_force: "\<not> st_force opts \<Longrightarrow> ''--force'' \<notin> set argv \<Longrightarrow> \<not> st_force (status_args argv opts)"
proof (induction argv opts rule: status_args.induct)
  case (2 arg rest opts)
  have "arg \<noteq> ''--force''" "''--force'' \<notin> set rest" "''--force'' \<notin> set (tl rest)"
    using 2(6) by (cases rest; auto)+
  then show ?case using 2 by simp
qed simp

text \<open>With the bridge disabled and no \<^verbatim>\<open>--force\<close>, the status tool refuses before it touches the window, so it
  ends with status 1 whether or not a slave would have answered.\<close>

theorem status_refuses:
  assumes "\<not> bit ctl 0" and "''--force'' \<notin> set argv"
  shows "status_main mgr_env ctl env slave fpga argv w = Some (1, None, w)"
proof -
  have "\<not> st_force (status_args argv \<lparr>st_base = 0xC0000000, st_poll = 0, st_force = False\<rparr>)"
    by (rule no_force) (use assms(2) in simp_all)
  moreover have "\<not> bit (check_bridge_mgr mgr_env ctl) 0" if "0 \<le> check_bridge_mgr mgr_env ctl"
    using that assms(1) by (auto simp: check_bridge_mgr_def bit_sint_iff split: if_splits)
  ultimately show ?thesis by (simp add: status_main_def Let_def)
qed

text \<open>A control word with bit 31 set is negative as an \<^verbatim>\<open>int\<close>, so the tool takes a successful read for a failed
  one, even when the enable bit is set.\<close>

theorem status_ctl_sign:
  assumes "bit ctl 31"
  shows "status_main mgr_env ctl env slave fpga argv w = Some (1, None, w)"
proof -
  have "sint ctl < 0" using assms bit_last_iff [of ctl] by simp
  then show ?thesis by (simp add: status_main_def check_bridge_mgr_def)
qed

text \<open>The magic as the FPGA writes it, at a physical address that can be mapped.\<close>

definition magic_at :: "(u32 \<Rightarrow> bool) \<Rightarrow> (u32 \<Rightarrow> u8) \<Rightarrow> u32 \<Rightarrow> bool" where
  "magic_at mappable mem a \<longleftrightarrow> mappable a \<and> rd32 mem a = MAGIC_LO \<and> rd32 mem (a + 4) = MAGIC_HI"

lemma try_read_eq: "try_read mappable mem a = (if magic_at mappable mem a then 0 else if mappable a then 1 else -1)"
  by (simp add: try_read_def magic_at_def Let_def)

lemma scan_loop_find:
  "n \<le> 1024 \<Longrightarrow> fst (scan_loop mappable mem (n * 0x100000)) =
     map_option (\<lambda>k. k * 0x100000) (List.find (\<lambda>k. magic_at mappable mem (of_nat (k * 0x100000))) [n..<1024])"
proof (induction "1024 - n" arbitrary: n)
  case 0
  then show ?case by (subst scan_loop.simps) simp
next
  case (Suc d)
  then have n: "n < 1024" by simp
  have "fst (scan_loop mappable mem (n * 0x100000)) =
      (if magic_at mappable mem (of_nat (n * 0x100000)) then Some (n * 0x100000) else fst (scan_loop mappable mem (Suc n * 0x100000)))"
    using n by (subst scan_loop.simps) (simp add: try_read_eq Let_def case_prod_beta add.commute)
  then show ?case
    using Suc.hyps(1) [of "Suc n"] Suc.hyps(2) n by (simp add: upt_conv_Cons [OF n])
qed

text \<open>The scan finds the magic at the first multiple of a megabyte below a gigabyte that holds it, and
  fails only when none does; pages that cannot be mapped are passed over.\<close>

theorem ddr3_scan_finds:
  "fst (scan_loop mappable mem 0) =
     map_option (\<lambda>k. k * 0x100000) (List.find (\<lambda>k. magic_at mappable mem (of_nat (k * 0x100000))) [0..<1024])"
  using scan_loop_find [of 0 mappable mem] by simp

text \<open>Every register the SDRAM tool reads lies beyond the page it maps, so once the mapping succeeds the first
  read is out of bounds.\<close>

theorem sdram_out_of_bounds:
  assumes "0 \<le> env_fd env" and "env_mmap env"
  shows "sdram_main env regs = None"
  using assms by (simp add: sdram_main_def sdram_read_reg_def)

lemma scan_bases_aligned: "b \<in> set scan_bases \<Longrightarrow> b AND NOT 0xFFF = b"
  by (auto simp: scan_bases_def)

lemma bridge_scan_loop_total:
  assumes "\<And>b. b \<in> set bs \<Longrightarrow> b AND NOT 0xFFF = b"
  shows "bridge_scan_loop mappable read bs = None \<longleftrightarrow> (\<exists>b \<in> set bs. mappable b \<and> read b = Stalled)"
  using assms
proof (induction bs)
  case (Cons b bs)
  have al: "b AND NOT 0xFFF = b" using Cons.prems [of b] by simp
  have ih: "bridge_scan_loop mappable read bs = None \<longleftrightarrow> (\<exists>b \<in> set bs. mappable b \<and> read b = Stalled)"
    by (rule Cons.IH) (use Cons.prems in simp)
  show ?case
    unfolding bridge_scan_loop.simps al Let_def
    by (cases "mappable b"; cases "read b") (simp_all add: timed_read_def Option.bind_eq_None_conv ih)
qed simp

text \<open>The alarm does not protect the scan: it completes exactly when no address it maps leaves the bus cycle
  open, and reports TIMEOUT only for a read that was answered after all.\<close>

theorem bridge_scan_stalls:
  assumes "0 \<le> fd"
  shows "bridge_scan_main fd mappable read = None \<longleftrightarrow> (\<exists>b \<in> set scan_bases. mappable b \<and> read b = Stalled)"
  using assms bridge_scan_loop_total [OF scan_bases_aligned, of scan_bases mappable read]
  by (auto simp: bridge_scan_main_def split: bind_splits)

text \<open>The same holds of the probe of the single registers; its status is 0 exactly when every read is
  answered in time.\<close>

lemma test_safe_loop_spec:
  "test_safe_loop read offs = Some (False, lines) \<longleftrightarrow> map (\<lambda>(off, v). (off, In_Time v)) lines = map (\<lambda>off. (off, read off)) offs"
proof (induction offs arbitrary: lines)
  case (Cons off offs)
  have "test_safe_loop read (off # offs) = Some (False, lines) \<longleftrightarrow>
      (\<exists>v ls. read off = In_Time v \<and> test_safe_loop read offs = Some (False, ls) \<and> lines = (off, v) # ls)"
    by (cases "read off") (auto simp: timed_read_def Option.bind_eq_Some_conv)
  also have "\<dots> \<longleftrightarrow> map (\<lambda>(off, v). (off, In_Time v)) lines = (off, read off) # map (\<lambda>off. (off, read off)) offs"
    unfolding Cons.IH by (cases lines) auto
  finally show ?case by simp
qed auto

theorem test_safe_passes:
  assumes "0 \<le> env_fd env" and "env_mmap env"
  shows "test_safe_main env read = Some (0, lines) \<longleftrightarrow>
    map (\<lambda>(off, v). (off, In_Time v)) lines = map (\<lambda>off. (off, read off)) probe_offsets"
  using assms test_safe_loop_spec [of read probe_offsets lines]
  by (auto simp: test_safe_main_def split: bind_splits if_splits)

section \<open>Sample runs\<close>

definition blank :: window where
  "blank = \<lparr>map_w = (\<lambda>_. 0), boardram = 0\<rparr>"

theorem status_refuses_witness:
  "status_main sample_map 0x10 sample_map False id [''--poll'', ''10''] blank = Some (1, None, blank)"
  by (rule status_refuses) (simp_all add: bit_numeral_rec)

theorem status_ctl_sign_witness:
  "status_main sample_map 0x80000001 sample_map True id [] blank = Some (1, None, blank)"
  by (rule status_ctl_sign) (simp add: bit_numeral_rec)

theorem sdram_out_of_bounds_witness: "sdram_main sample_map (\<lambda>_. 0) = None"
  by (rule sdram_out_of_bounds) (simp_all add: sample_map_def)

theorem bridge_scan_stalls_witness:
  "bridge_scan_main 3 (\<lambda>_. True) (\<lambda>a. if a = 0xC8000000 then Stalled else In_Time 0) = None"
  unfolding bridge_scan_stalls [of 3, simplified] by (rule bexI [of _ "0xC8000000"]) (simp_all add: scan_bases_def)

theorem test_safe_passes_witness:
  "test_safe_main sample_map (\<lambda>_. In_Time 7) = Some (0, map (\<lambda>off. (off, 7)) probe_offsets)"
  using test_safe_passes [of sample_map "\<lambda>_. In_Time 7" "map (\<lambda>off. (off, 7)) probe_offsets"] by (simp add: sample_map_def)

end
