(* ===== verification/Programs.thy ===== *)
theory Programs
  imports Ddr3_Serve Bridge Cmdline
begin

text \<open>
  The three daemons as whole programs: \<^verbatim>\<open>main\<close> of \<^verbatim>\<open>main_doorbell.cpp\<close>, \<^verbatim>\<open>main_ddr3.cpp\<close> and \<^verbatim>\<open>main.cpp\<close> from
  the command line to the exit status. \<open>process\<close> is what the kernel holds for the program besides the
  network socket: its descriptors and its mappings.

  What happens while a daemon runs is a list of events, in the order in which they take effect: a turn
  of the main loop, a turn of the receive thread with what the network delivered, and what the other
  side of the window does. The list ends where the signal arrives. The interface named on the command
  line selects the network's answers. \<open>None\<close> is a run with undefined behaviour or one that does not
  return.
\<close>

unbundle bit_operations_syntax

section \<open>The mapping of \<^verbatim>\<open>/dev/mem\<close>\<close>

record process =
  fds :: "int list"
  maps :: nat

definition open_window :: "map_env \<Rightarrow> process \<Rightarrow> process + int \<times> process" where
  "open_window env p =
    (let fd = env_fd env
     in if fd < 0 then Inl p
        else let p = p\<lparr>fds := fd # fds p\<rparr>
             in if \<not> env_mmap env then Inl (p\<lparr>fds := removeAll fd (fds p)\<rparr>)
                else Inr (fd, p\<lparr>maps := maps p + 1\<rparr>))"

definition close_window :: "int \<Rightarrow> process \<Rightarrow> process" where
  "close_window fd p =
    (let p = p\<lparr>maps := maps p - 1\<rparr>
     in p\<lparr>fds := removeAll fd (fds p)\<rparr>)"

text \<open>Whatever happens in between, a program that closes the window it opened holds what it held before.\<close>

lemma open_window_cases:
  assumes "env_fd env \<notin> set (fds p)"
  obtains "open_window env p = Inl p" "env_fd env < 0 \<or> \<not> env_mmap env"
  | q where "open_window env p = Inr (env_fd env, q)" "close_window (env_fd env) q = p" "0 \<le> env_fd env" "env_mmap env"
  using assms
  by (cases "env_fd env < 0"; cases "env_mmap env")
    (auto simp: open_window_def close_window_def Let_def)

section \<open>The doorbell daemon\<close>

datatype db_event = Poll | Receive "u8 list option" | Post u64 | Bus_Write u32 u8

fun db_run :: "u8 list \<Rightarrow> db_event list \<Rightarrow> u8 list \<Rightarrow> 'a doorbell_scheme \<Rightarrow> ('a doorbell_scheme) option" where
  "db_run tmp0 [] rxbuf s = Some s"
| "db_run tmp0 (Poll # es) rxbuf s = do { s \<leftarrow> poll_step tmp0 s; db_run tmp0 es rxbuf s }"
| "db_run tmp0 (Receive answer # es) rxbuf s = do { (rxbuf, s) \<leftarrow> rx_step tmp0 answer rxbuf s; db_run tmp0 es rxbuf s }"
| "db_run tmp0 (Post cmd # es) rxbuf s = db_run tmp0 es rxbuf (wr64 s DDR3_CMD_OFF cmd)"
| "db_run tmp0 (Bus_Write off b # es) rxbuf s = db_run tmp0 es rxbuf (put_ram_byte s off b)"

definition doorbell_stop :: "'a doorbell_scheme \<Rightarrow> 'a doorbell_scheme" where
  "doorbell_stop s = ethernet_close (wr64 s DDR3_INT_OFF 0)"

definition doorbell_main ::
  "map_env \<Rightarrow> bool \<Rightarrow> (string \<Rightarrow> nic_env) \<Rightarrow> boot_env \<Rightarrow> u8 list \<Rightarrow> u8 list \<Rightarrow> db_event list \<Rightarrow> string list \<Rightarrow> process \<Rightarrow>
   'a doorbell_scheme \<Rightarrow> (nat \<times> process \<times> 'a doorbell_scheme) option" where
  "doorbell_main menv thread nics boot tmp0 rxbuf events argv p s =
    (let opts = doorbell_args argv \<lparr>db_iface = ''eth0'', db_test_boardram = False, db_debug = False\<rparr>
     in case open_window menv p of
          Inl p \<Rightarrow> Some (1, p, s)
        | Inr (fd, p) \<Rightarrow>
            if db_test_boardram opts then
              (let s = wr64 (wr64 (wr64 (s\<lparr>boardram := DDR3_BRAM_OFF\<rparr>) DDR3_CMD_OFF 0) DDR3_CSR_OFF 0) DDR3_INT_OFF 0;
                   (rc, s) = test_boardram s
               in Some (rc, close_window fd p, s))
            else
              (let s = daemon_start (nics (db_iface opts)) boot s
               in if \<not> thread then Some (1, close_window fd p, s)
                  else do {
                    s \<leftarrow> db_run tmp0 events rxbuf (s\<lparr>dbg_cnt := 0, poll_cnt := 0, idle := 0\<rparr>);
                    Some (0, close_window fd p, doorbell_stop s)
                  }))"

text \<open>What the other side does to the window leaves the daemon's part of it alone.\<close>

lemma db_inv_other_side:
  assumes "db_inv s"
  shows "db_inv (wr64 s DDR3_CMD_OFF cmd)" "db_inv (put_ram_byte s off b)"
proof -
  have b: "boardram s = 0" using assms by (simp add: db_inv_def chip_inv_def chip_busy_def)
  show "db_inv (wr64 s DDR3_CMD_OFF cmd)"
    using assms wr64_inv [of s DDR3_CMD_OFF cmd]
    by (simp add: db_inv_def csr_packed_def registers_csr0_def registers_csr_def)
  show "db_inv (put_ram_byte s off b)"
    using assms b rd64_put_ram_byte [of s DDR3_CSR_OFF off b] rd64_put_ram_byte [of s DDR3_INT_OFF off b]
    by (simp add: db_inv_def csr_packed_def registers_csr0_def registers_csr_def chip_inv_def chip_busy_def config_ok_def)
qed

lemma db_run_inv: "db_inv s \<Longrightarrow> holds db_inv (db_run tmp0 es rxbuf s)"
proof (induction tmp0 es rxbuf s rule: db_run.induct)
  case (2 tmp0 es rxbuf s)
  then show ?case by (auto simp: holds_iff bind_eq_Some_conv dest: poll_step_keeps)
next
  case (3 tmp0 answer es rxbuf s)
  then show ?case by (auto simp: holds_iff bind_eq_Some_conv dest: rx_step_keeps)
qed (simp_all add: db_inv_other_side)

lemma db_inv_counters [simp]: "db_inv (s\<lparr>dbg_cnt := i, poll_cnt := j, idle := k\<rparr>) = db_inv s"
  by (simp add: db_inv_def csr_packed_def registers_csr0_def registers_csr_def)

lemma rd64_close [simp]: "rd64 (ethernet_close s) off = rd64 s off"
  by (simp add: ethernet_close_def rd64_def)

lemma sock_close [simp]: "sock_fd (ethernet_close s) < 0"
  by (simp add: ethernet_close_def)

lemma doorbell_stop_facts: "rd64 (doorbell_stop s) DDR3_INT_OFF = 0" "sock_fd (doorbell_stop s) < 0"
  by (simp_all add: doorbell_stop_def)

lemma doorbell_test_flag:
  "db_test_boardram (doorbell_args argv opts) \<Longrightarrow> db_test_boardram opts \<or> ''--test-boardram'' \<in> set argv"
proof (induction argv opts rule: doorbell_args.induct)
  case (2 arg rest opts)
  have "set (tl rest) \<subseteq> set rest" by (cases rest) auto
  then show ?case using 2 by (auto split: if_splits)
qed simp



section \<open>The DDR3 bridge daemon\<close>

text \<open>The FPGA has its turn after each turn of the main loop, besides those it takes during a transfer.\<close>

datatype dd_event = Turn | Frame "u8 list option"

fun dd_run :: "'m fpga_fn \<Rightarrow> u8 list \<Rightarrow> dd_event list \<Rightarrow> u8 list \<Rightarrow> 'm ddr3_scheme \<Rightarrow> ('m ddr3_scheme) option" where
  "dd_run fpga tmp0 [] rxbuf s = Some s"
| "dd_run fpga tmp0 (Turn # es) rxbuf s = do { s \<leftarrow> ddr3_turn fpga tmp0 s; dd_run fpga tmp0 es rxbuf (fpga_turn fpga s) }"
| "dd_run fpga tmp0 (Frame answer # es) rxbuf s = do { (rxbuf, s) \<leftarrow> ddr3_rx fpga tmp0 answer rxbuf s; dd_run fpga tmp0 es rxbuf s }"

definition ddr3_main ::
  "map_env \<Rightarrow> bool \<Rightarrow> 'm fpga_fn \<Rightarrow> (string \<Rightarrow> nic_env) \<Rightarrow> u32 \<Rightarrow> u8 list \<Rightarrow> u8 list \<Rightarrow> dd_event list \<Rightarrow> string list \<Rightarrow> process \<Rightarrow>
   'm ddr3_scheme \<Rightarrow> (nat \<times> process \<times> 'm ddr3_scheme) option" where
  "ddr3_main menv thread fpga nics local_boardram tmp0 rxbuf events argv p s =
    (let opts = ddr3_args argv \<lparr>dd_iface = ''eth0'', dd_test_boardram = False, dd_dump = False, dd_dump_start = 0, dd_dump_len = 0x20\<rparr>
     in case open_window menv p of
          Inl p \<Rightarrow> Some (1, p, s)
        | Inr (fd, p) \<Rightarrow>
            if dd_test_boardram opts then do {
              (rc, s) \<leftarrow> ddr3_test_boardram (fpga_turn fpga) (Some service_bridge_safe) ((ddr3_reset_mailbox fpga ^^ 5) s);
              Some (rc, close_window fd p, s)
            }
            else if dd_dump opts then do {
              (_, s) \<leftarrow> dump_boardram (fpga_turn fpga) (dd_dump_start opts) (dd_dump_len opts) ((ddr3_reset_mailbox fpga ^^ 5) s);
              Some (0, close_window fd p, s)
            }
            else
              (let s = ddr3_start fpga (nics (dd_iface opts)) local_boardram s
               in if \<not> thread then Some (1, close_window fd p, s)
                  else do {
                    s \<leftarrow> dd_run fpga tmp0 events rxbuf s;
                    Some (0, close_window fd p, ddr3_stop s)
                  }))"

lemma dd_run_inv: "keeps_int fpga \<Longrightarrow> ddr3_inv s \<Longrightarrow> holds ddr3_inv (dd_run fpga tmp0 es rxbuf s)"
proof (induction fpga tmp0 es rxbuf s rule: dd_run.induct)
  case (2 fpga tmp0 es rxbuf s)
  then show ?case by (auto simp: holds_iff bind_eq_Some_conv dest: ddr3_turn_keeps intro: ddr3_inv_fpga)
next
  case (3 fpga tmp0 answer es rxbuf s)
  then show ?case by (auto simp: holds_iff bind_eq_Some_conv dest: ddr3_rx_inv)
qed simp


lemma ddr3_stop_facts: "rd64 (ddr3_stop s) MBX_INT_OFF = 0" "sock_fd (ddr3_stop s) < 0"
  by (simp_all add: ddr3_stop_def)

lemma ddr3_test_flag: "dd_test_boardram (ddr3_args argv opts) \<Longrightarrow> dd_test_boardram opts \<or> ''--test-boardram'' \<in> set argv"
proof (induction argv opts rule: ddr3_args.induct)
  case (2 arg rest opts)
  have "set (tl rest) \<subseteq> set rest" "set (drop 2 rest) \<subseteq> set rest" by (cases rest; auto dest: in_set_dropD)+
  then show ?case using 2 by (auto simp: Let_def split: if_splits)
qed simp

lemma ddr3_dump_flag: "dd_dump (ddr3_args argv opts) \<Longrightarrow> dd_dump opts \<or> ''--dump-boardram'' \<in> set argv"
proof (induction argv opts rule: ddr3_args.induct)
  case (2 arg rest opts)
  have "set (tl rest) \<subseteq> set rest" "set (drop 2 rest) \<subseteq> set rest" by (cases rest; auto dest: in_set_dropD)+
  then show ?case using 2 by (auto simp: Let_def split: if_splits)
qed simp

text \<open>The same for the DDR3 bridge daemon: every path that returns releases the descriptor and the mapping, and
  status 0 without one of the two test modes is an orderly stop with the interrupt line down.\<close>

theorem ddr3_main_exits:
  assumes "env_fd menv \<notin> set (fds p)"
    and "ddr3_main menv thread fpga nics local_boardram tmp0 rxbuf events argv p s = Some (status, q, t)"
  shows "q = p \<and> (status = 0 \<longrightarrow> ''--test-boardram'' \<in> set argv \<or> ''--dump-boardram'' \<in> set argv \<or>
    rd64 t MBX_INT_OFF = 0 \<and> sock_fd t < 0)"
  using assms(1)
proof (cases rule: open_window_cases)
  case 1
  then show ?thesis using assms(2) by (simp add: ddr3_main_def Let_def)
next
  case (2 p')
  let ?o = "\<lparr>dd_iface = ''eth0'', dd_test_boardram = False, dd_dump = False, dd_dump_start = 0, dd_dump_len = 0x20\<rparr>"
  let ?opts = "ddr3_args argv ?o"
  let ?s = "ddr3_start fpga (nics (dd_iface ?opts)) local_boardram s"
  have flags: "dd_test_boardram ?opts \<longrightarrow> ''--test-boardram'' \<in> set argv" "dd_dump ?opts \<longrightarrow> ''--dump-boardram'' \<in> set argv"
    using ddr3_test_flag [of argv ?o] ddr3_dump_flag [of argv ?o] by auto
  show ?thesis
  proof (cases "dd_test_boardram ?opts \<or> dd_dump ?opts")
    case True
    then show ?thesis using assms(2) 2 flags by (auto simp: ddr3_main_def Let_def bind_eq_Some_conv split: if_splits)
  next
    case False
    then show ?thesis
      using assms(2) 2
      by (cases thread; cases "dd_run fpga tmp0 events rxbuf ?s") (auto simp: ddr3_main_def Let_def ddr3_stop_facts)
  qed
qed

section \<open>The bridge daemon\<close>

text \<open>The FPGA's writes go anywhere in the window; in the simulation there is no receive thread, so no frame.\<close>

datatype br_event = Serve | Arrive "u8 list option" | Fpga_Write u32 u8

fun br_run :: "u8 list \<Rightarrow> br_event list \<Rightarrow> u8 list \<Rightarrow> 'a bridge_daemon_scheme \<Rightarrow> ('a bridge_daemon_scheme) option" where
  "br_run tmp0 [] rxbuf s = Some s"
| "br_run tmp0 (Serve # es) rxbuf s = do { s \<leftarrow> bridge_turn tmp0 s; br_run tmp0 es rxbuf s }"
| "br_run tmp0 (Arrive answer # es) rxbuf s =
    (if sim_mode s then br_run tmp0 es rxbuf s
     else do { (rxbuf, s) \<leftarrow> bridge_rx tmp0 answer rxbuf s; br_run tmp0 es rxbuf s })"
| "br_run tmp0 (Fpga_Write off b # es) rxbuf s = br_run tmp0 es rxbuf (BRIDGE_WRITE8 s off b)"

definition bridge_main ::
  "(u32 \<Rightarrow> map_env) \<Rightarrow> (string \<Rightarrow> nic_env) \<Rightarrow> u8 list \<Rightarrow> u8 list \<Rightarrow> br_event list \<Rightarrow> string list \<Rightarrow>
   'a bridge_daemon_scheme \<Rightarrow> (nat \<times> 'a bridge_daemon_scheme) option" where
  "bridge_main menvs nics tmp0 rxbuf events argv s =
    (let opts = bridge_args argv \<lparr>br_iface = ''eth0'', br_base = 0xC0000000, br_sim = False\<rparr>;
         s = s\<lparr>sim_mode := br_sim opts\<rparr>
     in case bridge_start (menvs (br_base opts)) (nics (br_iface opts)) s of
          Inl (status, s) \<Rightarrow> Some (status, s)
        | Inr s \<Rightarrow> do {
            s \<leftarrow> br_run tmp0 events rxbuf s;
            Some (0, bridge_stop s)
          })"

text \<open>What the kernel holds is not touched between start-up and stop.\<close>

definition os_vars :: "map_ptr \<times> int \<times> map_ptr \<times> int \<times> int list \<times> nat \<times> bool \<times> bool \<Rightarrow> 'a bridge_daemon_scheme \<Rightarrow> bool" where
  "os_vars x s \<longleftrightarrow>
     x = (bridge_mapping s, bridge_fd s, sim_mapping s, sim_fd s, os_fds s, os_maps s, os_shm s, sim_mode s)"

lemma os_vars_upd [simp]:
  "os_vars x (put_ram_word s off w) = os_vars x s" "os_vars x (ram_write_block s off bs) = os_vars x s"
  "os_vars x (set_csr k v s) = os_vars x s" "os_vars x (BRIDGE_WRITE8 s off b) = os_vars x s"
  "os_vars x (BRIDGE_WRITE16 s off y) = os_vars x s" "os_vars x (s\<lparr>tx_poll_counter := c\<rparr>) = os_vars x s"
proof -
  show "os_vars x (ram_write_block s off bs) = os_vars x s" by (subst ram_write_block_map_w) (simp add: os_vars_def)
qed (simp_all add: os_vars_def set_csr_def BRIDGE_WRITE8_def BRIDGE_WRITE16_def put_ram_word_def put_ram_byte_def)

interpretation osv: ring_closed "Some bridge_on_interrupt_cb" "os_vars x" for x
  by unfold_locales (simp_all add: call_int_def bridge_on_interrupt_cb_def, simp_all add: os_vars_def)

interpretation osv: chip_closed "Some bridge_on_interrupt_cb" "os_vars x" "Some (bridge_on_transmit_cb tmp0)" for x tmp0
  by unfold_locales
    (simp_all add: call_tx_def bridge_on_transmit_cb_def, auto dest: osv.P_do_transmit [rotated], simp_all add: os_vars_def)

lemma os_vars_turn:
  assumes "os_vars x s" and step: "bridge_turn tmp0 s = Some t"
  shows "os_vars x t"
proof -
  have service: "os_vars x u" if "service_bridge tmp0 s = Some u" for u
    using that
  proof (cases rule: service_bridge_cases)
    case (2 result v)
    then show ?thesis using assms(1) osv.P_chip_wput [where x = x and s = s] by (auto split: if_splits)
  qed (use assms in simp)
  show ?thesis
    using step
  proof (cases rule: bridge_turn_cases)
    case (1 u)
    then show ?thesis using service by simp
  next
    case (2 u r v)
    then show ?thesis using service osv.P_do_transmit [OF _ 2(3), of x] by simp
  qed
qed

lemma os_vars_rx: "os_vars x s \<Longrightarrow> bridge_rx tmp0 answer rxbuf s = Some (rxbuf', t) \<Longrightarrow> os_vars x t"
  by (auto simp: bridge_rx_def bind_eq_Some_conv split: if_splits dest: osv.P_gotfunc)

lemma os_vars_run: "os_vars x s \<Longrightarrow> br_run tmp0 es rxbuf s = Some t \<Longrightarrow> os_vars x t"
  by (induction tmp0 es rxbuf s rule: br_run.induct)
    (auto simp: bind_eq_Some_conv split: if_splits dest: os_vars_turn os_vars_rx)

lemma bridge_inv_run: "bridge_inv s \<Longrightarrow> holds bridge_inv (br_run tmp0 es rxbuf s)"
proof (induction tmp0 es rxbuf s rule: br_run.induct)
  case (2 tmp0 es rxbuf s)
  then show ?case by (auto simp: holds_iff bind_eq_Some_conv dest: bridge_turn_facts)
next
  case (3 tmp0 answer es rxbuf s)
  then show ?case by (auto simp: holds_iff bind_eq_Some_conv dest: bridge_rx_inv)
next
  case (4 tmp0 off b es rxbuf s)
  have "bridge_inv (BRIDGE_WRITE8 s off b)"
    using 4(2) by (simp add: bridge_inv_def chip_inv_def chip_busy_def config_ok_def BRIDGE_WRITE8_def)
  then show ?case using 4(1) by simp
qed simp


lemma bridge_chip_os:
  "os_vars x (bridge_chip menv s) =
   os_vars x (snd (if sim_mode s then bridge_sim_open menv BRIDGE_WINDOW_SIZE s else bridge_do_mmap menv BRIDGE_WINDOW_SIZE s))"
  by (simp add: bridge_chip_def case_prod_beta os_vars_def bridge_set_default_mac_def registers_set_fakemac_def registers_reset_def
      registers_set_boardram_def Let_def)

lemma os_vars_open: "os_vars x (snd (ethernet_open nic s)) = os_vars x s"
  by (simp add: os_vars_def ethernet_open_def Let_def split: option.split)

lemma os_vars_start:
  assumes "bridge_start menv nic s = Inr u"
  shows "os_vars x u =
    os_vars x (snd (if sim_mode s then bridge_sim_open menv BRIDGE_WINDOW_SIZE s else bridge_do_mmap menv BRIDGE_WINDOW_SIZE s))"
  using assms by (rule bridge_start_Inr) (auto simp: os_vars_open bridge_chip_os)

text \<open>Closing looks at nothing but what the kernel holds.\<close>

lemma close_os:
  assumes "os_vars x s" and "os_vars x t"
  shows "os_fds (bridge_unmap s) = os_fds (bridge_unmap t) \<and> os_maps (bridge_unmap s) = os_maps (bridge_unmap t)"
    "os_fds (bridge_sim_close s) = os_fds (bridge_sim_close t) \<and> os_maps (bridge_sim_close s) = os_maps (bridge_sim_close t) \<and>
     os_shm (bridge_sim_close s) = os_shm (bridge_sim_close t)"
  using assms by (auto simp: os_vars_def bridge_unmap_def bridge_sim_close_def os_close_def Let_def)

lemma start_fails: "bridge_start menv nic s = Inl (status, t) \<Longrightarrow> status = 1"
  by (auto simp: bridge_start_def Let_def split: prod.splits if_splits)

lemma start_mapped:
  assumes "bridge_start menv nic s = Inr u"
  shows "fst (if sim_mode s then bridge_sim_open menv BRIDGE_WINDOW_SIZE s else bridge_do_mmap menv BRIDGE_WINDOW_SIZE s) \<noteq> Null"
  using assms by (auto simp: bridge_start_def Let_def case_prod_beta split: if_splits)

text \<open>A bridge daemon that ends with status 0 has stopped in order: the socket is closed, and no descriptor, no
  mapping and no shared-memory name is left.\<close>

theorem bridge_main_exits:
  assumes fresh: "bridge_fd s = -1" "bridge_mapping s = Null" "sim_mapping s = Null" "\<not> os_shm s"
    and env: "\<And>a. env_fd (menvs a) \<notin> set (os_fds s)"
    and run: "bridge_main menvs nics tmp0 rxbuf events argv s = Some (0, t)"
  shows "os_fds t = os_fds s \<and> os_maps t = os_maps s \<and> \<not> os_shm t \<and> sock_fd t < 0"
proof -
  define opts where "opts = bridge_args argv \<lparr>br_iface = ''eth0'', br_base = 0xC0000000, br_sim = False\<rparr>"
  define m where "m = menvs (br_base opts)"
  define s0 where "s0 = s\<lparr>sim_mode := br_sim opts\<rparr>"
  obtain u v where u: "bridge_start m (nics (br_iface opts)) s0 = Inr u" and v: "br_run tmp0 events rxbuf u = Some v" and t: "t = bridge_stop v"
    using run start_fails [of m "nics (br_iface opts)" s0]
    by (auto simp: bridge_main_def Let_def opts_def m_def s0_def bind_eq_Some_conv split: sum.splits)
  define o0 where "o0 = (if br_sim opts then bridge_sim_open m BRIDGE_WINDOW_SIZE s0 else bridge_do_mmap m BRIDGE_WINDOW_SIZE s0)"
  obtain x where x: "os_vars x (snd o0)" by (simp add: os_vars_def)
  have "os_vars x u" using os_vars_start [OF u, of x] x by (simp add: o0_def s0_def)
  then have xv: "os_vars x v" using v by (rule os_vars_run)
  have sm: "sim_mode v = br_sim opts"
    using x xv by (auto simp: os_vars_def o0_def s0_def split: if_splits)
  have xc: "os_vars x (ethernet_close v)" using xv by (simp add: os_vars_def ethernet_close_def)
  have mapped: "fst o0 \<noteq> Null" using start_mapped [OF u] by (simp add: o0_def s0_def)
  have closed: "t = (if br_sim opts then bridge_sim_close (ethernet_close v) else bridge_unmap (ethernet_close v))"
    using t sm by (simp add: bridge_stop_def ethernet_close_def)
  have sock: "sock_fd t < 0"
    by (simp add: closed bridge_unmap_def bridge_sim_close_def os_close_def Let_def)
  have e: "env_fd m \<notin> set (os_fds s0)" using env by (simp add: m_def s0_def)
  show ?thesis
  proof (cases "br_sim opts")
    case True
    let ?z = "bridge_sim_close (snd o0)"
    have "os_fds ?z = os_fds s0 \<and> os_maps ?z = os_maps s0 \<and> \<not> os_shm ?z"
      using bridge_sim_released [of s0 m BRIDGE_WINDOW_SIZE "fst o0" "snd o0" ?z] fresh e mapped True by (simp add: o0_def s0_def)
    then show ?thesis using close_os(2) [OF x xc] sock closed True by (simp add: s0_def)
  next
    case False
    let ?z = "bridge_unmap (snd o0)"
    have "os_fds ?z = os_fds s0 \<and> os_maps ?z = os_maps s0"
      using bridge_map_released [of s0 m BRIDGE_WINDOW_SIZE "fst o0" "snd o0" ?z] fresh e False by (simp add: o0_def s0_def)
    moreover have "\<not> os_shm t"
      using xc x fresh(4) False
      by (auto simp: closed bridge_unmap_def os_close_def os_vars_def o0_def s0_def bridge_do_mmap_def os_open_def Let_def split: if_splits)
    ultimately show ?thesis using close_os(1) [OF x xc] sock closed False by (simp add: s0_def)
  qed
qed

section \<open>Sample runs\<close>

definition sample_process :: process where
  "sample_process = \<lparr>fds = [0, 1, 2], maps = 0\<rparr>"

lemma sample_addr: "env_hwaddr sample_nic = Some a \<Longrightarrow> length a = 6" "eth0_hwaddr sample_boot = Some a \<Longrightarrow> length a = 6"
  by (auto simp: sample_nic_def sample_boot_def)




theorem ddr3_main_exits_witness:
  "\<exists>t. ddr3_main sample_map False (\<lambda>x. x) (\<lambda>_. sample_nic) 0x20000 [] [] [] [] sample_process fresh_ddr3 = Some (1, sample_process, t)"
proof -
  let ?run = "ddr3_main sample_map False (\<lambda>x. x) (\<lambda>_. sample_nic) 0x20000 [] [] [] [] sample_process fresh_ddr3"
  obtain q t where r: "?run = Some (1, q, t)"
    by (simp add: ddr3_main_def open_window_def sample_map_def)
  then show ?thesis
    using ddr3_main_exits [OF _ r] by (simp add: sample_map_def sample_process_def)
qed


theorem bridge_main_exits_witness:
  "\<exists>t. bridge_main (\<lambda>_. sample_map) (\<lambda>_. sample_net) [] [] [] [] (bridge_init False) = Some (0, t) \<and> os_fds t = [] \<and> os_maps t = 0"
proof -
  have i: "(bridge_init False)\<lparr>sim_mode := False\<rparr> = bridge_init False" by (simp add: bridge_init_def a2065.defs)
  obtain t where r: "bridge_main (\<lambda>_. sample_map) (\<lambda>_. sample_net) [] [] [] [] (bridge_init False) = Some (0, t)"
    using bridge_starts i by (simp add: bridge_main_def)
  have "bridge_fd (bridge_init False) = -1" "bridge_mapping (bridge_init False) = Null" "sim_mapping (bridge_init False) = Null"
      "\<not> os_shm (bridge_init False)" "os_fds (bridge_init False) = []" "os_maps (bridge_init False) = 0"
    by (simp_all add: bridge_init_def a2065.defs)
  then show ?thesis using bridge_main_exits [OF _ _ _ _ _ r] r by simp
qed

end
