(* ===== verification/Fpga_Bus.thy ===== *)
theory Fpga_Bus
  imports Prelude
begin

text \<open>
  What the modules under \<^verbatim>\<open>src/fpga/rtl\<close> share: the signals of the 68k bus, the address at which AmigaOS put
  the card, the decoding of the two chip registers, and the contract of a clocked module.

  A module is a record of its registers and a function from the inputs at a rising clock edge to the next
  registers; every right-hand side of a nonblocking assignment reads the registers before the edge. A wire is a
  function of registers and inputs. Strobes keep their polarity: a field that ends in \<open>_n\<close> is active when \<open>False\<close>.
\<close>

unbundle bit_operations_syntax

type_synonym u24 = "24 word"
type_synonym u7 = "7 word"

record cpu_bus =
  cpu_addr :: u24
  cpu_rw :: bool
  cpu_as_n :: bool
  cpu_ds_n :: bool
  cpu_data_in :: u16

record card_cfg =
  card_base :: u8
  card_configured :: bool

text \<open>The wire \<^verbatim>\<open>sel_chipreg\<close>, the same in \<^verbatim>\<open>a2065_regfile.v\<close> and \<^verbatim>\<open>a2065_registers.v\<close>.\<close>

definition sel_chipreg :: "card_cfg \<Rightarrow> cpu_bus \<Rightarrow> bool" where
  "sel_chipreg c b \<longleftrightarrow> card_configured c \<and>
     (ucast (drop_bit 16 (cpu_addr b)) :: u8) = card_base c \<and>
     (ucast (drop_bit 2 (cpu_addr b)) :: 14 word) = 0x1000 \<and>
     \<not> cpu_as_n b \<and> \<not> cpu_ds_n b"

section \<open>Bus cycles\<close>

text \<open>A bus cycle on one of the two ports, with both strobes active. The address is that of the card, offset
  \<^verbatim>\<open>0x4000\<close> for the data port and \<^verbatim>\<open>0x4002\<close> for the address port.\<close>

definition port_addr :: "card_cfg \<Rightarrow> bool \<Rightarrow> u24" where
  "port_addr c on_rap = push_bit 16 (ucast (card_base c)) OR ucast (if on_rap then 0x4002 else 0x4000 :: u16)"

definition port_cycle :: "card_cfg \<Rightarrow> bool \<Rightarrow> bool \<Rightarrow> u16 \<Rightarrow> cpu_bus" where
  "port_cycle c on_rap rd v = \<lparr>cpu_addr = port_addr c on_rap, cpu_rw = rd, cpu_as_n = False, cpu_ds_n = False, cpu_data_in = v\<rparr>"

text \<open>The byte of the page and the sixteen bits below it are apart.\<close>

lemma paged_addr:
  "(ucast (drop_bit 16 (push_bit 16 (ucast p) OR ucast off :: u24)) :: u8) = p"
  "(ucast (drop_bit 2 (push_bit 16 (ucast p) OR ucast off :: u24)) :: 14 word) = ucast (drop_bit 2 off)"
  "(ucast (drop_bit 1 (push_bit 16 (ucast p) OR ucast off :: u24)) :: 5 word) = ucast (drop_bit 1 off)"
  "(ucast (push_bit 16 (ucast p) OR ucast off :: u24) :: 2 word) = ucast off"
  "(ucast (push_bit 16 (ucast p) OR ucast off :: u24) :: u8) = ucast off" for p :: u8 and off :: u16
  by (rule bit_word_eqI; auto simp: bit_simps dest: bit_imp_le_length)+

lemma port_addr_simps [simp]:
  "(ucast (drop_bit 16 (port_addr c p)) :: u8) = card_base c"
  "(ucast (drop_bit 2 (port_addr c p)) :: 14 word) = 0x1000"
  "(ucast (port_addr c p) :: 2 word) = (if p then 2 else 0)"
  unfolding port_addr_def paged_addr by simp_all

lemma port_addr_is_rap [simp]: "bit (port_addr c p) (Suc 0) = p"
proof -
  have "bit (port_addr c p) (Suc 0) = bit (ucast (port_addr c p) :: 2 word) (Suc 0)"
    by (simp add: bit_simps del: port_addr_simps)
  also have "\<dots> = p" by simp
  finally show ?thesis .
qed

lemma port_cycle_fields [simp]:
  "cpu_addr (port_cycle c p rd v) = port_addr c p" "cpu_rw (port_cycle c p rd v) = rd"
  "cpu_data_in (port_cycle c p rd v) = v" "\<not> cpu_as_n (port_cycle c p rd v)" "\<not> cpu_ds_n (port_cycle c p rd v)"
  by (simp_all add: port_cycle_def)

lemma sel_port_cycle [simp]: "sel_chipreg c (port_cycle c p rd v) = card_configured c"
  by (simp add: sel_chipreg_def)

text \<open>The card at the address the test benches use.\<close>

definition card_e9 :: card_cfg where
  "card_e9 = \<lparr>card_base = 0xE9, card_configured = True\<rparr>"

lemma card_e9_configured [simp]: "card_configured card_e9"
  by (simp add: card_e9_def)

section \<open>Clocked modules\<close>

text \<open>What a clocked module promises: a predicate on its registers that holds after every edge whose inputs are
  admitted, whatever the rest of the system does.\<close>

locale clocked =
  fixes step :: "'i \<Rightarrow> 's \<Rightarrow> 's" and admits :: "'i \<Rightarrow> bool" and ok :: "'s \<Rightarrow> bool"
  assumes step_ok: "admits i \<Longrightarrow> ok s \<Longrightarrow> ok (step i s)"
begin

lemma run_ok: "list_all admits is \<Longrightarrow> ok s \<Longrightarrow> ok (fold step is s)"
  by (induction "is" arbitrary: s) (simp_all add: step_ok)

end

end
