(* ===== verification/Fpga_Regfile.thy ===== *)
theory Fpga_Regfile
  imports Fpga_Bus
begin

text \<open>
  \<^verbatim>\<open>src/fpga/rtl/a2065_regfile.v\<close>: the chip registers on the side of the 68k bus in the doorbell design. Reads are
  answered from a copy of CSR0 to CSR3, a write to the address port is kept in the module, and a write to the data
  port raises a doorbell with the register number and the word. No access waits. \<open>cmd_clear\<close> passes through
  two synchroniser registers. The reset does not touch the copy and the synchroniser.
\<close>

unbundle bit_operations_syntax

record regfile =
  rf_rap :: u7
  csr_shadow :: "nat \<Rightarrow> u16"
  cmd_pending :: bool
  cmd_rap :: u7
  cmd_data :: u16
  cmd_clear_s :: bool
  cmd_clear_s1 :: bool

text \<open>The inputs at an edge: reset, bus, \<^verbatim>\<open>cmd_clear\<close> and \<^verbatim>\<open>csr0_in\<close> to \<^verbatim>\<open>csr3_in\<close>.\<close>

record rf_in =
  rst_n :: bool
  rf_bus :: cpu_bus
  cmd_clear :: bool
  csr_in :: "nat \<Rightarrow> u16"

abbreviation is_rap :: "cpu_bus \<Rightarrow> bool" where
  "is_rap b \<equiv> bit (cpu_addr b) 1"

definition shadow_clk :: "(nat \<Rightarrow> u16) \<Rightarrow> regfile \<Rightarrow> regfile" where
  "shadow_clk vs r = r\<lparr>csr_shadow := (csr_shadow r)(0 := vs 0, 1 := vs 1, 2 := vs 2, 3 := vs 3)\<rparr>"

definition clear_clk :: "bool \<Rightarrow> regfile \<Rightarrow> regfile" where
  "clear_clk v r = r\<lparr>cmd_clear_s := v, cmd_clear_s1 := cmd_clear_s r\<rparr>"

definition cmd_clk :: "card_cfg \<Rightarrow> bool \<Rightarrow> cpu_bus \<Rightarrow> regfile \<Rightarrow> regfile" where
  "cmd_clk c rstn b r0 =
    (if \<not> rstn then r0\<lparr>rf_rap := 0, cmd_pending := False, cmd_rap := 0, cmd_data := 0\<rparr>
     else
       (let r = (if cmd_clear_s1 r0 then r0\<lparr>cmd_pending := False\<rparr> else r0);
            r = (if sel_chipreg c b \<and> \<not> cpu_rw b \<and> \<not> is_rap b
                 then r\<lparr>cmd_rap := rf_rap r0, cmd_data := cpu_data_in b, cmd_pending := True\<rparr> else r)
        in if sel_chipreg c b \<and> \<not> cpu_rw b \<and> is_rap b then r\<lparr>rf_rap := ucast (cpu_data_in b)\<rparr> else r))"

text \<open>The three always blocks at one edge; the registers of one are inputs of the next only as they were before.\<close>

definition regfile_clk :: "card_cfg \<Rightarrow> rf_in \<Rightarrow> regfile \<Rightarrow> regfile" where
  "regfile_clk c i r = shadow_clk (csr_in i) (clear_clk (cmd_clear i) (cmd_clk c (rst_n i) (rf_bus i) r))"

definition chip_id_out :: "regfile \<Rightarrow> u16" where
  "chip_id_out r = (if rf_rap r = 88 then 0x0001 else if rf_rap r = 89 then 0x3003
     else if rf_rap r < 4 then csr_shadow r (unat (rf_rap r)) else 0)"

definition rf_data_out :: "card_cfg \<Rightarrow> cpu_bus \<Rightarrow> regfile \<Rightarrow> u16" where
  "rf_data_out c b r = (if sel_chipreg c b \<and> cpu_rw b then (if is_rap b then ucast (rf_rap r) else chip_id_out r) else 0)"

section \<open>One edge\<close>

lemma shadow_clk_frame [simp]:
  "rf_rap (shadow_clk vs r) = rf_rap r" "cmd_pending (shadow_clk vs r) = cmd_pending r" "cmd_rap (shadow_clk vs r) = cmd_rap r"
  "cmd_data (shadow_clk vs r) = cmd_data r" "cmd_clear_s (shadow_clk vs r) = cmd_clear_s r"
  "cmd_clear_s1 (shadow_clk vs r) = cmd_clear_s1 r" "n < 4 \<Longrightarrow> csr_shadow (shadow_clk vs r) n = vs n"
  by (auto simp: shadow_clk_def numeral_eq_Suc less_Suc_eq)

lemma clear_clk_frame [simp]:
  "rf_rap (clear_clk v r) = rf_rap r" "cmd_pending (clear_clk v r) = cmd_pending r" "cmd_rap (clear_clk v r) = cmd_rap r"
  "cmd_data (clear_clk v r) = cmd_data r" "cmd_clear_s (clear_clk v r) = v" "cmd_clear_s1 (clear_clk v r) = cmd_clear_s r"
  by (simp_all add: clear_clk_def)

lemma cmd_clk_frame [simp]:
  "csr_shadow (cmd_clk c rstn b r) = csr_shadow r" "cmd_clear_s (cmd_clk c rstn b r) = cmd_clear_s r"
  by (simp_all add: cmd_clk_def Let_def)

text \<open>A clock without a bus cycle on the card.\<close>

definition no_cycle :: "card_cfg \<Rightarrow> rf_in \<Rightarrow> bool" where
  "no_cycle c i \<longleftrightarrow> rst_n i \<and> \<not> sel_chipreg c (rf_bus i)"

lemma no_cycle_clk [simp]:
  assumes "no_cycle c i"
  shows "rf_rap (regfile_clk c i r) = rf_rap r" "cmd_rap (regfile_clk c i r) = cmd_rap r" "cmd_data (regfile_clk c i r) = cmd_data r"
    "cmd_pending (regfile_clk c i r) = (cmd_pending r \<and> \<not> cmd_clear_s1 r)"
  using assms by (auto simp: regfile_clk_def cmd_clk_def no_cycle_def Let_def)

text \<open>A clock with a write cycle on the data port, and with one on the address port.\<close>

lemma rdp_write_clk:
  assumes "card_configured c" "rst_n i" "rf_bus i = port_cycle c False False v"
  shows "cmd_pending (regfile_clk c i r)" "cmd_rap (regfile_clk c i r) = rf_rap r" "cmd_data (regfile_clk c i r) = v"
    "rf_rap (regfile_clk c i r) = rf_rap r"
  using assms by (simp_all add: regfile_clk_def cmd_clk_def Let_def)

lemma rap_write_clk:
  assumes "card_configured c" "rst_n i" "rf_bus i = port_cycle c True False v"
  shows "rf_rap (regfile_clk c i r) = ucast v" "cmd_rap (regfile_clk c i r) = cmd_rap r" "cmd_data (regfile_clk c i r) = cmd_data r"
  using assms by (simp_all add: regfile_clk_def cmd_clk_def Let_def)

section \<open>The doorbell\<close>

text \<open>A doorbell with command \<open>(k, v)\<close> that no acknowledgement is on its way to.\<close>

definition rings :: "u7 \<Rightarrow> u16 \<Rightarrow> regfile \<Rightarrow> bool" where
  "rings k v r \<longleftrightarrow> cmd_pending r \<and> cmd_rap r = k \<and> cmd_data r = v \<and> \<not> cmd_clear_s r \<and> \<not> cmd_clear_s1 r"

text \<open>Cycles that are not a write to the data port leave the doorbell alone.\<close>

definition leaves_doorbell :: "card_cfg \<Rightarrow> rf_in \<Rightarrow> bool" where
  "leaves_doorbell c i \<longleftrightarrow> rst_n i \<and> \<not> cmd_clear i \<and>
     \<not> (sel_chipreg c (rf_bus i) \<and> \<not> cpu_rw (rf_bus i) \<and> \<not> is_rap (rf_bus i))"

interpretation held: clocked "regfile_clk c" "leaves_doorbell c" "rings k v" for c k v
  by unfold_locales (auto simp: rings_def leaves_doorbell_def regfile_clk_def cmd_clk_def Let_def)

text \<open>A command stays up with its register number and its data until it is acknowledged, whatever else the 68k does
  short of another write to the data port; the acknowledgement takes it down at the third edge.\<close>

theorem doorbell_held:
  assumes "rings k v r" "list_all (leaves_doorbell c) is" "leaves_doorbell c (i\<lparr>cmd_clear := False\<rparr>)"
    "leaves_doorbell c j" "leaves_doorbell c j'"
  shows "rings k v (fold (regfile_clk c) is r) \<and>
    \<not> cmd_pending (regfile_clk c j' (regfile_clk c j (regfile_clk c (i\<lparr>cmd_clear := True\<rparr>) (fold (regfile_clk c) is r))))"
proof -
  have "rings k v (fold (regfile_clk c) is r)" using assms(1,2) by (rule held.run_ok [rotated])
  then show ?thesis
    using assms(3-5) by (auto simp: rings_def leaves_doorbell_def regfile_clk_def cmd_clk_def Let_def)
qed

text \<open>A write cycle of the 68k on the data port that lasts \<open>n + 1\<close> clocks.\<close>

definition write_clk :: "card_cfg \<Rightarrow> u16 \<Rightarrow> (nat \<Rightarrow> u16) \<Rightarrow> rf_in" where
  "write_clk c v vs = \<lparr>rst_n = True, rf_bus = port_cycle c False False v, cmd_clear = False, csr_in = vs\<rparr>"

lemma write_clk_fields [simp]: "rst_n (write_clk c v vs)" "rf_bus (write_clk c v vs) = port_cycle c False False v" "\<not> cmd_clear (write_clk c v vs)"
  by (simp_all add: write_clk_def)

lemma write_clk_simps [simp]:
  assumes "card_configured c"
  shows "cmd_pending (regfile_clk c (write_clk c v vs) r)" "cmd_rap (regfile_clk c (write_clk c v vs) r) = rf_rap r"
    "cmd_data (regfile_clk c (write_clk c v vs) r) = v" "rf_rap (regfile_clk c (write_clk c v vs) r) = rf_rap r"
  by (rule rdp_write_clk [OF assms]; simp)+

lemma write_run [simp]:
  assumes "card_configured c"
  shows "rf_rap ((regfile_clk c (write_clk c v vs) ^^ n) r) = rf_rap r"
  using assms by (induction n) simp_all

text \<open>A command is lost when the acknowledgement of the previous one arrives during the last clock of its bus cycle,
  however long the cycle was: the doorbell rings with the new command for two clocks and is then taken down by the
  acknowledgement, which has been in the synchroniser meanwhile.\<close>

theorem doorbell_lost:
  assumes "card_configured c" "no_cycle c j" "no_cycle c j'"
  shows "let r1 = regfile_clk c ((write_clk c v vs)\<lparr>cmd_clear := True\<rparr>) ((regfile_clk c (write_clk c v vs) ^^ n) r);
             r3 = regfile_clk c j' (regfile_clk c j r1)
    in cmd_pending r1 \<and> cmd_rap r1 = rf_rap r \<and> cmd_data r1 = v \<and> \<not> cmd_pending r3"
proof -
  define r1 where "r1 = regfile_clk c ((write_clk c v vs)\<lparr>cmd_clear := True\<rparr>) ((regfile_clk c (write_clk c v vs) ^^ n) r)"
  have r1: "cmd_pending r1" "cmd_rap r1 = rf_rap r" "cmd_data r1 = v"
    using rdp_write_clk [OF assms(1), of "(write_clk c v vs)\<lparr>cmd_clear := True\<rparr>" v] assms(1) by (simp_all add: r1_def)
  have "cmd_clear_s r1" by (simp add: r1_def regfile_clk_def)
  then have "cmd_clear_s1 (regfile_clk c j r1)" by (simp add: regfile_clk_def)
  with r1 show ?thesis using assms(2,3) by (simp add: Let_def r1_def [symmetric])
qed

section \<open>Witnesses\<close>

definition regfile_init :: regfile where
  "regfile_init = \<lparr>rf_rap = 0, csr_shadow = (\<lambda>_. 0), cmd_pending = False, cmd_rap = 0, cmd_data = 0, cmd_clear_s = False, cmd_clear_s1 = False\<rparr>"

text \<open>A clock between bus cycles.\<close>

definition idle_clk :: "bool \<Rightarrow> (nat \<Rightarrow> u16) \<Rightarrow> rf_in" where
  "idle_clk clr vs = \<lparr>rst_n = True, rf_bus = \<lparr>cpu_addr = 0, cpu_rw = True, cpu_as_n = True, cpu_ds_n = True, cpu_data_in = 0\<rparr>, cmd_clear = clr, csr_in = vs\<rparr>"

lemma idle_clk_fields [simp]: "no_cycle c (idle_clk clr vs)" "csr_in (idle_clk clr vs) = vs" "cmd_clear (idle_clk clr vs) = clr"
  "leaves_doorbell c (idle_clk False vs)"
  by (simp_all add: idle_clk_def no_cycle_def sel_chipreg_def leaves_doorbell_def)

theorem doorbell_held_witness:
  "rings 0 0x0002 (fold (regfile_clk card_e9) [idle_clk False (\<lambda>_. 0)] (regfile_clk card_e9 (write_clk card_e9 0x0002 (\<lambda>_. 0)) regfile_init))"
proof -
  have "rings 0 0x0002 (regfile_clk card_e9 (write_clk card_e9 0x0002 (\<lambda>_. 0)) regfile_init)"
    by (simp add: rings_def) (simp add: regfile_clk_def regfile_init_def)
  from doorbell_held [OF this, of card_e9 "[idle_clk False (\<lambda>_. 0)]" "idle_clk False (\<lambda>_. 0)" "idle_clk False (\<lambda>_. 0)" "idle_clk False (\<lambda>_. 0)"]
  show ?thesis by (simp add: idle_clk_def leaves_doorbell_def sel_chipreg_def)
qed

theorem doorbell_lost_witness:
  "\<not> cmd_pending (regfile_clk card_e9 (idle_clk False (\<lambda>_. 0)) (regfile_clk card_e9 (idle_clk False (\<lambda>_. 0))
     (regfile_clk card_e9 ((write_clk card_e9 0x0002 (\<lambda>_. 0))\<lparr>cmd_clear := True\<rparr>)
       ((regfile_clk card_e9 (write_clk card_e9 0x0002 (\<lambda>_. 0)) ^^ 7) regfile_init))))"
  using doorbell_lost [where c = card_e9 and j = "idle_clk False (\<lambda>_. 0)" and j' = "idle_clk False (\<lambda>_. 0)"
      and v = "0x0002" and vs = "\<lambda>_. 0" and n = 7 and r = regfile_init]
  by (simp add: Let_def)

end
