(* ===== verification/Fpga_Autoconfig.thy ===== *)
theory Fpga_Autoconfig
  imports Fpga_Bus
begin

text \<open>
  \<^verbatim>\<open>src/fpga/rtl/a2065_autoconfig.v\<close>: the Zorro II configuration of the card. While it has not been shut up the card answers
  at \<^verbatim>\<open>0xE80000\<close>: reads return one inverted nibble of its identity, the serial number being the MAC bytes the ARM provides,
  and writes set the address of the card or shut it up. The address and the flag are the \<open>card_cfg\<close> that the register
  modules decode with.
\<close>

unbundle bit_operations_syntax

type_synonym nibble = "4 word"

record autoconfig = card_cfg +
  card_shutup :: bool
  ac_data_out :: u16
  ac_dtack_n :: bool

text \<open>\<^verbatim>\<open>mac_byte2\<close> to \<^verbatim>\<open>mac_byte5\<close>.\<close>

record mac_in =
  mac_byte2 :: u8
  mac_byte3 :: u8
  mac_byte4 :: u8
  mac_byte5 :: u8

abbreviation hi_nibble :: "u8 \<Rightarrow> nibble" where "hi_nibble x \<equiv> ucast (drop_bit 4 x)"
abbreviation lo_nibble :: "u8 \<Rightarrow> nibble" where "lo_nibble x \<equiv> ucast x"

definition rom :: "mac_in \<Rightarrow> nibble list" where
  "rom m = [0xC, 0x1, 0x7, 0x0, 0x0, 0x0, 0xF, 0xF, 0x0, 0x2, 0x0, 0x2,
     hi_nibble (mac_byte2 m), lo_nibble (mac_byte2 m), hi_nibble (mac_byte3 m), lo_nibble (mac_byte3 m),
     hi_nibble (mac_byte4 m), lo_nibble (mac_byte4 m), hi_nibble (mac_byte5 m), lo_nibble (mac_byte5 m),
     0xF, 0xF, 0xF, 0xF, 0xF, 0xF, 0xF, 0xF, 0xF, 0xF, 0xF, 0xF]"

definition sel_autoconfig :: "autoconfig \<Rightarrow> cpu_bus \<Rightarrow> bool" where
  "sel_autoconfig a b \<longleftrightarrow> \<not> card_shutup a \<and> (ucast (drop_bit 16 (cpu_addr b)) :: u8) = 0xE8 \<and> \<not> cpu_as_n b"

definition nibble_idx :: "cpu_bus \<Rightarrow> nat" where
  "nibble_idx b = unat (ucast (drop_bit 1 (cpu_addr b)) :: 5 word)"

fun autoconfig_clk :: "bool \<times> mac_in \<times> cpu_bus \<Rightarrow> autoconfig \<Rightarrow> autoconfig" where
  "autoconfig_clk (rstn, m, b) a0 =
    (if \<not> rstn then a0\<lparr>card_base := 0, card_configured := False, card_shutup := False, ac_dtack_n := True, ac_data_out := 0xFFFF\<rparr>
     else
       (let a = a0\<lparr>ac_dtack_n := True, ac_data_out := 0xFFFF\<rparr>; low = (ucast (cpu_addr b) :: u8)
        in if sel_autoconfig a0 b then
             (if cpu_rw b then
                a\<lparr>ac_data_out := push_bit 12 (ucast (NOT (rom m ! nibble_idx b))) OR 0xFFF, ac_dtack_n := False\<rparr>
              else if low = 0x48 then a\<lparr>card_base := ucast (drop_bit 8 (cpu_data_in b)), card_configured := True, ac_dtack_n := False\<rparr>
              else if low = 0x4A then a\<lparr>ac_dtack_n := False\<rparr>
              else if low = 0x4C then a\<lparr>card_shutup := True, ac_dtack_n := False\<rparr>
              else a\<lparr>ac_dtack_n := False\<rparr>)
           else a))"

section \<open>Bus cycles of the configuration\<close>

definition conf_cycle :: "u16 \<Rightarrow> bool \<Rightarrow> u16 \<Rightarrow> cpu_bus" where
  "conf_cycle off rd v = \<lparr>cpu_addr = push_bit 16 (ucast (0xE8 :: u8)) OR ucast off, cpu_rw = rd, cpu_as_n = False, cpu_ds_n = False, cpu_data_in = v\<rparr>"

lemma conf_cycle_fields [simp]:
  "cpu_rw (conf_cycle off rd v) = rd" "cpu_data_in (conf_cycle off rd v) = v" "\<not> cpu_as_n (conf_cycle off rd v)"
  "(ucast (drop_bit 16 (cpu_addr (conf_cycle off rd v))) :: u8) = 0xE8"
  "(ucast (cpu_addr (conf_cycle off rd v)) :: u8) = ucast off"
  "(ucast (drop_bit 1 (cpu_addr (conf_cycle off rd v))) :: 5 word) = ucast (drop_bit 1 off)"
  unfolding conf_cycle_def cpu_bus.simps paged_addr by simp_all

lemma sel_conf_cycle [simp]: "sel_autoconfig a (conf_cycle off rd v) = (\<not> card_shutup a)"
  by (simp add: sel_autoconfig_def)

text \<open>What a driver sees at nibble \<open>i\<close>: bits 15 to 12 of the word, inverted back.\<close>

definition conf_nibble :: "mac_in \<Rightarrow> autoconfig \<Rightarrow> nat \<Rightarrow> nibble" where
  "conf_nibble m a i = NOT (ucast (drop_bit 12 (ac_data_out (autoconfig_clk (True, m, conf_cycle (of_nat (2 * i)) True 0) a))))"

definition conf_byte :: "mac_in \<Rightarrow> autoconfig \<Rightarrow> nat \<Rightarrow> u8" where
  "conf_byte m a i = push_bit 4 (ucast (conf_nibble m a (2 * i))) OR ucast (conf_nibble m a (2 * i + 1))"

lemma data_nibble: "NOT (ucast (drop_bit 12 (push_bit 12 (ucast (NOT x)) OR 0xFFF :: u16)) :: nibble) = x" for x :: nibble
proof -
  have "(ucast (drop_bit 12 (push_bit 12 (ucast y) OR 0xFFF :: u16)) :: nibble) = y" for y :: nibble
  proof -
    have m: "(0xFFF :: u16) = mask 12" by (simp add: mask_eq_exp_minus_1)
    show ?thesis unfolding m by (rule bit_word_eqI) (auto simp: bit_simps dest: bit_imp_le_length)
  qed
  then show ?thesis by simp
qed

lemma conf_nibble_rom:
  assumes "\<not> card_shutup a" "i < 32"
  shows "conf_nibble m a i = rom m ! i"
proof -
  have "unat (ucast (drop_bit 1 (of_nat (2 * i) :: u16)) :: 5 word) = i"
    using assms(2) by (simp add: unsigned_ucast_eq unat_div_distrib unsigned_of_nat take_bit_eq_mod drop_bit_eq_div del: of_nat_mult)
  then have "nibble_idx (conf_cycle (of_nat (2 * i)) True 0) = i"
    unfolding nibble_idx_def conf_cycle_fields .
  then show ?thesis
    using assms(1) data_nibble [of "rom m ! i"] by (simp add: conf_nibble_def Let_def)
qed

lemma byte_nibbles: "push_bit 4 (ucast (hi_nibble x)) OR ucast (lo_nibble x) = x" for x :: u8
  by (rule bit_word_eqI) (auto simp: bit_simps dest: bit_imp_le_length)

section \<open>The identity\<close>

lemma identity_bytes:
  assumes "\<not> card_shutup a"
  shows "map (conf_byte m a) [0..<16] =
    [0xC1, 0x70, 0x00, 0xFF, 0x02, 0x02, mac_byte2 m, mac_byte3 m, mac_byte4 m, mac_byte5 m, 0xFF, 0xFF, 0xFF, 0xFF, 0xFF, 0xFF]"
proof -
  have "conf_byte m a i = push_bit 4 (ucast (rom m ! (2 * i))) OR ucast (rom m ! (2 * i + 1))" if "i < 16" for i
    using that conf_nibble_rom [OF assms] by (simp add: conf_byte_def)
  then have "map (conf_byte m a) [0..<16] = map (\<lambda>i. push_bit 4 (ucast (rom m ! (2 * i))) OR ucast (rom m ! (2 * i + 1))) [0..<16]"
    by simp
  also have "\<dots> = [0xC1, 0x70, 0x00, 0xFF, 0x02, 0x02, mac_byte2 m, mac_byte3 m, mac_byte4 m, mac_byte5 m, 0xFF, 0xFF, 0xFF, 0xFF, 0xFF, 0xFF]"
    using byte_nibbles by (simp add: upt_rec rom_def)
  finally show ?thesis .
qed

text \<open>Reading the thirty-two nibbles of a card that has not been shut up gives type \<^verbatim>\<open>0xC1\<close>, product \<^verbatim>\<open>0x70\<close>, manufacturer
  \<^verbatim>\<open>0x0202\<close> and the four MAC bytes as serial number. The reserved byte 3 and the bytes 10 to 15 read as \<^verbatim>\<open>0xFF\<close>.\<close>

theorem autoconfig_identity:
  assumes "\<not> card_shutup a"
  shows "map (conf_byte m a) [0..<16] =
    [0xC1, 0x70, 0x00, 0xFF, 0x02, 0x02, mac_byte2 m, mac_byte3 m, mac_byte4 m, mac_byte5 m, 0xFF, 0xFF, 0xFF, 0xFF, 0xFF, 0xFF]"
  using assms by (rule identity_bytes)

section \<open>Configuration\<close>

text \<open>Once shut up the card keeps its address and never answers again, short of a reset.\<close>

interpretation silent: clocked autoconfig_clk fst "\<lambda>a. card_shutup a \<and> card_base a = base \<and> card_configured a = conf" for base conf
  by unfold_locales (auto simp: sel_autoconfig_def)

text \<open>The configuration that AmigaOS performs: after it has written the address and then the shut-up register the card has
  the page of the high data byte, its registers are decoded there, and whatever follows short of a reset it drives
  nothing in the configuration space and stays where it is.\<close>

theorem autoconfig_sequence:
  assumes "\<not> card_shutup a" "list_all fst ins" "ins \<noteq> []"
    and z: "z = fold autoconfig_clk ((True, m, conf_cycle 0x48 False v) # (True, m', conf_cycle 0x4C False v') # ins) a"
  shows "card_configured z \<and> card_base z = ucast (drop_bit 8 v) \<and> card_shutup z \<and> ac_dtack_n z \<and> ac_data_out z = 0xFFFF"
proof -
  define y where "y = autoconfig_clk (True, m', conf_cycle 0x4C False v') (autoconfig_clk (True, m, conf_cycle 0x48 False v) a)"
  have y: "card_shutup y \<and> card_base y = ucast (drop_bit 8 v) \<and> card_configured y = True"
    using assms(1) by (simp add: y_def Let_def)
  obtain i js where js: "ins = js @ [i]" using assms(3) by (cases ins rule: rev_cases) auto
  let ?w = "fold autoconfig_clk js y"
  have w: "card_shutup ?w \<and> card_base ?w = ucast (drop_bit 8 v) \<and> card_configured ?w = True"
    using assms(2) by (intro silent.run_ok [OF _ y]) (simp add: js)
  have "z = autoconfig_clk i ?w" by (simp add: z y_def js del: autoconfig_clk.simps)
  moreover have "fst i" using assms(2) by (simp add: js)
  ultimately show ?thesis using w by (cases i) (simp add: Let_def sel_autoconfig_def)
qed

section \<open>Witnesses\<close>

definition autoconfig_rst :: autoconfig where
  "autoconfig_rst = \<lparr>card_base = 0, card_configured = False, card_shutup = False, ac_data_out = 0xFFFF, ac_dtack_n = True\<rparr>"

theorem autoconfig_identity_witness:
  "map (conf_byte \<lparr>mac_byte2 = 0x42, mac_byte3 = 0xAB, mac_byte4 = 0xCD, mac_byte5 = 0xEF\<rparr> autoconfig_rst) [0..<16] =
     [0xC1, 0x70, 0x00, 0xFF, 0x02, 0x02, 0x42, 0xAB, 0xCD, 0xEF, 0xFF, 0xFF, 0xFF, 0xFF, 0xFF, 0xFF]"
  by (subst autoconfig_identity) (simp_all add: autoconfig_rst_def)

theorem autoconfig_sequence_witness:
  "let m = \<lparr>mac_byte2 = 0, mac_byte3 = 0, mac_byte4 = 0, mac_byte5 = 0\<rparr>;
       z = fold autoconfig_clk [(True, m, conf_cycle 0x48 False 0xE900), (True, m, conf_cycle 0x4C False 0), (True, m, conf_cycle 0 True 0)] autoconfig_rst
   in card_base z = 0xE9 \<and> ac_data_out z = 0xFFFF"
  using autoconfig_sequence [of autoconfig_rst "[(True, \<lparr>mac_byte2 = 0, mac_byte3 = 0, mac_byte4 = 0, mac_byte5 = 0\<rparr>, conf_cycle 0 True 0)]",
      OF _ _ _ refl, of "\<lparr>mac_byte2 = 0, mac_byte3 = 0, mac_byte4 = 0, mac_byte5 = 0\<rparr>" "0xE900" "\<lparr>mac_byte2 = 0, mac_byte3 = 0, mac_byte4 = 0, mac_byte5 = 0\<rparr>" 0]
  by (simp add: Let_def autoconfig_rst_def del: autoconfig_clk.simps)

end
