(* ===== verification/Card_Doorbell.thy ===== *)
theory Card_Doorbell
  imports Doorbell Fpga_Regfile Fpga_Autoconfig
begin

text \<open>
  The doorbell card as a whole: \<^verbatim>\<open>a2065_regfile.v\<close> on the 68k bus and \<^verbatim>\<open>main_doorbell.cpp\<close> behind the slots of
  \<^verbatim>\<open>a2065_ddr3_flat.h\<close>. The DDR3 port of the FPGA that carries the doorbell into the command slot and the register slot
  back to the module is not in the repository; what it is to do is the layout of that header, and here it is the
  two functions \<open>doorbell_word\<close> and \<open>csr_lanes\<close>. When it does so is left open: a theorem says what holds once the word
  has arrived.
\<close>

unbundle bit_operations_syntax

definition doorbell_word :: "regfile \<Rightarrow> u64" where
  "doorbell_word r = (if cmd_pending r then cmd_word (ucast (cmd_rap r)) (cmd_data r) else 0)"

definition csr_lanes :: "'a window_scheme \<Rightarrow> nat \<Rightarrow> u16" where
  "csr_lanes s n = ucast (drop_bit (16 * n) (rd64 s DDR3_CSR_OFF))"

lemma csr_lanes_inv: "db_inv s \<Longrightarrow> n < 4 \<Longrightarrow> csr_lanes s n = csr s n"
  by (simp add: csr_lanes_def db_inv_def csr_packed_lanes)

lemma rap_ucast_less: "(ucast k :: u8) < RAP_SIZE" for k :: u7
  using unsigned_less [of k, where 'a = nat] by (simp add: word_less_nat_alt unsigned_ucast_eq take_bit_nat_eq_self)

lemma rap_ucast_unat: "unat (ucast k :: u8) = unat k" for k :: u7
  using unsigned_less [of k, where 'a = nat] by (simp add: unsigned_ucast_eq take_bit_nat_eq_self)

text \<open>Once the doorbell word is in the slot, a turn of the daemon is the register write that rang.\<close>

lemma doorbell_served:
  assumes "db_inv s" "cmd_pending r" "rd64 s DDR3_CMD_OFF = doorbell_word r" "poll_step tmp0 s = Some t"
  shows "\<exists>u. chip_wput (Some on_interrupt_cb) (Some (on_transmit_cb tmp0)) A2065_RDP_OFF (cmd_data r)
      (s\<lparr>idle := 0, dbg_cnt := dbg_cnt s + 1, rap := ucast (cmd_rap r)\<rparr>) = Some u \<and>
    same_chip t u \<and> db_inv t \<and> rd64 t DDR3_CMD_OFF = 0"
proof -
  have w: "rd64 s DDR3_CMD_OFF = cmd_word (ucast (cmd_rap r)) (cmd_data r)"
    using assms(2,3) by (simp add: doorbell_word_def)
  note d = conjunct1 [OF cmd_apply_decodes [OF rap_ucast_less]] conjunct2 [OF cmd_apply_decodes [OF rap_ucast_less]]
  have "\<exists>u. cmd_apply tmp0 (rd64 s DDR3_CMD_OFF) (s\<lparr>idle := 0, dbg_cnt := dbg_cnt s + 1\<rparr>) = Some u \<and>
      same_chip t u \<and> db_inv t \<and> rd64 t DDR3_CMD_OFF = 0"
    using assms(1,4) by (intro poll_step_applies) (simp_all add: db_inv_def w d(1))
  then show ?thesis by (simp add: w d(2))
qed


text \<open>C7: What the 68k reads from the data port when the module shows the published registers, against what the chip of the
  daemon answers for the same register: CSR1 to CSR3 and CSR89 are the same, CSR0 lacks the error summary, CSR88
  is another constant, and every other register reads as zero.\<close>

theorem card_read_chip:
  assumes "card_configured c" "db_inv s" "csr_in i = csr_lanes s" "no_cycle c i"
  shows "rf_data_out c (port_cycle c False True x) (regfile_clk c i r) =
    (let k = unat (rf_rap r); w = chip_wget A2065_RDP_OFF (s\<lparr>rap := ucast (rf_rap r)\<rparr>)
     in if k = 0 then w AND NOT CSR0_ERR else if k < 4 \<or> k = 89 then w else if k = 88 then 0x0001 else 0)"
proof -
  define k where "k = rf_rap r"
  have sh: "csr_shadow (regfile_clk c i r) n = csr s n" if "n < 4" for n
    using that csr_lanes_inv [OF assms(2)] by (simp add: regfile_clk_def assms(3))
  have err: "\<not> bit (csr s 0) 15"
    using assms(2) by (simp add: db_inv_def chip_inv_def chip_busy_def csr0_ok_def flag_bits)
  have k: "k = 0 \<longleftrightarrow> unat k = 0" "k = 88 \<longleftrightarrow> unat k = 88" "k = 89 \<longleftrightarrow> unat k = 89" "k < 4 \<longleftrightarrow> unat k < 4"
    by (simp_all add: word_unat_eq_iff word_less_nat_alt)
  have u: "(ucast k :: u8) = 0 \<longleftrightarrow> unat k = 0" "(ucast k :: u8) = 88 \<longleftrightarrow> unat k = 88" "(ucast k :: u8) = 89 \<longleftrightarrow> unat k = 89"
    "\<not> RAP_SIZE \<le> (ucast k :: u8)"
    using rap_ucast_less [of k] by (simp_all add: word_unat_eq_iff rap_ucast_unat not_le)
  have "csr s 0 AND NOT CSR0_ERR = csr s 0" "(csr s 0 OR CSR0_ERR) AND NOT CSR0_ERR = csr s 0"
    using err by (auto simp: flag_bits)
  then show ?thesis
    using assms(1,4) by (simp add: rf_data_out_def chip_id_out_def chip_wget_def Let_def k_def [symmetric] k u rap_ucast_unat sh)
qed

text \<open>STRT alone, on a stopped chip.\<close>

lemma csr0_write_strt_only:
  assumes "csr s 0 = CSR0_STOP"
  shows "csr0_write oi ot CSR0_STRT s = Some (set_csr 0 (enabled (am_mode s) CSR0_STRT) s)"
proof -
  define e where "e = enabled (am_mode s) CSR0_STRT"
  have e: "\<not> has e CSR0_INIT" "\<not> has e CSR0_TDMD" "\<not> has e CSR0_INEA" "intr_of e = e"
    by (auto simp: e_def enabled_def has_def intr_of_def)
  have m: "csr0_merge CSR0_STOP CSR0_STRT = CSR0_STOP OR CSR0_STRT" by (simp add: csr0_merge_def)
  have "csr0_transition (csr s 0) (set_csr 0 (csr0_merge (csr s 0) CSR0_STRT) s) = set_csr 0 e s"
    using e(1) unfolding assms m
    by (simp add: csr0_transition_def Let_def has_def [of CSR0_STOP] has_def [of 6] rings_enable_eq registers_csr0_clr_def flip: e_def)
  then have "csr0_write oi ot CSR0_STRT s = Some (rethink oi (set_csr 0 e s))"
    using e(2) by (intro csr0_write_no_demand) simp_all
  then show ?thesis using e(3,4) by (simp add: rethink_no_INEA flip: e_def)
qed

text \<open>C38: No access of the 68k waits, so a second write to the data port replaces a command that has not been taken. A
  driver that writes INIT and then STRT to a stopped chip has started it without initialising it: the chip is on,
  and the initialisation block has not been read.\<close>

theorem card_init_overwritten:
  assumes "card_configured c" "db_inv s" "csr s 0 = CSR0_STOP" "rf_rap r = 0"
    and sent: "rd64 s DDR3_CMD_OFF = doorbell_word (regfile_clk c (write_clk c CSR0_STRT vs') (regfile_clk c (write_clk c CSR0_INIT vs) r))"
    and served: "poll_step tmp0 s = Some t"
  shows "has (csr t 0) CSR0_STRT \<and> \<not> has (csr t 0) CSR0_STOP \<and> \<not> has (csr t 0) CSR0_IDON \<and> am_initialized t = am_initialized s \<and>
    am_rdr_rdra t = am_rdr_rdra s \<and> am_tdr_tdra t = am_tdr_tdra s"
proof -
  let ?s = "s\<lparr>idle := 0, dbg_cnt := dbg_cnt s + 1, rap := 0\<rparr>"
  obtain u where u: "chip_wput (Some on_interrupt_cb) (Some (on_transmit_cb tmp0)) A2065_RDP_OFF CSR0_STRT ?s = Some u" "same_chip t u"
    using doorbell_served [OF assms(2) _ sent served] assms(1,4) by auto
  have "u = set_csr 0 (enabled (am_mode s) CSR0_STRT) ?s"
    using u(1) assms(3) csr0_write_strt_only [of ?s "Some on_interrupt_cb" "Some (on_transmit_cb tmp0)"] by (simp add: chip_wput_def)
  then show ?thesis
    using u(2) by (auto simp: same_chip_def enabled_def has_def)
qed

section \<open>The address of the card\<close>

text \<open>The address slot as the inputs of the configuration ROM.\<close>

definition mac_lanes :: "'a window_scheme \<Rightarrow> mac_in" where
  "mac_lanes s = (let b = (\<lambda>k. ucast (drop_bit k (rd64 s DDR3_MAC_OFF)))
     in \<lparr>mac_byte2 = b 32, mac_byte3 = b 40, mac_byte4 = b 48, mac_byte5 = b 56\<rparr>)"

text \<open>After start-up a driver that reads the serial number of the card during configuration finds the last four bytes of the
  address the daemon chose.\<close>

theorem card_serial_number:
  assumes "config_ok s" "length (host_mac s) = 6" "\<not> card_shutup a"
    and "\<And>x. env_hwaddr nic = Some x \<Longrightarrow> length x = 6" "\<And>x. eth0_hwaddr env = Some x \<Longrightarrow> length x = 6"
  shows "map (conf_byte (mac_lanes (daemon_start nic env s)) a) [6..<10] = drop 2 (fakemac (daemon_start nic env s))"
proof -
  let ?t = "daemon_start nic env s"
  have "map (\<lambda>k. ucast (drop_bit k (rd64 ?t DDR3_MAC_OFF)) :: u8) [32, 40, 48, 56] = drop 2 (fakemac ?t)"
    using daemon_start_facts [OF assms(1,2), of nic env] assms(4,5) by blast
  moreover have "map (conf_byte m a) [6..<10] = [mac_byte2 m, mac_byte3 m, mac_byte4 m, mac_byte5 m]" for m
  proof -
    have "map (conf_byte m a) [6..<10] = take 4 (drop 6 (map (conf_byte m a) [0..<16]))"
      by (simp add: take_map drop_map)
    then show ?thesis by (simp add: identity_bytes [OF assms(3)])
  qed
  ultimately show ?thesis by (simp add: mac_lanes_def Let_def)
qed

section \<open>Witnesses\<close>

text \<open>The started daemon with a command in its slot.\<close>

definition rung :: "u7 \<Rightarrow> u16 \<Rightarrow> doorbell" where
  "rung k v = wr64 booted DDR3_CMD_OFF (cmd_word (ucast k) v)"

lemma rung_facts: "db_inv (rung k v)" "rd64 (rung k v) DDR3_CMD_OFF = cmd_word (ucast k) v" "csr (rung k v) 0 = CSR0_STOP"
  using booted_facts(1,2) wr64_inv [of booted DDR3_CMD_OFF "cmd_word (ucast k) v"]
    csr_packed_cong [of "wr64 booted DDR3_CMD_OFF (cmd_word (ucast k) v)" booted]
  by (simp_all add: rung_def db_inv_def)

lemma rung_sent:
  "rf_rap r = k \<Longrightarrow> rd64 (rung k v) DDR3_CMD_OFF = doorbell_word (regfile_clk card_e9 (write_clk card_e9 v vs) r)"
  by (simp add: rung_facts doorbell_word_def)

lemma rung_strt_step: "\<exists>t. poll_step tmp0 (rung 0 CSR0_STRT) = Some t"
proof -
  let ?s = "rung 0 CSR0_STRT"
  have c: "rd64 ?s DDR3_CMD_OFF = 0x201" by (simp add: rung_facts cmd_word_def)
  have f: "dbg_cnt ?s = 0" "poll_cnt ?s = 0" "rap ?s = 0" using booted_fields by (simp_all add: rung_def)
  have "csr0_write oi ot CSR0_STRT (?s\<lparr>idle := 0, dbg_cnt := 1, rap := 0\<rparr>) =
      Some (set_csr 0 (enabled (am_mode ?s) CSR0_STRT) (?s\<lparr>idle := 0, dbg_cnt := 1, rap := 0\<rparr>))" for oi ot
    by (subst csr0_write_strt_only) (simp_all add: rung_facts)
  then show ?thesis
    using f by (simp add: poll_step_def Let_def c has_def int_incr_def cmd_apply_def chip_wput_def
        update_int_state_def push_csr_shadow_def set_csr_def)
qed

theorem card_init_overwritten_witness:
  "\<exists>t. poll_step [] (rung 0 CSR0_STRT) = Some t \<and> has (csr t 0) CSR0_STRT \<and> \<not> has (csr t 0) CSR0_IDON"
proof -
  obtain t where t: "poll_step [] (rung 0 CSR0_STRT) = Some t" using rung_strt_step by blast
  have r: "rf_rap regfile_init = 0" by (simp add: regfile_init_def)
  show ?thesis
    using card_init_overwritten [OF card_e9_configured rung_facts(1,3) r _ t, of "\<lambda>_. 0" "\<lambda>_. 0"] t
    by (simp add: rung_sent r)
qed


theorem card_read_chip_witness:
  "rf_data_out card_e9 (port_cycle card_e9 False True 0) (regfile_clk card_e9 (idle_clk False (csr_lanes booted)) regfile_init) = CSR0_STOP"
proof -
  have "rf_rap regfile_init = 0" by (simp add: regfile_init_def)
  then show ?thesis
    using card_read_chip [OF card_e9_configured booted_facts(1) idle_clk_fields(2,1)] booted_facts(2)
    by (simp add: chip_wget_def has_def Let_def)
qed

theorem card_serial_number_witness:
  "map (conf_byte (mac_lanes (daemon_start sample_nic sample_boot doorbell_init)) autoconfig_rst) [6..<10] =
     drop 2 (fakemac (daemon_start sample_nic sample_boot doorbell_init))"
  by (rule card_serial_number [OF doorbell_init_ok]) (auto simp: sample_nic_def sample_boot_def autoconfig_rst_def)

end
