(* ===== verification/Fpga_Registers.thy ===== *)
theory Fpga_Registers
  imports Fpga_Bus Registers
begin

text \<open>
  \<^verbatim>\<open>src/fpga/rtl/a2065_registers.v\<close>: the chip registers on the side of the 68k bus. With \<^verbatim>\<open>BRIDGE_LOCAL = 0\<close> an
  access holds the bus until the ARM has answered through the bridge or a watchdog ends it with a bus error
  (\<open>bridge_clk\<close>); with \<^verbatim>\<open>BRIDGE_LOCAL = 1\<close>, the default, a small register file answers by itself (\<open>local_clk\<close>).
  The two generate branches are two machines here. An input of the first is the bus, \<^verbatim>\<open>bridge_done\<close> and
  \<^verbatim>\<open>bridge_result\<close>. \<^verbatim>\<open>WATCHDOG_CYCLES\<close> is an argument; the source uses its low twenty bits.
\<close>

unbundle bit_operations_syntax

section \<open>The bridge machine\<close>

datatype fsm_state = ST_IDLE | ST_WAIT_ARM | ST_RELEASE | ST_BERR

record reg_bridge =
  state :: fsm_state
  watchdog :: "20 word"
  cpu_data_out :: u16
  cpu_dtack_n :: bool
  cpu_berr_n :: bool
  bridge_data :: u16
  bridge_addr_off :: u8
  bridge_rw :: bool
  bridge_new_req :: bool
  bridge_done_clr :: bool

type_synonym bridge_in = "cpu_bus \<times> bool \<times> u16"

definition bridge_rst :: reg_bridge where
  "bridge_rst = \<lparr>state = ST_IDLE, watchdog = 0, cpu_data_out = 0, cpu_dtack_n = True, cpu_berr_n = True,
     bridge_data = 0, bridge_addr_off = 0, bridge_rw = False, bridge_new_req = False, bridge_done_clr = False\<rparr>"

fun bridge_clk :: "nat \<Rightarrow> card_cfg \<Rightarrow> bridge_in \<Rightarrow> reg_bridge \<Rightarrow> reg_bridge" where
  "bridge_clk cycles c (b, done, res) r =
    (let r = r\<lparr>bridge_done_clr := False\<rparr> in
     case state r of
       ST_IDLE \<Rightarrow>
         (let r = r\<lparr>cpu_dtack_n := True, cpu_berr_n := True, cpu_data_out := 0\<rparr>
          in if sel_chipreg c b
             then r\<lparr>bridge_data := cpu_data_in b, bridge_addr_off := ucast (ucast (cpu_addr b) :: 2 word),
                    bridge_rw := \<not> cpu_rw b, bridge_new_req := True, watchdog := 0, state := ST_WAIT_ARM\<rparr>
             else r)
     | ST_WAIT_ARM \<Rightarrow>
         (let w = watchdog r;
              r = r\<lparr>bridge_new_req := True, watchdog := w + 1\<rparr>
          in if done
             then r\<lparr>bridge_done_clr := True, bridge_new_req := False, cpu_data_out := res, state := ST_RELEASE\<rparr>
             else if w \<ge> of_nat cycles then r\<lparr>bridge_new_req := False, state := ST_BERR\<rparr>
             else r)
     | ST_RELEASE \<Rightarrow>
         (if cpu_as_n b then r\<lparr>cpu_dtack_n := True, state := ST_IDLE\<rparr> else r\<lparr>cpu_dtack_n := False\<rparr>)
     | ST_BERR \<Rightarrow>
         (if cpu_as_n b then r\<lparr>cpu_berr_n := True, state := ST_IDLE\<rparr> else r\<lparr>cpu_berr_n := False\<rparr>))"

definition regs_nrdy :: "card_cfg \<Rightarrow> cpu_bus \<Rightarrow> reg_bridge \<Rightarrow> bool" where
  "regs_nrdy c b r \<longleftrightarrow> sel_chipreg c b \<or> state r \<noteq> ST_IDLE"

section \<open>The local machine\<close>

record reg_local =
  lcsr :: "nat \<Rightarrow> u16"
  lrap :: u7
  local_out :: u16
  local_out_en :: bool

definition local_rst :: "reg_local \<Rightarrow> reg_local" where
  "local_rst r = r\<lparr>lrap := 0, local_out_en := False, local_out := 0, lcsr := (lcsr r)(0 := 0x0004, 4 := 0x0115)\<rparr>"

text \<open>The case \<^verbatim>\<open>7'd0\<close>: five blocking assignments, then a test on their result.\<close>

definition local_csr0_put :: "u16 \<Rightarrow> u16 \<Rightarrow> u16" where
  "local_csr0_put c0 d =
    (let c = c0 AND NOT 0x0040;
         c = c OR (d AND 0x0040);
         c = c OR (d AND (0x0001 OR 0x0002 OR 0x0004 OR 0x0008));
         c = c AND NOT (d AND (0x0100 OR 0x0200 OR 0x0400 OR 0x0800 OR 0x1000 OR 0x2000 OR 0x4000));
         c = c AND NOT 0x8000
     in if has d 0x0004 \<and> has (NOT c) 0x0004 then 0x0004 else c)"

definition local_put :: "u16 \<Rightarrow> reg_local \<Rightarrow> reg_local" where
  "local_put d r =
    (let c = lcsr r; n = unat (lrap r)
     in if n = 0 then r\<lparr>lcsr := c(0 := local_csr0_put (c 0) d)\<rparr>
        else if n = 1 then (if has (c 0) 0x0004 then r\<lparr>lcsr := c(1 := d AND NOT 0x0001)\<rparr> else r)
        else if n = 2 then (if has (c 0) 0x0004 then r\<lparr>lcsr := c(2 := d AND 0x00FF)\<rparr> else r)
        else if n = 3 then (if has (c 0) 0x0004 then r\<lparr>lcsr := c(3 := d AND 0x0007)\<rparr> else r)
        else r\<lparr>lcsr := c(n := d)\<rparr>)"

definition local_get :: "reg_local \<Rightarrow> u16" where
  "local_get r =
    (let c = lcsr r; n = unat (lrap r)
     in if n = 0 then (if has (c 0) (0x4000 OR 0x2000 OR 0x1000 OR 0x0800) then c 0 OR 0x8000 else c 0)
        else if n = 88 then 0x0001
        else if n = 89 then 0x3003
        else c n)"

definition local_clk :: "card_cfg \<Rightarrow> cpu_bus \<Rightarrow> reg_local \<Rightarrow> reg_local" where
  "local_clk c b r0 =
    (let r = r0\<lparr>local_out_en := False\<rparr>
     in if sel_chipreg c b then
          (if (ucast (cpu_addr b) :: 2 word) = 2 then r\<lparr>lrap := ucast (cpu_data_in b)\<rparr>
           else if cpu_rw b then local_put (cpu_data_in b) r
           else r\<lparr>local_out_en := True, local_out := local_get r\<rparr>)
        else r)"

definition local_data_out :: "reg_local \<Rightarrow> u16" where
  "local_data_out r = (if local_out_en r then local_out r else 0)"

section \<open>The outputs of the bridge machine\<close>

text \<open>The request line is up exactly while the machine waits, DTACK and BERR belong to the two final states, and
  the watchdog has not passed its bound.\<close>

definition bridge_ok :: "nat \<Rightarrow> reg_bridge \<Rightarrow> bool" where
  "bridge_ok cycles r \<longleftrightarrow>
     (bridge_new_req r \<longleftrightarrow> state r = ST_WAIT_ARM) \<and>
     (\<not> cpu_dtack_n r \<longrightarrow> state r = ST_RELEASE) \<and> (\<not> cpu_berr_n r \<longrightarrow> state r = ST_BERR) \<and>
     (bridge_done_clr r \<longrightarrow> state r = ST_RELEASE) \<and>
     (state r = ST_WAIT_ARM \<longrightarrow> unat (watchdog r) \<le> cycles)"

lemma watchdog_next:
  fixes w :: "20 word"
  assumes "\<not> of_nat cycles \<le> w" "cycles < 2 ^ 20"
  shows "unat (w + 1) \<le> cycles"
proof -
  have "unat w < cycles"
    using assms by (simp add: not_le word_less_nat_alt unsigned_of_nat take_bit_nat_eq_self)
  with assms(2) show ?thesis by (simp add: unat_word_ariths)
qed

interpretation brg: clocked "bridge_clk cycles c" "\<lambda>_. cycles < 2 ^ 20" "bridge_ok cycles" for cycles c
proof unfold_locales
  fix i r
  assume "cycles < 2 ^ 20" "bridge_ok cycles r"
  then show "bridge_ok cycles (bridge_clk cycles c i r)"
    by (cases i) (auto simp: bridge_ok_def Let_def watchdog_next split: fsm_state.splits if_splits)
qed

lemma bridge_rst_ok: "bridge_ok cycles bridge_rst"
  by (simp add: bridge_ok_def bridge_rst_def)

section \<open>One access\<close>

lemma release_run:
  assumes "\<not> cpu_as_n b" "state r = ST_RELEASE" "ans \<noteq> []"
  shows "fold (bridge_clk cycles c) (map (Pair b) ans) r = r\<lparr>bridge_done_clr := False, cpu_dtack_n := False\<rparr>"
  using assms(2,3)
proof (induction ans arbitrary: r)
  case (Cons a ans)
  obtain d v where a: "a = (d, v)" by force
  show ?case
    using Cons assms(1) by (cases "ans = []") (simp_all add: a Let_def)
qed simp

lemma berr_run:
  assumes "\<not> cpu_as_n b" "state r = ST_BERR" "ans \<noteq> []"
  shows "fold (bridge_clk cycles c) (map (Pair b) ans) r = r\<lparr>bridge_done_clr := False, cpu_berr_n := False\<rparr>"
  using assms(2,3)
proof (induction ans arbitrary: r)
  case (Cons a ans)
  obtain d v where a: "a = (d, v)" by force
  show ?case
    using Cons assms(1) by (cases "ans = []") (simp_all add: a Let_def)
qed simp

text \<open>How an access ended: with the answer on the data lines, or with a bus error.\<close>

definition ended :: "(bool \<times> u16) option \<Rightarrow> reg_bridge \<Rightarrow> bool" where
  "ended answer r \<longleftrightarrow>
    (case answer of
       Some (_, v) \<Rightarrow> state r = ST_RELEASE \<and> \<not> cpu_dtack_n r \<and> cpu_berr_n r \<and> cpu_data_out r = v
     | None \<Rightarrow> state r = ST_BERR \<and> cpu_dtack_n r \<and> \<not> cpu_berr_n r)"

lemma wait_run:
  assumes "\<not> cpu_as_n b" "cycles < 2 ^ 20"
  shows "state r = ST_WAIT_ARM \<Longrightarrow> cpu_dtack_n r \<Longrightarrow> cpu_berr_n r \<Longrightarrow> unat (watchdog r) + n = cycles \<Longrightarrow>
    n + 1 < length ans \<Longrightarrow>
    ended (find fst (take (n + 1) ans)) (fold (bridge_clk cycles c) (map (Pair b) ans) r)"
proof (induction n arbitrary: r ans)
  case 0
  then obtain d v ans' where ans: "ans = (d, v) # ans'" "ans' \<noteq> []" by (cases ans) auto
  have "of_nat cycles \<le> watchdog r" using 0(4) by auto
  with 0 show ?case
    by (cases d) (simp_all add: ans Let_def release_run berr_run assms(1) ended_def)
next
  case (Suc n)
  then obtain d v ans' where ans: "ans = (d, v) # ans'" "n + 1 < length ans'" by (cases ans) auto
  have w: "\<not> of_nat cycles \<le> watchdog r"
    using Suc.prems(4) assms(2) by (simp add: word_le_nat_alt unsigned_of_nat take_bit_nat_eq_self)
  have w1: "unat (watchdog r + 1) = unat (watchdog r) + 1"
    using Suc.prems(4) assms(2) by (simp add: unat_word_ariths)
  show ?case
  proof (cases d)
    case True
    with ans(2) have "ans' \<noteq> []" by auto
    then show ?thesis using Suc.prems True by (simp add: ans Let_def release_run assms(1) ended_def)
  next
    case False
    let ?r = "r\<lparr>bridge_done_clr := False, bridge_new_req := True, watchdog := watchdog r + 1\<rparr>"
    have "bridge_clk cycles c (b, d, v) r = ?r"
      using Suc.prems(1) False w by (simp add: Let_def)
    then show ?thesis
      using Suc.IH [of ?r ans'] Suc.prems ans(2) False w1 by (simp add: ans)
  qed
qed

text \<open>C13: An access that finds the machine idle ends after \<^verbatim>\<open>WATCHDOG_CYCLES\<close> and three more clocks, whatever the ARM does:
  with DTACK and the result that stood beside the first \<^verbatim>\<open>bridge_done\<close> while the machine waited, and with a bus
  error when there was none. While the bus is held it stays so; when the 68k takes the address strobe back
  the machine is idle again and drives neither line.\<close>

theorem bridge_access_ends:
  assumes "sel_chipreg c b" "state r = ST_IDLE" "cycles < 2 ^ 20" "cycles + 2 < length ans"
  shows "ended (find fst (take (cycles + 1) (tl ans))) (fold (bridge_clk cycles c) (map (Pair b) ans) r) \<and>
    (let q = bridge_clk cycles c (b\<lparr>cpu_as_n := True\<rparr>, x) (fold (bridge_clk cycles c) (map (Pair b) ans) r)
     in state q = ST_IDLE \<and> cpu_dtack_n q \<and> cpu_berr_n q)"
proof -
  obtain d v ans' where ans: "ans = (d, v) # ans'" "cycles + 1 < length ans'" using assms(4) by (cases ans) auto
  have as: "\<not> cpu_as_n b" using assms(1) by (simp add: sel_chipreg_def)
  have "state (bridge_clk cycles c (b, d, v) r) = ST_WAIT_ARM" "cpu_dtack_n (bridge_clk cycles c (b, d, v) r)"
    "cpu_berr_n (bridge_clk cycles c (b, d, v) r)" "watchdog (bridge_clk cycles c (b, d, v) r) = 0"
    using assms(1,2) by (simp_all add: Let_def)
  then have e: "ended (find fst (take (cycles + 1) (tl ans))) (fold (bridge_clk cycles c) (map (Pair b) ans) r)"
    using wait_run [OF as assms(3), of "bridge_clk cycles c (b, d, v) r" cycles ans' c] ans(2)
    by (simp add: ans(1) del: bridge_clk.simps)
  obtain xd xv where x: "x = (xd, xv)" by force
  from e show ?thesis
    by (auto simp: ended_def Let_def x split: option.splits prod.splits)
qed

text \<open>While the ARM is silent the machine waits with the access on its request lines.\<close>

definition waits :: "cpu_bus \<Rightarrow> nat \<Rightarrow> reg_bridge \<Rightarrow> bool" where
  "waits b k q \<longleftrightarrow> state q = ST_WAIT_ARM \<and> unat (watchdog q) = k \<and> cpu_dtack_n q \<and> cpu_berr_n q \<and> bridge_new_req q \<and>
    bridge_data q = cpu_data_in b \<and> bridge_addr_off q = ucast (ucast (cpu_addr b) :: 2 word) \<and> bridge_rw q = (\<not> cpu_rw b)"

lemma waits_step:
  assumes "waits b k q" "k < cycles" "cycles < 2 ^ 20"
  shows "waits b (Suc k) (bridge_clk cycles c (b, False, x) q)"
proof -
  have "\<not> of_nat cycles \<le> watchdog q" "unat (watchdog q + 1) = Suc k"
    using assms by (simp_all add: waits_def word_le_nat_alt unsigned_of_nat take_bit_nat_eq_self unat_word_ariths)
  then show ?thesis using assms(1) by (simp add: waits_def Let_def)
qed

lemma access_waits:
  assumes "sel_chipreg c b" "state r = ST_IDLE" "cycles < 2 ^ 20"
  shows "k \<le> cycles \<Longrightarrow> waits b k ((bridge_clk cycles c (b, False, x) ^^ Suc k) r)"
proof (induction k)
  case 0
  then show ?case using assms(1,2) by (simp add: waits_def Let_def)
next
  case (Suc k)
  then show ?case using waits_step [OF _ _ assms(3)] by (simp del: bridge_clk.simps)
qed

text \<open>The answer of the ARM while the machine waits, and the clock after it.\<close>

lemma answered_clk:
  assumes "\<not> cpu_as_n b" "state q = ST_WAIT_ARM" "cpu_berr_n q"
  shows "ended (Some (True, v)) (bridge_clk cycles c (b, d, w) (bridge_clk cycles c (b, True, v) q))"
  using assms by (simp add: Let_def ended_def)

text \<open>From reset on, under every sequence of inputs, DTACK and BERR are never driven together, and the request is up
  exactly while the machine waits for the ARM.\<close>

theorem bridge_lines:
  assumes "cycles < 2 ^ 20" and "r = fold (bridge_clk cycles c) ins bridge_rst"
  shows "(cpu_dtack_n r \<or> cpu_berr_n r) \<and> (bridge_new_req r \<longleftrightarrow> state r = ST_WAIT_ARM)"
  using brg.run_ok [of cycles ins bridge_rst c] assms bridge_rst_ok [of cycles]
  by (auto simp: bridge_ok_def list_all_iff)

text \<open>\<^verbatim>\<open>bridge_done\<close> carries no request: when it is still up from an answer that came after its access had ended in a
  bus error, the next access takes that old result at its first waiting clock, before the ARM can have seen it.\<close>

theorem bridge_stale_done:
  assumes "sel_chipreg c b" "state r = ST_IDLE"
  shows "ended (Some (True, stale)) (fold (bridge_clk cycles c) (replicate 3 (b, True, stale)) r)"
proof -
  have "\<not> cpu_as_n b" using assms(1) by (simp add: sel_chipreg_def)
  with assms show ?thesis by (simp add: numeral_eq_Suc Let_def ended_def)
qed

section \<open>The local machine\<close>

text \<open>The blocking assignments merge a write into CSR0 exactly as the daemon does.\<close>

lemma local_merge: "local_csr0_put c d = csr0_merge c d"
proof -
  have "local_csr0_put c d = (if has d 0x0004 \<and> has (NOT (csr0_merge c d)) 0x0004 then 0x0004 else csr0_merge c d)"
    by (simp add: local_csr0_put_def csr0_merge_def Let_def)
  moreover have "\<not> (has d 0x0004 \<and> has (NOT (csr0_merge c d)) 0x0004)"
    by (simp add: csr0_merge_def Let_def flag_bits)
  ultimately show ?thesis by simp
qed

text \<open>The sense of \<^verbatim>\<open>cpu_rw\<close> is the wrong way round in this machine: a read cycle on the data port stores whatever
  is on the data lines into the selected register and answers nothing, and a write cycle changes no register.\<close>

theorem local_direction_inverted:
  assumes "card_configured c"
  shows "local_clk c (port_cycle c False True v) r = local_put v (r\<lparr>local_out_en := False\<rparr>) \<and>
    local_data_out (local_clk c (port_cycle c False True v) r) = 0 \<and>
    lcsr (local_clk c (port_cycle c False False v) r) = lcsr r"
  using assms by (simp add: local_clk_def local_data_out_def local_put_def Let_def)

text \<open>The branch that should reset CSR0 on STOP is never taken: its condition is tested after STOP has been merged.
  STOP leaves the other bits of CSR0 as they were, where the chip of the daemon is left with STOP alone.\<close>

theorem local_stop_keeps:
  "local_csr0_put c0 CSR0_STOP = (c0 AND NOT (CSR0_ERR OR CSR0_INEA)) OR CSR0_STOP"
  unfolding local_merge by (simp add: csr0_merge_def Let_def flag_bits)

section \<open>Witnesses\<close>

text \<open>With the default watchdog and an ARM that never answers the bus error comes after 700003 clocks.\<close>

theorem bridge_access_ends_witness:
  "ended None (fold (bridge_clk 700000 card_e9) (map (Pair (port_cycle card_e9 False True 0)) (replicate 700003 (False, 0))) bridge_rst)"
proof -
  have "find fst (take (700000 + 1) (tl (replicate 700003 (False, 0 :: u16)))) = None"
    by (auto simp: find_None_iff dest: in_set_takeD)
  then show ?thesis
    using bridge_access_ends [of card_e9 "port_cycle card_e9 False True 0" bridge_rst 700000 "replicate 700003 (False, 0)"]
    by (simp add: bridge_rst_def)
qed

theorem bridge_lines_witness:
  "cpu_dtack_n (fold (bridge_clk 700000 card_e9) [(port_cycle card_e9 True False 3, False, 0)] bridge_rst) \<or>
   cpu_berr_n (fold (bridge_clk 700000 card_e9) [(port_cycle card_e9 True False 3, False, 0)] bridge_rst)"
  using bridge_lines [of 700000 _ card_e9 "[(port_cycle card_e9 True False 3, False, 0)]", OF _ refl] by (simp del: bridge_clk.simps)

theorem bridge_stale_done_witness:
  "ended (Some (True, 0xDEAD)) (fold (bridge_clk 200 card_e9) (replicate 3 (port_cycle card_e9 False True 0, True, 0xDEAD)) bridge_rst)"
  by (rule bridge_stale_done) (simp_all add: bridge_rst_def)

theorem local_direction_inverted_witness:
  "let r = local_rst \<lparr>lcsr = (\<lambda>_. 0), lrap = 0, local_out = 0, local_out_en = False\<rparr>
   in lcsr (local_clk card_e9 (port_cycle card_e9 False False CSR0_INIT) r) = lcsr r"
  using local_direction_inverted [of card_e9 CSR0_INIT] by (simp add: Let_def)

end
