(* ===== verification/Card_Bridge.thy ===== *)
theory Card_Bridge
  imports Bridge Fpga_Registers
begin

text \<open>
  The bridge card as a whole: the bridge machine of \<^verbatim>\<open>a2065_registers.v\<close> on the 68k bus and \<^verbatim>\<open>main.cpp\<close> behind the
  bridge window. The bus slave between them is not in the repository; what it shows is the layout that the comment
  of \<^verbatim>\<open>a2065_registers.v\<close> and \<^verbatim>\<open>a2065_bridge.h\<close> give: the request lines as bytes of the window (\<open>shows_request\<close>), DONE and RESULT
  as inputs of the machine (\<open>answer_of\<close>).
\<close>

unbundle bit_operations_syntax

definition shows_request :: "reg_bridge \<Rightarrow> 'a window_scheme \<Rightarrow> bool" where
  "shows_request r s \<longleftrightarrow>
     BRIDGE_READ16 s BRIDGE_REG_DATA = bridge_data r \<and> BRIDGE_READ8 s BRIDGE_REG_ADDR = bridge_addr_off r \<and>
     BRIDGE_READ8 s BRIDGE_REG_RW = (if bridge_rw r then 1 else 0) \<and>
     BRIDGE_READ8 s BRIDGE_REG_NEW_REQ = (if bridge_new_req r then 1 else 0)"

definition answer_of :: "'a window_scheme \<Rightarrow> bool \<times> u16" where
  "answer_of s = (BRIDGE_READ8 s BRIDGE_REG_DONE \<noteq> 0, BRIDGE_READ16 s BRIDGE_REG_RESULT)"

text \<open>One turn of the daemon on a request: what it answers and what it did to the chip.\<close>

lemma service_bridge_answer:
  assumes "bridge_inv s" "shows_request q s" "bridge_new_req q" "service_bridge tmp0 s = Some t"
  shows "\<exists>u. (if bridge_rw q
        then chip_wput (Some bridge_on_interrupt_cb) (Some (bridge_on_transmit_cb tmp0)) (bridge_addr_off q) (bridge_data q) s = Some u
        else u = s) \<and>
    same_chip t u \<and> answer_of t = (True, if bridge_rw q then 0 else chip_wget (bridge_addr_off q) s)"
proof -
  have b: "boardram s = BRIDGE_BOARDRAM_OFF" using assms(1) by (simp add: bridge_inv_def chip_inv_boardram)
  show ?thesis
    using assms(4)
  proof (cases rule: service_bridge_cases)
    case (2 result u)
    have "boardram u = BRIDGE_BOARDRAM_OFF"
      using 2(3) b assms(1) br.chip_wput_inv [where s = s] by (fastforce simp: bridge_inv_def chip_inv_boardram split: if_splits)
    then show ?thesis
      using 2(2,3) assms(2,3) reply_same_chip [of u result]
      by (auto simp: shows_request_def answer_of_def split: if_splits)
  qed (use assms(2,3) in \<open>auto simp: shows_request_def\<close>)
qed

text \<open>C12: An access of the 68k to either port, with the daemon in its invariant: after any number of clocks that the watchdog
  allows, a turn of the daemon on the request lines and two more clocks end it with DTACK. A read returns what the
  chip answers for that port, a write has been performed on the chip.\<close>

theorem card_bridge_access:
  assumes "card_configured c" "state r = ST_IDLE" "bridge_inv s" "k \<le> cycles" "cycles < 2 ^ 20"
    and shown: "shows_request ((bridge_clk cycles c (port_cycle c p rd v, False, x) ^^ Suc k) r) s"
    and served: "service_bridge tmp0 s = Some t"
  shows "\<exists>u. (if rd then u = s
      else chip_wput (Some bridge_on_interrupt_cb) (Some (bridge_on_transmit_cb tmp0)) (if p then A2065_RAP_OFF else A2065_RDP_OFF) v s = Some u) \<and>
    same_chip t u \<and>
    ended (Some (True, if rd then chip_wget (if p then A2065_RAP_OFF else A2065_RDP_OFF) s else 0))
      ((bridge_clk cycles c (port_cycle c p rd v, answer_of t) ^^ 2) ((bridge_clk cycles c (port_cycle c p rd v, False, x) ^^ Suc k) r))"
proof -
  define q where "q = (bridge_clk cycles c (port_cycle c p rd v, False, x) ^^ Suc k) r"
  have sel: "sel_chipreg c (port_cycle c p rd v)" using assms(1) by simp
  have q: "state q = ST_WAIT_ARM" "cpu_berr_n q" "bridge_new_req q" "bridge_data q = v"
    "bridge_addr_off q = (if p then A2065_RAP_OFF else A2065_RDP_OFF)" "bridge_rw q = (\<not> rd)"
    using access_waits [OF sel assms(2,5,4), of x] by (simp_all add: waits_def del: funpow.simps flip: q_def)
  obtain u where u: "if bridge_rw q
        then chip_wput (Some bridge_on_interrupt_cb) (Some (bridge_on_transmit_cb tmp0)) (bridge_addr_off q) (bridge_data q) s = Some u
        else u = s" "same_chip t u" "answer_of t = (True, if bridge_rw q then 0 else chip_wget (bridge_addr_off q) s)"
    using service_bridge_answer [OF assms(3) shown [folded q_def] q(3) served] by blast
  have "ended (Some (True, if rd then chip_wget (if p then A2065_RAP_OFF else A2065_RDP_OFF) s else 0))
      ((bridge_clk cycles c (port_cycle c p rd v, answer_of t) ^^ 2) q)"
    using answered_clk [of "port_cycle c p rd v" q] q u(3) by (simp add: numeral_eq_Suc)
  with u q show ?thesis unfolding q_def [symmetric] by (auto split: if_splits)
qed

section \<open>Witness\<close>

text \<open>The started daemon with a read of the data port on the request lines.\<close>

definition bridge_reading :: bridge_daemon where
  "bridge_reading = BRIDGE_WRITE16 (bridge_asked A2065_RDP_OFF 0) BRIDGE_REG_DATA 0"

lemma bridge_reading_facts:
  "bridge_inv bridge_reading" "BRIDGE_READ16 bridge_reading BRIDGE_REG_DATA = 0" "BRIDGE_READ8 bridge_reading BRIDGE_REG_ADDR = 0"
  "BRIDGE_READ8 bridge_reading BRIDGE_REG_RW = 0" "BRIDGE_READ8 bridge_reading BRIDGE_REG_NEW_REQ = 1"
proof -
  have "boardram (bridge_asked A2065_RDP_OFF 0) = BRIDGE_BOARDRAM_OFF"
    using bridge_asked_facts(1) [of A2065_RDP_OFF 0] by (simp add: bridge_inv_def chip_inv_boardram)
  then show "bridge_inv bridge_reading"
    using bridge_asked_facts(1) [of A2065_RDP_OFF 0] same_chip_inv [OF write16_same_chip [of "bridge_asked A2065_RDP_OFF 0" BRIDGE_REG_DATA 0], of BRIDGE_BOARDRAM_OFF]
    by (simp add: bridge_inv_def bridge_reading_def)
qed (use bridge_asked_facts(2-4) [of A2065_RDP_OFF 0] in \<open>simp_all add: bridge_reading_def\<close>)

theorem card_bridge_access_witness:
  "\<exists>t. service_bridge [] bridge_reading = Some t \<and>
     ended (Some (True, chip_wget A2065_RDP_OFF bridge_reading))
       ((bridge_clk 700000 card_e9 (port_cycle card_e9 False True 0, answer_of t) ^^ 2)
         ((bridge_clk 700000 card_e9 (port_cycle card_e9 False True 0, False, 0) ^^ Suc 5000) bridge_rst))"
proof -
  have r: "state bridge_rst = ST_IDLE" by (simp add: bridge_rst_def)
  have "waits (port_cycle card_e9 False True 0) 5000 ((bridge_clk 700000 card_e9 (port_cycle card_e9 False True 0, False, 0) ^^ Suc 5000) bridge_rst)"
    by (rule access_waits) (simp_all add: r)
  then have s: "shows_request ((bridge_clk 700000 card_e9 (port_cycle card_e9 False True 0, False, 0) ^^ Suc 5000) bridge_rst) bridge_reading"
    by (simp add: waits_def shows_request_def bridge_reading_facts del: funpow.simps)
  obtain t where t: "service_bridge [] bridge_reading = Some t"
    by (simp add: service_bridge_def bridge_reading_facts)
  show ?thesis
    using card_bridge_access [OF card_e9_configured r bridge_reading_facts(1) _ _ s t] t by (auto simp del: funpow.simps)
qed

end
