(* ===== verification/Fpga_Ram.thy ===== *)
theory Fpga_Ram
  imports Fpga_Bus Boardram
begin

text \<open>
  \<^verbatim>\<open>src/fpga/rtl/a2065_ddr_window.v\<close> and \<^verbatim>\<open>a2065_boardram.v\<close>: the board RAM on the side of the 68k. The first holds the bus
  while the DDR3 is busy and gives the ARM a port into the same words; the second is a block RAM that answers at the next
  clock. \<open>lanes\<close> is how the words lie in the memory that the daemon maps, as the comment of \<^verbatim>\<open>boardram_access.h\<close>
  says: it is what the exchanged bytes of the accessors of \<open>Boardram\<close> undo.
\<close>

unbundle bit_operations_syntax

type_synonym word_idx = "14 word"

section \<open>The DDR3 window\<close>

datatype win_state = S_IDLE | S_BUSY | S_DONE

record ddr_window =
  win_state :: win_state
  cnt :: u16
  addr_buf :: word_idx
  wdata_buf :: u16
  wr_buf :: bool
  win_data_out :: u16
  ram :: "word_idx \<Rightarrow> u16"

text \<open>The inputs of one edge. Bit 0 of the address is not connected.\<close>

record win_in =
  win_addr :: u24
  win_data_in :: u16
  cpu_hwr :: bool
  cpu_lwr :: bool
  sel :: bool
  arm_addr :: word_idx
  arm_wdata :: u16
  arm_wr :: bool

definition sel_br :: "win_in \<Rightarrow> bool" where
  "sel_br i \<longleftrightarrow> sel i \<and> bit (win_addr i) 15"

definition wa :: "win_in \<Rightarrow> word_idx" where
  "wa i = ucast (drop_bit 1 (win_addr i))"

definition is_write :: "win_in \<Rightarrow> bool" where
  "is_write i \<longleftrightarrow> \<not> cpu_hwr i \<or> \<not> cpu_lwr i"

definition window_rst :: "ddr_window \<Rightarrow> ddr_window" where
  "window_rst w = w\<lparr>win_state := S_IDLE, cnt := 0, win_data_out := 0\<rparr>"

definition window_clk :: "nat \<Rightarrow> win_in \<Rightarrow> ddr_window \<Rightarrow> ddr_window" where
  "window_clk latency i w =
    (let v = (if arm_wr i then w\<lparr>ram := (ram w)(arm_addr i := arm_wdata i)\<rparr> else w)
     in case win_state w of
          S_IDLE \<Rightarrow>
            (if sel_br i
             then v\<lparr>win_state := S_BUSY, cnt := of_nat latency, addr_buf := wa i, wdata_buf := win_data_in i, wr_buf := is_write i\<rparr>
             else v)
        | S_BUSY \<Rightarrow>
            (if cnt w = 0
             then (if wr_buf w then v\<lparr>win_state := S_DONE, ram := (ram v)(addr_buf w := wdata_buf w)\<rparr>
                   else v\<lparr>win_state := S_DONE, win_data_out := ram w (addr_buf w)\<rparr>)
             else v\<lparr>cnt := cnt w - 1\<rparr>)
        | S_DONE \<Rightarrow> (if \<not> sel_br i then v\<lparr>win_state := S_IDLE\<rparr> else v))"

definition win_nrdy :: "win_in \<Rightarrow> ddr_window \<Rightarrow> bool" where
  "win_nrdy i w \<longleftrightarrow> (if win_state w = S_IDLE then sel_br i else win_state w = S_BUSY)"

text \<open>The state while the counter runs.\<close>

definition counting :: "win_in \<Rightarrow> nat \<Rightarrow> ddr_window \<Rightarrow> bool" where
  "counting i n w \<longleftrightarrow> win_state w = S_BUSY \<and> unat (cnt w) = n \<and> addr_buf w = wa i \<and> wdata_buf w = win_data_in i \<and> wr_buf w = is_write i"

lemma counting_step:
  assumes "counting i (Suc n) w" "\<not> arm_wr j"
  shows "counting i n (window_clk latency j w)" "ram (window_clk latency j w) = ram w"
proof -
  have "cnt w \<noteq> 0" using assms(1) by (auto simp: counting_def)
  moreover from this have "unat (cnt w - 1) = n"
    using assms(1) unat_minus_one [of "cnt w"] by (simp add: counting_def)
  ultimately show "counting i n (window_clk latency j w)" "ram (window_clk latency j w) = ram w"
    using assms by (auto simp: counting_def window_clk_def)
qed

lemma counting_run:
  assumes "\<not> arm_wr j"
  shows "counting i (k + n) w \<Longrightarrow> counting i n ((window_clk latency j ^^ k) w) \<and> ram ((window_clk latency j ^^ k) w) = ram w"
proof (induction k arbitrary: n)
  case (Suc k)
  let ?v = "(window_clk latency j ^^ k) w"
  have v: "counting i (Suc n) ?v" "ram ?v = ram w" using Suc.IH [of "Suc n"] Suc.prems by simp_all
  show ?case using counting_step [OF v(1) assms, of latency] v(2) by simp
qed simp

lemma window_written:
  assumes "win_state w = S_IDLE" "sel_br i" "\<not> arm_wr i" "latency < 2 ^ 16"
  shows "let z = (window_clk latency i ^^ (latency + 2)) w
    in (\<forall>k < latency + 2. win_nrdy i ((window_clk latency i ^^ k) w)) \<and> \<not> win_nrdy i z \<and> win_state z = S_DONE \<and>
       (if is_write i then ram z = (ram w)(wa i := win_data_in i) else ram z = ram w \<and> win_data_out z = ram w (wa i))"
proof -
  define y where "y = window_clk latency i w"
  have y: "counting i latency y" "ram y = ram w"
    using assms by (simp_all add: y_def window_clk_def counting_def unsigned_of_nat take_bit_nat_eq_self)
  have run: "(window_clk latency i ^^ Suc k) w = (window_clk latency i ^^ k) y" for k
    by (simp add: y_def funpow_swap1)
  have busy: "counting i (latency - k) ((window_clk latency i ^^ k) y)" if "k \<le> latency" for k
    using counting_run [OF assms(3), of i k "latency - k" y latency] y(1) that by simp
  have "win_nrdy i ((window_clk latency i ^^ k) w)" if "k < latency + 2" for k
  proof (cases k)
    case 0
    then show ?thesis using assms(1,2) by (simp add: win_nrdy_def)
  next
    case (Suc k')
    then show ?thesis using busy [of k'] that run [of k'] by (simp add: win_nrdy_def counting_def)
  qed
  moreover define z where "z = (window_clk latency i ^^ latency) y"
  have z: "counting i 0 z" "ram z = ram w"
    using counting_run [OF assms(3), of i latency 0 y latency] y by (simp_all add: z_def)
  moreover have "(window_clk latency i ^^ (latency + 2)) w = window_clk latency i z"
    using run [of "Suc latency"] by (simp add: z_def)
  ultimately show ?thesis
    using assms(3) by (auto simp: Let_def window_clk_def counting_def win_nrdy_def unat_eq_0)
qed

text \<open>C20: An access of the 68k to the board RAM holds the bus for exactly \<^verbatim>\<open>LATENCY + 2\<close> clocks. A write has then replaced the
  word, whichever of the two byte strobes was active; a read has the word on the data lines.\<close>

theorem window_access:
  assumes "win_state w = S_IDLE" "sel_br i" "\<not> arm_wr i" "latency < 2 ^ 16"
  shows "let z = (window_clk latency i ^^ (latency + 2)) w
    in (\<forall>k < latency + 2. win_nrdy i ((window_clk latency i ^^ k) w)) \<and> \<not> win_nrdy i z \<and> win_state z = S_DONE \<and>
       (if is_write i then ram z = (ram w)(wa i := win_data_in i) else ram z = ram w \<and> win_data_out z = ram w (wa i))"
  using assms by (rule window_written)

section \<open>The words in the memory of the ARM\<close>

text \<open>Word \<open>a\<close> of the 68k lies at byte offset \<open>2 * a\<close>, its low byte first.\<close>

definition lane_off :: "word_idx \<Rightarrow> u32" where
  "lane_off a = push_bit 1 (ucast a)"

lemma bit_lane_off: "bit (lane_off a) n \<longleftrightarrow> 0 < n \<and> bit a (n - 1)"
proof -
  have "n < 32" if "bit a (n - 1)" using bit_imp_le_length [OF that] by simp
  then show ?thesis
    unfolding lane_off_def by (auto simp only: bit_push_bit_iff bit_unsigned_iff possible_bit_word) auto
qed

definition lanes :: "(word_idx \<Rightarrow> u16) \<Rightarrow> 'a window_scheme \<Rightarrow> bool" where
  "lanes m s \<longleftrightarrow> (\<forall>a. map_w s (boardram s + lane_off a) = ucast (m a) \<and>
     map_w s (boardram s + (lane_off a OR 1)) = ucast (drop_bit 8 (m a)))"

definition idx_of :: "u32 \<Rightarrow> word_idx" where
  "idx_of off = ucast (drop_bit 1 off)"

lemma even_plus_one: "\<not> bit off 0 \<Longrightarrow> off + 1 = off OR 1" for off :: u32
  by (rule disjunctive_add_eq_or) (simp add: and_one_eq bit_0 odd_iff_mod_2_eq_one)

text \<open>The accessors of the daemon address the high byte of the word for an even offset and the low byte for the next.\<close>

lemma swizzled_lanes:
  assumes "\<not> bit off 0"
  shows "(off XOR 1) AND RAM_MASK = lane_off (idx_of off) OR 1"
    and "((off + 1) XOR 1) AND RAM_MASK = lane_off (idx_of off)"
proof -
  show "(off XOR 1) AND RAM_MASK = lane_off (idx_of off) OR 1"
  proof (rule bit_word_eqI)
    fix n
    assume "n < LENGTH(32)"
    then show "bit ((off XOR 1) AND RAM_MASK) n = bit (lane_off (idx_of off) OR 1) n"
      using assms by (cases n) (auto simp: RAM_MASK_mask idx_of_def bit_lane_off bit_simps)
  qed
  show "((off + 1) XOR 1) AND RAM_MASK = lane_off (idx_of off)"
    unfolding even_plus_one [OF assms]
  proof (rule bit_word_eqI)
    fix n
    assume "n < LENGTH(32)"
    then show "bit (((off OR 1) XOR 1) AND RAM_MASK) n = bit (lane_off (idx_of off)) n"
      using assms by (cases n) (auto simp: RAM_MASK_mask idx_of_def bit_lane_off bit_simps)
  qed
qed

lemma idx_lane [simp]: "idx_of (lane_off a) = a" "idx_of (lane_off a OR 1) = a"
  unfolding idx_of_def by (rule bit_word_eqI; auto simp: bit_lane_off bit_simps bit_1_iff dest: bit_imp_le_length)+

lemma lane_eq_iff:
  "(lane_off a) = lane_off b \<longleftrightarrow> a = b"
  "(lane_off a OR 1) = lane_off b OR 1 \<longleftrightarrow> a = b"
  "(lane_off a) \<noteq> lane_off b OR 1"
  "(lane_off b OR 1) \<noteq> lane_off a" for a b :: word_idx
proof -
  show "(lane_off a) = lane_off b \<longleftrightarrow> a = b"
    "(lane_off a OR 1) = lane_off b OR 1 \<longleftrightarrow> a = b"
    using idx_lane by metis+
  have "bit (lane_off b OR 1) 0" "\<not> bit (lane_off a) 0"
    by (simp_all add: bit_lane_off bit_or_iff)
  then show "(lane_off a) \<noteq> lane_off b OR 1" "(lane_off b OR 1) \<noteq> lane_off a"
    by metis+
qed

lemma lanes_word:
  assumes "lanes m s" "\<not> bit off 0"
  shows "get_ram_word s off = m (idx_of off) \<and> lanes (m(idx_of off := v)) (put_ram_word s off v)"
proof
  note o = swizzled_lanes [OF assms(2)]
  have "get_ram_byte s off = ucast (drop_bit 8 (m (idx_of off)))" "get_ram_byte s (off + 1) = ucast (m (idx_of off))"
    unfolding get_ram_byte_def o using assms(1) by (simp_all add: lanes_def)
  then show "get_ram_word s off = m (idx_of off)" by (simp add: get_ram_word_def u16_halves)
  have "put_ram_word s off v = s\<lparr>map_w := (map_w s)(boardram s + (lane_off (idx_of off) OR 1) := ucast (drop_bit 8 v),
      boardram s + lane_off (idx_of off) := ucast v)\<rparr>"
    unfolding put_ram_word_def put_ram_byte_def o by simp
  then show "lanes (m(idx_of off := v)) (put_ram_word s off v)"
    using assms(1) by (simp add: lanes_def lane_eq_iff)
qed

text \<open>The exchange of neighbouring bytes in \<^verbatim>\<open>boardram_access.h\<close> is right for memory that the FPGA fills in lanes: at every even
  offset the daemon reads the word that the 68k wrote there, and a word that the daemon writes is the one the 68k
  reads.\<close>

theorem lanes_shared:
  assumes "lanes m s" "\<not> bit off 0"
  shows "get_ram_word s off = m (idx_of off) \<and> lanes (m(idx_of off := v)) (put_ram_word s off v)"
  using assms by (rule lanes_word)

text \<open>A word that the 68k has written through the window is what the daemon reads at that offset, once the words of the
  window are the memory that the daemon maps.\<close>

theorem window_to_daemon:
  assumes "win_state w = S_IDLE" "sel_br i" "\<not> arm_wr i" "latency < 2 ^ 16" "is_write i" "\<not> bit (win_addr i) 0"
    and mapped: "lanes (ram ((window_clk latency i ^^ (latency + 2)) w)) s"
  shows "get_ram_word s (ucast (win_addr i)) = win_data_in i"
proof -
  have "idx_of (ucast (win_addr i)) = wa i"
    unfolding idx_of_def wa_def by (rule bit_word_eqI) (auto simp: bit_simps)
  moreover have "ram ((window_clk latency i ^^ (latency + 2)) w) = (ram w)(wa i := win_data_in i)"
    using window_written [OF assms(1-4)] assms(5) by (simp add: Let_def)
  moreover have "\<not> bit (ucast (win_addr i) :: u32) 0" using assms(6) by (simp add: bit_simps)
  ultimately show ?thesis using lanes_word [OF mapped, of "ucast (win_addr i)"] by simp
qed

section \<open>The block RAM\<close>

text \<open>\<^verbatim>\<open>a2065_boardram.v\<close>. Its port B has no logic: the ARM can neither read nor write this memory.\<close>

record board_ram =
  bram :: "word_idx \<Rightarrow> u16"
  ram_rd :: u16

definition boardram_clk :: "win_in \<Rightarrow> board_ram \<Rightarrow> board_ram" where
  "boardram_clk i r =
     r\<lparr>bram := (if sel_br i \<and> (cpu_hwr i \<or> cpu_lwr i) then (bram r)(wa i := win_data_in i) else bram r), ram_rd := bram r (wa i)\<rparr>"

definition boardram_data_out :: "win_in \<Rightarrow> board_ram \<Rightarrow> u16" where
  "boardram_data_out i r = (if sel_br i then ram_rd r else 0)"

text \<open>A word written by the 68k is read back at the clock after the address is on the bus, however many cycles to other
  words lie between.\<close>

theorem boardram_read_back:
  assumes "sel_br i" "cpu_hwr i \<or> cpu_lwr i" "list_all (\<lambda>k. wa k \<noteq> wa i) ks" "sel_br j" "wa j = wa i"
  shows "boardram_data_out j (boardram_clk j (fold boardram_clk ks (boardram_clk i r))) = win_data_in i"
proof -
  have "bram (fold boardram_clk ks q) (wa i) = bram q (wa i)" for q
    using assms(3) by (induction ks arbitrary: q) (auto simp: boardram_clk_def)
  then show ?thesis
    using assms(1,2,4,5) by (simp add: boardram_data_out_def) (simp add: boardram_clk_def)
qed

section \<open>Witnesses\<close>

definition win_cycle :: "bool \<Rightarrow> u24 \<Rightarrow> u16 \<Rightarrow> win_in" where
  "win_cycle wr a v = \<lparr>win_addr = a, win_data_in = v, cpu_hwr = \<not> wr, cpu_lwr = \<not> wr, sel = True, arm_addr = 0, arm_wdata = 0, arm_wr = False\<rparr>"

definition window_init :: ddr_window where
  "window_init = \<lparr>win_state = S_IDLE, cnt = 0, addr_buf = 0, wdata_buf = 0, wr_buf = False, win_data_out = 0, ram = (\<lambda>_. 0)\<rparr>"

lemma win_cycle_facts:
  "win_state window_init = S_IDLE" "sel_br (win_cycle wr 0xE98002 v)" "\<not> arm_wr (win_cycle wr a v)" "is_write (win_cycle True a v)"
  "win_data_in (win_cycle wr a v) = v" "win_addr (win_cycle wr a v) = a" "wa (win_cycle wr 0xE98002 v) = 1"
  by (simp_all add: window_init_def win_cycle_def sel_br_def is_write_def wa_def)

theorem window_access_witness:
  "ram ((window_clk 2 (win_cycle True 0xE98002 0xABCD) ^^ (2 + 2)) window_init) = (\<lambda>_. 0)(1 := 0xABCD)"
  using window_access [of window_init "win_cycle True 0xE98002 0xABCD" 2] by (simp add: win_cycle_facts Let_def) (simp add: window_init_def)

definition mapped_words :: "(word_idx \<Rightarrow> u16) \<Rightarrow> window" where
  "mapped_words m = \<lparr>map_w = (\<lambda>x. if bit x 0 then ucast (drop_bit 8 (m (idx_of x))) else ucast (m (idx_of x))), boardram = 0\<rparr>"

lemma mapped_words_lanes: "lanes m (mapped_words m)"
proof -
  have "bit (lane_off a OR 1) 0" "\<not> bit (lane_off a) 0" for a
    by (simp_all add: bit_lane_off bit_or_iff)
  then show ?thesis by (simp add: lanes_def mapped_words_def)
qed

theorem lanes_shared_witness: "get_ram_word (mapped_words (\<lambda>a. ucast a + 0x1200)) 0x34 = 0x121A"
proof -
  have "\<not> bit (0x34 :: u32) 0" by simp
  from lanes_shared [OF mapped_words_lanes this, of "\<lambda>a. ucast a + 0x1200" 0] show ?thesis by (simp add: idx_of_def)
qed

theorem window_to_daemon_witness:
  "get_ram_word (mapped_words (ram ((window_clk 2 (win_cycle True 0xE98002 0xABCD) ^^ (2 + 2)) window_init))) 0xE98002 = 0xABCD"
  using window_to_daemon [of window_init "win_cycle True 0xE98002 0xABCD" 2, OF _ _ _ _ _ _ mapped_words_lanes] by (simp add: win_cycle_facts)

theorem boardram_read_back_witness:
  "boardram_data_out (win_cycle False 0xE98002 0) (boardram_clk (win_cycle False 0xE98002 0)
     (fold boardram_clk [] (boardram_clk (win_cycle False 0xE98002 0x1234) \<lparr>bram = (\<lambda>_. 0), ram_rd = 0\<rparr>))) = 0x1234"
  using boardram_read_back [of "win_cycle False 0xE98002 0x1234" "[]" "win_cycle False 0xE98002 0" "\<lparr>bram = (\<lambda>_. 0), ram_rd = 0\<rparr>"]
  by (simp add: win_cycle_facts) (simp add: win_cycle_def)

end
