(* ===== verification/Unit_Tests.thy ===== *)
theory Unit_Tests
  imports Registers
begin

text \<open>
  Three of the repository's own test programs, run on the model: \<^verbatim>\<open>boardram_flat_test.cpp\<close>, \<^verbatim>\<open>csr_test.cpp\<close> and \<^verbatim>\<open>mac_test.cpp\<close>,
  which call nothing but the accessors of the board RAM, \<^verbatim>\<open>registers.cpp\<close> and \<^verbatim>\<open>mac.cpp\<close>. A test is the list of the
  conditions it checks, in order; the exit status of a program is 1 when one of them is false.
\<close>

unbundle bit_operations_syntax

definition results :: "bool list \<Rightarrow> nat \<times> nat" where
  "results cs = (length (filter id cs), length (filter Not cs))"

definition exit_status :: "bool list \<Rightarrow> int" where
  "exit_status cs = (if snd (results cs) \<noteq> 0 then 1 else 0)"

section \<open>\<^verbatim>\<open>boardram_flat_test.cpp\<close>\<close>

definition flat_init_block :: "u8 list" where
  "flat_init_block = [0x00, 0x00, 0x00, 0x80, 0x10, 0x00, 0x04, 0x2B, 0x00, 0x00, 0x00, 0x00, 0x00, 0x00, 0x00, 0x00,
     0x00, 0x00, 0x00, 0x20, 0x00, 0x10, 0x00, 0x04]"

definition flat_test :: "'a window_scheme \<Rightarrow> bool list" where
  "flat_test s0 =
    (let s1 = s0\<lparr>map_w := (\<lambda>a. if a - boardram s0 < 0x8000 then 0 else map_w s0 a)\<rparr>;
         s2 = put_ram_word s1 0x1000 0xABCD;
         s3 = put_ram_byte (put_ram_byte s2 0x2000 0x12) 0x2001 0x34;
         s4 = ram_write_block s3 0x0000 flat_init_block;
         s5 = put_ram_word (put_ram_word s4 0x8000 0xDEAD) 0x7FFE 0xBEEF;
         s6 = put_ram_word (put_ram_word (put_ram_word s5 0x1000 0x8300) 0x1002 0x3000) 0x1004 0xFFC4
     in [get_ram_word s2 0x1000 = 0xABCD, get_ram_byte s2 0x1000 = 0xAB, get_ram_byte s2 0x1001 = 0xCD,
         get_ram_byte s3 0x2000 = 0x12, get_ram_byte s3 0x2001 = 0x34, get_ram_word s3 0x2000 = 0x1234,
         get_ram_word s4 0 = 0, get_ram_byte s4 2 = 0x00, get_ram_byte s4 3 = 0x80, get_ram_byte s4 4 = 0x10,
         get_ram_byte s4 5 = 0x00, get_ram_byte s4 6 = 0x04, get_ram_byte s4 7 = 0x2B, get_ram_word s4 8 = 0,
         get_ram_byte s4 16 = 0x00, get_ram_byte s4 17 = 0x00, get_ram_byte s4 18 = 0x00, get_ram_byte s4 19 = 0x20,
         ram_read_block s4 0 24 = flat_init_block,
         get_ram_word s5 0x0000 = 0xDEAD, get_ram_word s5 0x7FFE = 0xBEEF,
         get_ram_word s6 0x1000 = 0x8300, get_ram_word s6 0x1002 = 0x3000, get_ram_word s6 0x1004 = 0xFFC4])"

section \<open>\<^verbatim>\<open>csr_test.cpp\<close>\<close>

text \<open>The test stores into its array \<^verbatim>\<open>fake_ram\<close> directly, in the order of the 68k; the array is the memory from address 0 on.
  \<^verbatim>\<open>test_init_sequence\<close> has the name \<open>csr_init_sequence\<close> here, and \<^verbatim>\<open>test_mac_from_init_block\<close>, which checks nothing, is left
  out.\<close>

definition raw_put_byte :: "u32 \<Rightarrow> u8 \<Rightarrow> a2065 \<Rightarrow> a2065" where
  "raw_put_byte off v s = s\<lparr>map_w := (map_w s)(boardram s + (off AND RAM_MASK) := v)\<rparr>"

definition raw_put_word :: "u32 \<Rightarrow> u16 \<Rightarrow> a2065 \<Rightarrow> a2065" where
  "raw_put_word off v s = raw_put_byte (off + 1) (ucast v) (raw_put_byte off (ucast (drop_bit 8 v)) s)"

definition raw_clear :: "a2065 \<Rightarrow> a2065" where
  "raw_clear s = s\<lparr>map_w := (\<lambda>a. if a - boardram s < 0x8000 then 0 else map_w s a)\<rparr>"

definition csr_init_block :: "u32 \<Rightarrow> a2065 \<Rightarrow> a2065" where
  "csr_init_block base s =
    (let rdr = push_bit 29 2 OR (0x1000 AND 0x00fffff8) :: u32;
         tdr = push_bit 29 2 OR (0x2000 AND 0x00fffff8) :: u32;
         s = raw_put_word (base + 0) 0x0000 s;
         s = raw_put_byte (base + 2) 0x80 s; s = raw_put_byte (base + 3) 0x00 s;
         s = raw_put_byte (base + 4) 0xAA s; s = raw_put_byte (base + 5) 0x10 s;
         s = raw_put_byte (base + 6) 0xCC s; s = raw_put_byte (base + 7) 0xBB s;
         s = raw_put_word (base + 8) 0 s; s = raw_put_word (base + 10) 0 s;
         s = raw_put_word (base + 12) 0 s; s = raw_put_word (base + 14) 0 s;
         s = raw_put_word (base + 16) (ucast rdr) s; s = raw_put_word (base + 18) (ucast (drop_bit 16 rdr)) s;
         s = raw_put_word (base + 20) (ucast tdr) s
     in raw_put_word (base + 22) (ucast (drop_bit 16 tdr)) s)"

definition t_write_rap :: "u16 \<Rightarrow> a2065 \<Rightarrow> a2065 option" where
  "t_write_rap v s = chip_wput None None A2065_RAP_OFF v s"

definition t_write_rdp :: "u16 \<Rightarrow> a2065 \<Rightarrow> a2065 option" where
  "t_write_rdp v s = chip_wput None None A2065_RDP_OFF v s"

definition do_driver_init :: "u32 \<Rightarrow> a2065 \<Rightarrow> a2065 option" where
  "do_driver_init addr s = do {
     s \<leftarrow> t_write_rap 0 s; s \<leftarrow> t_write_rdp CSR0_STOP s;
     s \<leftarrow> t_write_rap 1 s; s \<leftarrow> t_write_rdp (ucast (addr AND 0xFFFF)) s;
     s \<leftarrow> t_write_rap 2 s; s \<leftarrow> t_write_rdp (ucast (drop_bit 16 addr AND 0xFF)) s;
     s \<leftarrow> t_write_rap 0 s; t_write_rdp (CSR0_INIT OR CSR0_STRT) s
   }"

definition test_stop_clears_state :: "a2065 \<Rightarrow> (bool list \<times> a2065) option" where
  "test_stop_clears_state s = do {
     s \<leftarrow> t_write_rap 0 (registers_reset s); s \<leftarrow> t_write_rdp CSR0_STOP s;
     Some ([chip_wget A2065_RDP_OFF s = CSR0_STOP, \<not> am_initialized s], s)
   }"

definition csr_init_sequence :: "a2065 \<Rightarrow> (bool list \<times> a2065) option" where
  "csr_init_sequence s = do {
     s \<leftarrow> do_driver_init 0 (csr_init_block 0 (registers_set_boardram 0 (registers_reset (raw_clear s))));
     let csr0 = registers_csr0 s;
     Some ([has csr0 CSR0_IDON, has csr0 CSR0_STRT, has csr0 CSR0_TXON, has csr0 CSR0_RXON, am_initialized s], s)
   }"

definition test_ring_params :: "a2065 \<Rightarrow> bool list" where
  "test_ring_params s = [am_rdr_rlen s = push_bit 2 1, am_tdr_tlen s = push_bit 2 1, am_rdr_rdra s = 0x1000, am_tdr_tdra s = 0x2000]"

definition test_csr0_after_init :: "a2065 \<Rightarrow> (bool list \<times> a2065) option" where
  "test_csr0_after_init s = do {
     s \<leftarrow> t_write_rap 0 s;
     let m = CSR0_IDON OR CSR0_STRT OR CSR0_TXON OR CSR0_RXON;
     Some ([chip_wget A2065_RDP_OFF s AND m = m], s)
   }"

definition test_chip_id :: "a2065 \<Rightarrow> (bool list \<times> a2065) option" where
  "test_chip_id s = do {
     s \<leftarrow> t_write_rap 88 s;
     let v88 = chip_wget A2065_RDP_OFF s;
     s \<leftarrow> t_write_rap 89 s;
     let v89 = chip_wget A2065_RDP_OFF s;
     Some ([v88 \<noteq> 0, v89 = 0x3003], s)
   }"

definition test_init_block_at_nonzero_offset :: "a2065 \<Rightarrow> (bool list \<times> a2065) option" where
  "test_init_block_at_nonzero_offset s = do {
     s \<leftarrow> do_driver_init 0x0100 (csr_init_block 0x0100 (registers_set_boardram 0 (registers_reset (raw_clear s))));
     Some ([has (registers_csr0 s) CSR0_IDON], s)
   }"

definition test_mode_and_ladrf :: "a2065 \<Rightarrow> bool list" where
  "test_mode_and_ladrf s = [am_mode s = 0, am_ladrf s = 0]"

definition test_rap_readback :: "a2065 \<Rightarrow> (bool list \<times> a2065) option" where
  "test_rap_readback s = do {
     s \<leftarrow> t_write_rap 5 s;
     let v5 = chip_wget A2065_RAP_OFF s;
     s \<leftarrow> t_write_rap 0x7F s;
     let v7F = chip_wget A2065_RAP_OFF s;
     s \<leftarrow> t_write_rap 0x80 s;
     Some ([v5 = 5, v7F = 0x7F, chip_wget A2065_RAP_OFF s = 0], s)
   }"

definition csr_test :: "a2065 \<Rightarrow> bool list option" where
  "csr_test s = do {
     (c1, s) \<leftarrow> test_stop_clears_state s;
     (c2, s) \<leftarrow> csr_init_sequence s;
     let c3 = test_ring_params s;
     (c4, s) \<leftarrow> test_csr0_after_init s;
     (c5, s) \<leftarrow> test_chip_id s;
     (c6, s) \<leftarrow> test_init_block_at_nonzero_offset s;
     let c7 = test_mode_and_ladrf s;
     (c8, s) \<leftarrow> test_rap_readback s;
     Some (c1 @ c2 @ c3 @ c4 @ c5 @ c6 @ c7 @ c8)
   }"

section \<open>\<^verbatim>\<open>mac_test.cpp\<close>\<close>

definition FAKE :: mac_addr where "FAKE = [0x00, 0x80, 0x10, 0xAA, 0xBB, 0xCC]"

definition REAL :: mac_addr where "REAL = [0x00, 0x80, 0x10, 0x11, 0x22, 0x33]"

definition OTHER_MAC :: mac_addr where "OTHER_MAC = [0xDE, 0xAD, 0xBE, 0xEF, 0x00, 0x01]"

text \<open>A run of assignments \<^verbatim>\<open>p[i] = v\<close> to an array whose first entry of interest is at \<open>k\<close>.\<close>

definition stores :: "nat \<Rightarrow> (nat \<times> u8) list \<Rightarrow> u8 list \<Rightarrow> u8 list" where
  "stores k vs p = foldl (\<lambda>p (i, v). p[k + i := v]) p vs"

definition ip_checksum :: "u8 list \<Rightarrow> nat \<Rightarrow> nat \<Rightarrow> u16 option" where
  "ip_checksum p data len = do {
     sm \<leftarrow> udp_sum p data 0 (2 * (len div 2)) 0;
     sm \<leftarrow> (if odd len then do { b \<leftarrow> rd8 p (data + len); Some (sm + push_bit 8 (ucast b)) } else Some sm);
     Some (ucast (NOT (csum_fold sm)))
   }"

definition build_eth :: "u8 list \<Rightarrow> mac_addr \<Rightarrow> mac_addr \<Rightarrow> u16 \<Rightarrow> u8 list \<Rightarrow> u8 list" where
  "build_eth pkt dst src type payload =
    (let p = put_seg (put_seg pkt 0 dst) 6 src;
         p = p[12 := ucast (drop_bit 8 type), 13 := ucast type]
     in put_seg p 14 payload)"

definition test_arp_sender_target :: "mac_unit \<Rightarrow> bool list option" where
  "test_arp_sender_target m = do {
     let arp = stores 0 [(0, 0x00), (1, 0x01), (2, 0x08), (3, 0x00), (4, 6), (5, 4), (6, 0x00), (7, 0x01)] (replicate 28 0);
     let arp = put_seg arp 8 FAKE;
     let arp = stores 0 [(14, 192), (15, 168), (16, 1), (17, 100)] arp;
     let arp = put_seg arp 18 BROADCAST_MAC;
     let arp = stores 0 [(24, 192), (25, 168), (26, 1), (27, 1)] arp;
     let pkt = build_eth (replicate 64 0) BROADCAST_MAC FAKE 0x0806 arp;
     (pkt, _) \<leftarrow> mungepacket m pkt 42;
     Some [mac_at pkt (14 + 8) = REAL, mac_at pkt (14 + 18) = BROADCAST_MAC]
   }"

definition test_arp_target_translated :: "mac_unit \<Rightarrow> bool list option" where
  "test_arp_target_translated m = do {
     let arp = stores 0 [(0, 0x00), (1, 0x01), (4, 6)] (replicate 28 0);
     let arp = put_seg (put_seg arp 8 OTHER_MAC) 18 REAL;
     let pkt = build_eth (replicate 64 0) FAKE OTHER_MAC 0x0806 arp;
     (pkt, _) \<leftarrow> mungepacket m pkt 42;
     Some [mac_at pkt (14 + 18) = FAKE]
   }"

text \<open>\<open>udp_verify\<close> is the sum over the segment and the pseudo-header, folded: \<^verbatim>\<open>csum\<close> before the call and
  \<^verbatim>\<open>verify_raw\<close> after it.\<close>

definition test_dhcp_chaddr :: "mac_unit \<Rightarrow> bool list option" where
  "test_dhcp_chaddr m = do {
     let udp_payload_len = 272;
     let udp_len = 8 + udp_payload_len;
     let ip_len = 20 + udp_len;
     let frame_len = 14 + ip_len;
     let pkt = put_seg (put_seg (replicate 512 0) 0 BROADCAST_MAC) 6 FAKE;
     let pkt = stores 0 [(12, 0x08), (13, 0x00)] pkt;
     let ip = 14;
     let pkt = stores ip [(0, 0x45), (1, 0x00), (2, of_nat (ip_len div 256)), (3, of_nat ip_len), (9, 17),
         (10, 192), (11, 168), (12, 1), (13, 100), (14, 192), (15, 168), (16, 1), (17, 1), (4, 0x40), (5, 0x00), (8, 64)] pkt;
     hdr_sum \<leftarrow> ip_checksum pkt ip 20;
     let pkt = stores ip [(10, ucast (drop_bit 8 hdr_sum)), (11, ucast hdr_sum)] pkt;
     let udp = ip + 20;
     let pkt = stores udp [(0, 0x00), (1, 0x44), (2, 0x00), (3, 0x43), (4, of_nat (udp_len div 256)), (5, of_nat udp_len)] pkt;
     let dhcp = udp + 8;
     let pkt = put_seg pkt dhcp (replicate udp_payload_len 0);
     let pkt = pkt[dhcp := 1];
     let pkt = put_seg pkt (dhcp + 28) FAKE;
     let pkt = stores dhcp [(36, 0x35), (37, 0x01), (38, 0x01)] pkt;
     let pkt = stores udp [(6, 0), (7, 0)] pkt;
     csum \<leftarrow> udp_verify pkt ip udp udp_len;
     let sm = (ucast (NOT csum) :: u16);
     let sm = (if sm = 0 then 0xFFFF else sm);
     let pkt = stores udp [(6, ucast (drop_bit 8 sm)), (7, ucast sm)] pkt;
     (pkt, _) \<leftarrow> mungepacket m pkt frame_len;
     verify_raw \<leftarrow> udp_verify pkt ip udp udp_len;
     Some [mac_at pkt (udp + 8 + 28) = REAL, (ucast verify_raw :: u16) = 0xFFFF]
   }"

definition test_nonmatching_unchanged :: "mac_unit \<Rightarrow> bool list option" where
  "test_nonmatching_unchanged m = do {
     let pkt = put_seg (put_seg (replicate 64 0) 0 OTHER_MAC) 6 OTHER_MAC;
     let orig = stores 0 [(12, 0x08), (13, 0x00)] pkt;
     (pkt, _) \<leftarrow> mungepacket m orig 60;
     Some [take 60 pkt = take 60 orig]
   }"

definition test_broadcast_dst_real_src :: "mac_unit \<Rightarrow> bool list option" where
  "test_broadcast_dst_real_src m = do {
     let pkt = put_seg (put_seg (replicate 64 0) 0 BROADCAST_MAC) 6 REAL;
     let pkt = stores 0 [(12, 0x08), (13, 0x06)] pkt;
     (pkt, _) \<leftarrow> mungepacket m pkt 42;
     Some [mac_at pkt 0 = BROADCAST_MAC, mac_at pkt 6 = FAKE]
   }"

definition mac_test :: "mac_unit \<Rightarrow> bool list option" where
  "mac_test m0 = do {
     let m = mac_set_addresses FAKE REAL m0;
     c1 \<leftarrow> test_arp_sender_target m;
     c2 \<leftarrow> test_arp_target_translated m;
     c3 \<leftarrow> test_dhcp_chaddr m;
     c4 \<leftarrow> test_nonmatching_unchanged m;
     c5 \<leftarrow> test_broadcast_dst_real_src m;
     Some (c1 @ c2 @ c3 @ c4 @ c5)
   }"

section \<open>The register test on the model\<close>

lemma t_write_rap_eq [simp]: "t_write_rap v s = Some (s\<lparr>rap := ucast (v AND 0x7f)\<rparr>)"
  by (simp add: t_write_rap_def chip_wput_def)

lemma stop_stopped:
  assumes "csr s 0 = CSR0_STOP"
  shows "csr0_write None None CSR0_STOP s = Some s"
proof -
  have m: "csr0_merge CSR0_STOP CSR0_STOP = CSR0_STOP" by (simp add: csr0_merge_def)
  have "csr0_write None None CSR0_STOP s = Some (rethink None s)"
    by (rule csr0_write_no_demand) (simp_all add: assms m csr0_transition_def has_def, metis assms set_csr_id)
  then show ?thesis
    using assms set_csr_id [of 0 s] by (simp add: rethink_no_INEA has_def intr_of_def)
qed

text \<open>The state that the driver sequence leaves, from a reset chip.\<close>

definition driver_pointers :: "u32 \<Rightarrow> a2065 \<Rightarrow> a2065" where
  "driver_pointers addr s = (set_csr 2 (ucast (drop_bit 16 addr AND 0xFF) AND 0xFF) (set_csr 1 (ucast (addr AND 0xFFFF) AND NOT 1) s))\<lparr>rap := 0\<rparr>"

lemma do_driver_init_eq:
  assumes "csr s 0 = CSR0_STOP"
  shows "do_driver_init addr s =
    Some (set_csr 0 (enabled (am_mode s) (CSR0_INIT OR CSR0_STRT OR CSR0_IDON OR CSR0_INTR))
      ((chip_init (driver_pointers addr s))\<lparr>am_initialized := True\<rparr>))"
proof -
  have c: "csr (driver_pointers addr s) 0 = CSR0_STOP" "am_mode (driver_pointers addr s) = am_mode s" "rap (driver_pointers addr s) = 0"
    using assms by (simp_all add: driver_pointers_def)
  have w: "t_write_rdp CSR0_STOP (s\<lparr>rap := 0\<rparr>) = Some (s\<lparr>rap := 0\<rparr>)"
    "t_write_rdp v (s\<lparr>rap := 1\<rparr>) = Some (set_csr 1 (v AND NOT 1) (s\<lparr>rap := 1\<rparr>))"
    "t_write_rdp v ((set_csr 1 u (s\<lparr>rap := 1\<rparr>))\<lparr>rap := 2\<rparr>) = Some (set_csr 2 (v AND 0xff) ((set_csr 1 u (s\<lparr>rap := 1\<rparr>))\<lparr>rap := 2\<rparr>))" for u v
    using assms stop_stopped [of "s\<lparr>rap := 0\<rparr>"] by (simp_all add: t_write_rdp_def chip_wput_def has_def word_le_nat_alt)
  have d: "(set_csr 2 (ucast (drop_bit 16 addr AND 0xFF) AND 0xff) ((set_csr 1 (ucast (addr AND 0xFFFF) AND NOT 1) (s\<lparr>rap := 1\<rparr>))\<lparr>rap := 2\<rparr>))\<lparr>rap := 0\<rparr> =
      driver_pointers addr s"
    by (simp add: driver_pointers_def set_csr_def)
  have "csr0_settled CSR0_STOP" by (simp add: csr0_settled_def csr0_ok_def has_def)
  then have "t_write_rdp (CSR0_INIT OR CSR0_STRT) (driver_pointers addr s) =
      Some (set_csr 0 (enabled (am_mode s) (CSR0_INIT OR CSR0_STRT OR CSR0_IDON OR CSR0_INTR))
        ((chip_init (driver_pointers addr s))\<lparr>am_initialized := True\<rparr>))"
    using csr0_write_init_start [of "driver_pointers addr s" None None] c by (simp add: t_write_rdp_def chip_wput_def has_def)
  then show ?thesis
    using w(1) by (simp add: do_driver_init_def w(2) w(3) [simplified] d [simplified])
qed

text \<open>What \<open>chip_init\<close> makes of the block: the exchanged bytes give rings of one entry at \<^verbatim>\<open>0x10\<close> and \<^verbatim>\<open>0x20\<close>.\<close>

lemma raw_put_byte_fields [simp]:
  "csr (raw_put_byte off v s) = csr s" "am_mode (raw_put_byte off v s) = am_mode s" "boardram (raw_put_byte off v s) = boardram s"
  "csr (raw_clear s) = csr s" "am_mode (raw_clear s) = am_mode s" "boardram (raw_clear s) = boardram s"
  by (simp_all add: raw_put_byte_def raw_clear_def)

lemma csr_init_block_fields [simp]:
  "csr (csr_init_block base s) = csr s" "am_mode (csr_init_block base s) = am_mode s" "boardram (csr_init_block base s) = boardram s"
  by (simp_all add: csr_init_block_def raw_put_word_def Let_def)

lemma init_at_zero:
  assumes "boardram s = 0"
  defines "t \<equiv> chip_init (driver_pointers 0 (csr_init_block 0 (registers_reset (raw_clear s))))"
  shows "am_mode t = 0" "am_rdr_rlen t = 1" "am_tdr_tlen t = 1" "am_rdr_rdra t = 0x10" "am_tdr_tdra t = 0x20"
  using assms(1) unfolding t_def
  by (simp_all add: chip_init_def chip_init_mask_def rings_reset_loopback_count_def get_ram_word_def get_ram_byte_def Let_def
      driver_pointers_def csr_init_block_def raw_put_word_def raw_put_byte_def registers_reset_def raw_clear_def set_csr_def)

lemma init_at_0x100:
  assumes "boardram s = 0"
  defines "t \<equiv> chip_init (driver_pointers 0x100 (csr_init_block 0x100 (registers_reset (raw_clear s))))"
  shows "am_mode t = 0" "am_ladrf t = 0"
  using assms(1) unfolding t_def
  by (simp_all add: chip_init_def chip_init_mask_def rings_reset_loopback_count_def get_ram_word_def get_ram_byte_def Let_def
      driver_pointers_def csr_init_block_def raw_put_word_def raw_put_byte_def registers_reset_def raw_clear_def set_csr_def)

lemma set_boardram_same [simp]: "boardram s = ram \<Longrightarrow> registers_set_boardram ram s = s"
  by (simp add: registers_set_boardram_def)

lemma reset_fields [simp]:
  "csr (registers_reset s) 0 = CSR0_STOP" "boardram (registers_reset s) = boardram s" "am_mode (registers_reset s) = am_mode s"
  "\<not> am_initialized (registers_reset s)" for s :: a2065
  by (simp_all add: registers_reset_def)

abbreviation started :: u16 where
  "started \<equiv> CSR0_INIT OR CSR0_STRT OR CSR0_IDON OR CSR0_INTR OR CSR0_TXON OR CSR0_RXON"

lemma stop_test: "test_stop_clears_state s = Some ([True, True], (registers_reset s)\<lparr>rap := 0\<rparr>)"
  using stop_stopped [of "(registers_reset s)\<lparr>rap := 0\<rparr>"]
  by (simp add: test_stop_clears_state_def t_write_rdp_def) (simp add: chip_wput_def chip_wget_def has_def)

lemma init_test:
  assumes "boardram s = 0" "am_mode s = 0"
  shows "\<exists>t. csr_init_sequence s = Some ([True, True, True, True, True], t) \<and> test_ring_params t = [False, False, False, False] \<and>
    csr t 0 = started \<and> boardram t = 0 \<and> am_mode t = 0"
proof -
  have "do_driver_init 0 (csr_init_block 0 (registers_reset (raw_clear s))) =
      Some (set_csr 0 started ((chip_init (driver_pointers 0 (csr_init_block 0 (registers_reset (raw_clear s)))))\<lparr>am_initialized := True\<rparr>))"
    by (subst do_driver_init_eq) (simp_all add: assms enabled_def has_def)
  then show ?thesis
    using init_at_zero [OF assms(1)] assms
    by (simp add: csr_init_sequence_def assms test_ring_params_def registers_csr0_def has_def) (simp add: driver_pointers_def assms)
qed

lemma offset_test:
  assumes "boardram s = 0" "am_mode s = 0"
  shows "\<exists>t. test_init_block_at_nonzero_offset s = Some ([True], t) \<and> test_mode_and_ladrf t = [True, True]"
proof -
  have "do_driver_init 0x100 (csr_init_block 0x100 (registers_reset (raw_clear s))) =
      Some (set_csr 0 started ((chip_init (driver_pointers 0x100 (csr_init_block 0x100 (registers_reset (raw_clear s)))))\<lparr>am_initialized := True\<rparr>))"
    by (subst do_driver_init_eq) (simp_all add: assms enabled_def has_def)
  then show ?thesis
    using init_at_0x100 [OF assms(1)]
    by (simp add: test_init_block_at_nonzero_offset_def assms test_mode_and_ladrf_def registers_csr0_def has_def)
qed

lemma csr0_test: "csr s 0 = started \<Longrightarrow> test_csr0_after_init s = Some ([True], s\<lparr>rap := 0\<rparr>)"
  by (simp add: test_csr0_after_init_def chip_wget_def has_def)

lemma chip_id_test: "test_chip_id s = Some ([True, True], s\<lparr>rap := 89\<rparr>)"
  by (simp add: test_chip_id_def chip_wget_def word_le_nat_alt)

lemma rap_test: "\<exists>t. test_rap_readback s = Some ([True, True, True], t)"
  by (simp add: test_rap_readback_def chip_wget_def)

text \<open>The register test fails on the code as it is: sixteen checks hold and the four on the rings do not, because the test
  stores the initialisation block without the exchange of bytes that \<^verbatim>\<open>boardram_access.h\<close> performs. The program exits
  with status 1, and \<^verbatim>\<open>make test\<close> stops there.\<close>

theorem csr_test_fails:
  "map_option (\<lambda>cs. (results cs, exit_status cs)) (csr_test (static_init 0)) = Some ((16, 4), 1)"
proof -
  have s: "boardram ((registers_reset (static_init 0))\<lparr>rap := 0\<rparr>) = 0" "am_mode ((registers_reset (static_init 0))\<lparr>rap := 0\<rparr>) = 0"
    by (simp_all add: static_init_def)
  obtain t where t: "csr_init_sequence ((registers_reset (static_init 0))\<lparr>rap := 0\<rparr>) = Some ([True, True, True, True, True], t)"
    "test_ring_params t = [False, False, False, False]" "csr t 0 = started" "boardram t = 0" "am_mode t = 0"
    using init_test [OF s] by blast
  obtain u where u: "test_init_block_at_nonzero_offset (t\<lparr>rap := 89\<rparr>) = Some ([True], u)" "test_mode_and_ladrf u = [True, True]"
    using offset_test [of "t\<lparr>rap := 89\<rparr>"] t(4,5) by auto
  obtain v where v: "test_rap_readback u = Some ([True, True, True], v)" using rap_test by blast
  show ?thesis
    by (simp add: csr_test_def stop_test t u v csr0_test chip_id_test results_def exit_status_def)
qed

section \<open>The board RAM test on the model\<close>

text \<open>The board RAM test passes on every memory: twenty-four checks hold.\<close>

theorem flat_test_passes: "results (flat_test s) = (24, 0) \<and> exit_status (flat_test s) = 0"
proof -
  have l: "length flat_init_block = 24" by (simp add: flat_init_block_def)
  have b: "ram_read_block (ram_write_block u 0 flat_init_block) 0 24 = flat_init_block" for u :: "'a window_scheme"
    using flat.block_round_trip [of flat_init_block u 0] by (simp add: l)
  show ?thesis
    by (simp add: flat_test_def results_def exit_status_def Let_def b)
      (simp add: flat.get_w_view flat.put_w_view flat.put_view flat.get_view flat.write_block_view word_at_def set_word_def,
       simp add: flat_init_block_def)
qed

section \<open>The translation test on the model\<close>

text \<open>A sum whose bytes all lie in the array runs over the segment once; as a code equation this lets the test be
  evaluated.\<close>

fun words_sum :: "u8 list \<Rightarrow> u32 \<Rightarrow> u32" where
  "words_sum (h # l # bs) sm = words_sum bs (sm + (push_bit 8 (ucast h) OR ucast l))"
| "words_sum bs sm = sm"

lemma udp_sum_words:
  "data + bound \<le> length p \<Longrightarrow> even (bound - i) \<Longrightarrow>
    udp_sum p data i bound sm = Some (words_sum (take (bound - i) (drop (data + i) p)) sm)"
proof (induction p data i bound sm rule: udp_sum.induct)
  case (1 p data i bound sm)
  show ?case
  proof (cases "i < bound")
    case True
    have "even (bound - (i + 2))" using True 1(3) by simp
    have two: "i + 2 \<le> bound" using True 1(3) by presburger
    then have "take (bound - i) (drop (data + i) p) =
        p ! (data + i) # p ! Suc (data + i) # take (bound - (i + 2)) (drop (data + (i + 2)) p)"
      using 1(2) by (auto simp: Cons_nth_drop_Suc [symmetric] take_Cons' numeral_2_eq_2)
    then show ?thesis
      using 1(1) [OF True] 1(2) two \<open>even (bound - (i + 2))\<close>
      by (subst udp_sum.simps) (simp add: True be16_def rd8_def)
  next
    case False
    then show ?thesis by (subst udp_sum.simps) simp
  qed
qed

lemma udp_sum_code [code]:
  "udp_sum p data i bound sm =
     (if data + bound \<le> length p \<and> even (bound - i)
      then Some (words_sum (take (bound - i) (drop (data + i) p)) sm)
      else if i < bound then do { w \<leftarrow> be16 p (data + i); udp_sum p data (i + 2) bound (sm + w) }
      else Some sm)"
  using udp_sum_words [of data bound p i sm] udp_sum.simps [of p data i bound sm] by simp

abbreviation test_addresses :: mac_unit where
  "test_addresses \<equiv> \<lparr>mac_fakemac = FAKE, mac_realmac = REAL\<rparr>"

lemma arp_sender_test: "test_arp_sender_target test_addresses = Some [True, True]"
  by code_simp

lemma arp_target_test: "test_arp_target_translated test_addresses = Some [True]"
  by code_simp

lemma dhcp_test: "test_dhcp_chaddr test_addresses = Some [True, True]"
  by code_simp

lemma nonmatching_test: "test_nonmatching_unchanged test_addresses = Some [True]"
  by code_simp

lemma broadcast_test: "test_broadcast_dst_real_src test_addresses = Some [True, True]"
  by code_simp

text \<open>The translation test passes, whatever the two addresses were before: eight checks hold.\<close>

theorem mac_test_passes: "map_option (\<lambda>cs. (results cs, exit_status cs)) (mac_test m) = Some ((8, 0), 0)"
proof -
  have "mac_set_addresses FAKE REAL m = test_addresses"
    by (simp add: mac_set_addresses_def)
  then show ?thesis
    by (simp add: mac_test_def arp_sender_test arp_target_test dhcp_test nonmatching_test broadcast_test results_def exit_status_def)
qed

end
