(* ===== verification/Spec2Isabelle.thy ===== *)
theory Spec2Isabelle
  imports Interleaving Reg_Lock Ddr3_Race Client Probe Programs Card_Doorbell Card_Bridge Fpga_Ram Unit_Tests
begin

text \<open>
  \<^bold>\<open>A verification library for the A2065 network card: its ARM daemons and its FPGA modules.\<close>

  \<^bold>\<open>The program.\<close> The repository emulates the Commodore A2065 Ethernet card in a MiSTer FPGA core. The
  68k sees an Am7990 LANCE chip and 32 KB of board RAM. The FPGA handles the bus; the chip itself is C++
  under \<^verbatim>\<open>src/arm\<close>, run by a Linux daemon on the ARM cores of the same SoC. There are three daemons over the
  same chip code, which differ in how they meet the FPGA:
  \<^item> \<^verbatim>\<open>main_doorbell.cpp\<close>: board RAM in DDR3 that both sides map; register writes arrive in a command slot, the
    registers and the interrupt line are published in others;
  \<^item> \<^verbatim>\<open>main_ddr3.cpp\<close>: every access to the board RAM is a transfer through a mailbox (\<^verbatim>\<open>boardram_remote.cpp\<close>), and
    register requests are served while a transfer waits;
  \<^item> \<^verbatim>\<open>main.cpp\<close>: the HPS-to-FPGA bridge window with a request and DONE handshake, or a shared-memory simulation of
    it that \<^verbatim>\<open>bridge_client.cpp\<close> drives.

  The chip is \<^verbatim>\<open>registers.cpp\<close> (register file, CSR0 state machine, initialisation block), \<^verbatim>\<open>rings.cpp\<close> (descriptor
  rings, transmit and receive), \<^verbatim>\<open>mac.cpp\<close> (address translation between card and host), \<^verbatim>\<open>crc32.cpp\<close> and
  \<^verbatim>\<open>ethernet.cpp\<close> (raw socket). Small tools probe the hardware. The FPGA modules under \<^verbatim>\<open>src/fpga/rtl\<close> are the other end of
  the slots and of the handshake: the 68k sees the card through them.

  \<^bold>\<open>Theories and sources.\<close>
  \<^item> \<open>Prelude\<close>: words, flag tests (\<open>has\<close>), byte buffers (\<open>put_seg\<close>), partial results (\<open>holds\<close>). \<open>Window\<close>: the mapped
    window, \<^verbatim>\<open>rd64\<close> and \<^verbatim>\<open>wr64\<close>.
  \<^item> \<open>Boardram\<close>: \<^verbatim>\<open>boardram_access.h\<close>, flat. The locales \<open>byte_ram\<close>, \<open>word_ram\<close>, \<open>block_ram\<close> are what a board RAM promises;
    \<open>flat\<close> interprets them.
  \<^item> \<open>Crc32\<close>, \<open>Mac\<close>, \<open>Ethernet\<close>: the three files of these names.
  \<^item> \<open>Chip_State\<close>: the file-scope variables of the chip as one extensible record \<open>a2065\<close> over the window, and the
    contract of the interrupt callback (locale \<open>int_callback\<close>). \<open>Registers\<close>: \<^verbatim>\<open>registers.cpp\<close> (\<open>chip_wput\<close>, \<open>chip_wget\<close>,
    \<open>chip_init\<close>, \<open>rethink\<close>). \<open>Desc_Rings\<close>, \<open>Tx_Gather\<close>: \<^verbatim>\<open>rings.cpp\<close> (\<open>do_transmit\<close>, \<open>gotfunc\<close>); the locales
    \<open>ring_closed\<close> and \<open>chip_closed\<close> carry any predicate through the chip.
  \<^item> \<open>Reg_Lock\<close>: the recursive register lock of \<^verbatim>\<open>registers.cpp\<close> as a step relation over threads.
  \<^item> \<open>Doorbell\<close>: \<^verbatim>\<open>main_doorbell.cpp\<close>, one turn of the main loop (\<open>poll_step\<close>) and of the receive thread (\<open>rx_step\<close>).
    \<open>Frames\<close>: a frame from socket to ring and from ring to socket through that daemon. \<open>Interleaving\<close>: the two
    threads and the FPGA at the grain of single slot accesses.
  \<^item> \<open>Remote\<close>: \<^verbatim>\<open>boardram_remote.cpp\<close>, with the FPGA as a parameter. \<open>Chip_Ops\<close>: \<^verbatim>\<open>registers.cpp\<close> and \<^verbatim>\<open>rings.cpp\<close> as
    compiled with \<^verbatim>\<open>BOARDRAM_REMOTE\<close>, over an interface of four accesses. \<open>Chip_Sim\<close> (locales \<open>ram_sim\<close>, \<open>chip_sim\<close>):
    that build simulates the flat one whenever the accesses do. \<open>Chip_Closed\<close> (locale \<open>ops_closed\<close>): invariants over
    arbitrary accesses.
  \<^item> \<open>Ddr3\<close>, \<open>Ddr3_Chip\<close>, \<open>Ddr3_Serve\<close>: \<^verbatim>\<open>main_ddr3.cpp\<close>. The queue of deferred writes is an interpretation of the locale
    \<open>bounded_queue\<close>; \<open>side_frame\<close> and \<open>turn_frame\<close> say what a transfer, with the service inside it, leaves alone.
    \<open>Ddr3_Race\<close>: the register mailbox with both threads on it, the main thread cut at its slot accesses.
  \<^item> \<open>Bridge\<close>: \<^verbatim>\<open>main.cpp\<close>, \<^verbatim>\<open>bridge.cpp\<close>, \<^verbatim>\<open>bridge_sim.cpp\<close>, \<^verbatim>\<open>a2065_bridge.h\<close>. \<open>Client\<close>: \<^verbatim>\<open>bridge_client.cpp\<close> beside the
    daemon, interleaved by a schedule (locales \<open>client_closed\<close>, \<open>client_checked\<close>).
  \<^item> \<open>Cmdline\<close>: the argument loops and \<^verbatim>\<open>strtol\<close>, \<^verbatim>\<open>strtoul\<close>, \<^verbatim>\<open>atoi\<close>. \<open>Programs\<close>: \<^verbatim>\<open>main\<close> of the three daemons, from the
    arguments to the exit status. \<open>Probe\<close>: \<^verbatim>\<open>bridge_status.cpp\<close>, \<^verbatim>\<open>bridge_scan.cpp\<close>, \<^verbatim>\<open>bridge_test_safe.cpp\<close>,
    \<^verbatim>\<open>ddr3_scan.cpp\<close>, \<^verbatim>\<open>sdram_map.cpp\<close> and the stand-in daemon \<^verbatim>\<open>bridge_ddr3.cpp\<close>.
  \<^item> \<open>Fpga_Bus\<close>: the 68k bus and clocked modules (locale \<open>clocked\<close>). \<open>Fpga_Regfile\<close>: \<^verbatim>\<open>a2065_regfile.v\<close>, the registers of the
    doorbell design. \<open>Fpga_Registers\<close>: \<^verbatim>\<open>a2065_registers.v\<close>, both generate branches. \<open>Fpga_Autoconfig\<close>: \<^verbatim>\<open>a2065_autoconfig.v\<close>.
    \<open>Fpga_Ram\<close>: \<^verbatim>\<open>a2065_ddr_window.v\<close> and \<^verbatim>\<open>a2065_boardram.v\<close>. A module is a function from the inputs and registers at a
    clock edge to the registers after it; a wire is a function of both.
  \<^item> \<open>Card_Doorbell\<close>, \<open>Card_Bridge\<close>: module and daemon together, from the bus cycle of the 68k to the chip and
    back. What lies between, the DDR3 port and the bus slave of the bridge, is not in the repository: the
    words of the slots are laid out as \<^verbatim>\<open>a2065_ddr3_flat.h\<close> and \<^verbatim>\<open>a2065_bridge.h\<close> document them (\<open>doorbell_word\<close>,
    \<open>csr_lanes\<close>, \<open>mac_lanes\<close>, \<open>shows_request\<close>, \<open>answer_of\<close>), as hypotheses of the theorems.
  \<^item> \<open>Unit_Tests\<close>: \<^verbatim>\<open>boardram_flat_test.cpp\<close>, \<^verbatim>\<open>csr_test.cpp\<close> and \<^verbatim>\<open>mac_test.cpp\<close>, run on the model.

  \<^bold>\<open>How the model reads.\<close> A function of the source is a function on the state of the same name, or with the
  daemon's name in front where several files use one name. Integers have their widths (\<open>u8\<close> to \<open>u64\<close>); an \<^verbatim>\<open>int\<close>
  that only counts is an \<open>int\<close> or \<open>nat\<close>, with the overflow written out where it can happen (\<open>int_incr\<close>). Offsets are
  added in 32 bits and masked as in the source. A byte array is a list with its real length, and a copy outside it
  is \<open>None\<close>. In general \<open>None\<close> is undefined behaviour or a call that does not return, and \<open>Inl\<close> an exit status.
  What the kernel, the network, the FPGA and the clock answer are arguments. The contents of an uninitialised stack
  buffer are an argument (\<open>tmp0\<close>).

  \<^bold>\<open>What is shown.\<close>
  \<^item> The chip: every register access keeps the registers in range and CSR0 a legal state; STOP, acknowledging, the
    protection of CSR1 to CSR3; initialisation reads back the block the driver built; INIT then STRT starts what the
    mode asks.
  \<^item> Frames: the receive filter is the address rule of the Am7990; an accepted frame ends in the ring with its check
    sequence, RINT and the interrupt line; without a buffer MISS is set; a chain of descriptors goes out as one padded,
    translated frame; the CRC is the bit-serial one; the translated UDP checksum verifies.
  \<^item> The daemons: the invariant of each holds from start-up through every sequence of events, and every exit releases
    what was mapped. The doorbell daemon also in every interleaving of its threads. The mailbox build refines the flat
    one although register requests are served inside its transfers.
  \<^item> The card: a word the 68k writes reaches the register of the chip it selected and is read back; a register access
    through the bridge ends with the answer of the chip, and in any case within the watchdog time; an access to the board
    RAM holds the bus for the latency and two clocks, and the exchange of bytes in the accessors of the daemon is right
    for the lanes of the memory; configuration shows the identity of the A2065 and the address the daemon chose.
  \<^item> Client and bridge daemon together, the register lock, the tools and the command lines.
  \<^item> Where the code does something else than it means to, a theorem states what it does (a lost interrupt, a deferred
    write that reaches another register, a request that is acknowledged and lost, a torn request, a byte order that
    does not fit, a command of the 68k that the next one replaces, a unit test that fails).

  \<^bold>\<open>Bounds.\<close> Loops of the source are total functions with a measure or recursion on the number of polls: 3 attempts
  of 10000 polls for a transfer, 100000 for a dump, 100 for the client, 1024 megabytes for the scan. Loops that need
  not end are \<^theory_text>\<open>partial_function (option)\<close> (the dump, the deferred queue), with theorems on both sides. The
  queue holds seven writes, the interrupt is held for 100 turns.

  \<^bold>\<open>Not modelled.\<close> Log and debug output, and the time stamp in front of it. Signal handlers: the signal is the end of the
  list of events. The contents of \<^verbatim>\<open>ioctl\<close> requests and socket options. The other test programs (\<^verbatim>\<open>rings_test.cpp\<close>,
  \<^verbatim>\<open>bridge_test.cpp\<close>, \<^verbatim>\<open>ethernet_test.cpp\<close>, \<^verbatim>\<open>test_deadlock.cpp\<close>, \<^verbatim>\<open>test_interrupt.cpp\<close>, the simulation benches, the 68k and
  Python programs), which drive the code above or the hardware. \<^verbatim>\<open>a2065_top.v\<close>, which does not elaborate: it connects a
  port that \<^verbatim>\<open>a2065_boardram.v\<close> does not have, and leaves \<^verbatim>\<open>BRIDGE_LOCAL\<close> at 1, where the outputs it uses have no driver. The
  RAM mailbox of the FPGA and its DDR3 port are not in the repository, so the first is a parameter, with what the daemon
  relies on as a hypothesis that a concrete FPGA meets, and the second is the documented layout. Metastability and
  undefined values of signals are left out: a register has some value before the first edge. Threads are interleaved
  by single slot accesses in the doorbell daemon and in the register mailbox of the DDR3 daemon, and by whole turns elsewhere.
\<close>

unbundle bit_operations_syntax

section \<open>The stand-in and the daemon\<close>

text \<open>On a register access through the data port of a stopped chip with CSR0 selected, the stand-in for the DDR3 bridge
  daemon gives the answer that the daemon gives, and both withdraw the request.\<close>

theorem stub_like_stopped:
  assumes req: "rd64 s MBX_REQ_OFF = mbx_request rw A2065_RDP_OFF data" and "req_cnt s < INT_MAX"
    and "rap s = 0" and "csr s 0 = CSR0_STOP"
  shows "\<exists>t. service_bridge_safe s = Some t \<and> rd64 (stub_turn s) MBX_RSP_OFF = rd64 t MBX_RSP_OFF \<and>
    rd64 (stub_turn s) MBX_REQ_OFF = 0 \<and> rd64 t MBX_REQ_OFF = 0"
proof -
  have get: "chip_wget A2065_RDP_OFF s = 0x0004" using assms(3,4) by (simp add: chip_wget_def has_def)
  have fields: "has (rd64 s 0x8000) 1" "bit (rd64 s 0x8000) 1 = rw" "ucast (drop_bit 2 (rd64 s 0x8000) AND 0xFF) = (0 :: u16)"
    using mbx_request_fields [of rw A2065_RDP_OFF data] req by (simp_all add: req_rw_def req_addr_def)
  have rsp: "rd64 (stub_turn s) MBX_RSP_OFF = 1 OR push_bit 1 (ucast (if rw then 0 else 0x0004 :: u16))" "rd64 (stub_turn s) MBX_REQ_OFF = 0"
    using fields by (simp_all add: stub_turn_def Let_def)
  let ?t = "if rw then defer_csr0 data (acknowledged rw A2065_RDP_OFF s) else acknowledged rw A2065_RDP_OFF s"
  have "service_bridge_safe s = Some ?t" using safe_service_eq [OF req assms(2)] by simp
  moreover have "rd64 ?t MBX_RSP_OFF = 1 OR push_bit 1 (ucast (if rw then 0 else 0x0004 :: u16))" "rd64 ?t MBX_REQ_OFF = 0"
    using get by simp_all
  ultimately show ?thesis using rsp by metis
qed

theorem stub_like_stopped_witness:
  "\<exists>t. service_bridge_safe (wr64 fresh_ddr3 MBX_REQ_OFF (mbx_request False A2065_RDP_OFF 0)) = Some t \<and>
     rd64 (stub_turn (wr64 fresh_ddr3 MBX_REQ_OFF (mbx_request False A2065_RDP_OFF 0))) MBX_RSP_OFF = rd64 t MBX_RSP_OFF"
proof -
  let ?s = "wr64 fresh_ddr3 MBX_REQ_OFF (mbx_request False A2065_RDP_OFF 0)"
  have "rd64 ?s MBX_REQ_OFF = mbx_request False A2065_RDP_OFF 0" "req_cnt ?s < INT_MAX" "rap ?s = 0" "csr ?s 0 = CSR0_STOP"
    by (simp_all add: fresh_ddr3_facts registers_reset_def ddr3_of_def a2065.extend_def)
  from stub_like_stopped [OF this] show ?thesis by blast
qed

end
